(* ===== verification/Stn_Prelude.thy ===== *)
theory Stn_Prelude
  imports Main "HOL-Library.Word"
begin

text \<open>
  Shared vocabulary of the development: the machine types of the C code, byte
  buffers as lists with explicit offsets (a C pointer \<open>p + k\<close> is the pair of a
  list and an offset), the C library calls on buffers, and the lemmas on
  buffers, big-endian values and words that every component uses.

  Conventions. \<open>uint8_t\<close>, \<open>uint16_t\<close>, \<open>uint32_t\<close> and \<open>uint64_t\<close> are words of that
  width. \<open>size_t\<close> (64 bits on the platforms the code is built for) is \<open>nat\<close>: the
  code bounds every size it adds to. A pointer that the code tests against NULL is
  an \<open>option\<close>; storage that a function only writes through is part of its result.
\<close>

unbundle bit_operations_syntax

type_synonym byte = "8 word"
type_synonym bytes = "8 word list"
type_synonym u16 = "16 word"
type_synonym u32 = "32 word"
type_synonym u64 = "64 word"

named_theorems buf_simps \<open>rewrite rules for slices and block copies of buffers\<close>
named_theorems be_simps \<open>big-endian values of buffers\<close>

section \<open>Buffers\<close>

text \<open>The \<open>n\<close> bytes at offset \<open>off\<close> of a buffer.\<close>

definition bytes_at :: "nat \<Rightarrow> nat \<Rightarrow> 'a list \<Rightarrow> 'a list" where
  "bytes_at off n p = take n (drop off p)"

text \<open>\<open>memcpy (p + off, src, length src)\<close>: the buffer afterwards.\<close>

definition blit :: "nat \<Rightarrow> 'a list \<Rightarrow> 'a list \<Rightarrow> 'a list" where
  "blit off src p = take off p @ src @ drop (off + length src) p"

text \<open>\<open>memcmp (p, q, n) == 0\<close> on buffers that hold \<open>n\<close> bytes.\<close>

definition mem_eq :: "'a list \<Rightarrow> 'a list \<Rightarrow> nat \<Rightarrow> bool" where
  "mem_eq p q n \<longleftrightarrow> take n p = take n q"

text \<open>
  The outcome of the next allocation: a script of outcomes stands for the
  allocator, and an exhausted script means that memory is available.
\<close>

fun alloc_next :: "bool list \<Rightarrow> bool \<times> bool list" where
  "alloc_next [] = (True, [])"
| "alloc_next (b # bs) = (b, bs)"

lemma length_bytes_at [simp]: "length (bytes_at off n p) = min n (length p - off)"
  by (simp add: bytes_at_def min.commute)

lemma length_blit [simp]: "off + length src \<le> length p \<Longrightarrow> length (blit off src p) = length p"
  by (simp add: blit_def)

lemma nth_bytes_at [simp]: "i < n \<Longrightarrow> off + i < length p \<Longrightarrow> bytes_at off n p ! i = p ! (off + i)"
  by (simp add: bytes_at_def)

lemma nth_blit:
  "off + length src \<le> length p \<Longrightarrow> i < length p \<Longrightarrow>
   blit off src p ! i = (if off \<le> i \<and> i < off + length src then src ! (i - off) else p ! i)"
  by (auto simp: blit_def nth_append min_def)

lemma bytes_at_blit_same [buf_simps]:
  "off + length src \<le> length p \<Longrightarrow> n = length src \<Longrightarrow> bytes_at off n (blit off src p) = src"
  by (simp add: bytes_at_def blit_def)

lemma bytes_at_blit_before [buf_simps]:
  "o1 + n \<le> off \<Longrightarrow> off \<le> length p \<Longrightarrow> bytes_at o1 n (blit off src p) = bytes_at o1 n p"
  by (simp add: bytes_at_def blit_def take_drop min_def)

lemma bytes_at_blit_after [buf_simps]:
  "off + length src \<le> o1 \<Longrightarrow> off \<le> length p \<Longrightarrow> bytes_at o1 n (blit off src p) = bytes_at o1 n p"
  by (simp add: bytes_at_def blit_def min_def)

lemma bytes_at_append_left [buf_simps]:
  "off + n \<le> length p \<Longrightarrow> bytes_at off n (p @ q) = bytes_at off n p"
  by (simp add: bytes_at_def)

lemma bytes_at_append_right [buf_simps]:
  "length p \<le> off \<Longrightarrow> bytes_at off n (p @ q) = bytes_at (off - length p) n q"
  by (simp add: bytes_at_def)

lemma bytes_at_take [buf_simps]: "off + n \<le> m \<Longrightarrow> bytes_at off n (take m p) = bytes_at off n p"
  by (simp add: bytes_at_def take_drop min_def)

lemma bytes_at_bytes_at [buf_simps]:
  "off + n \<le> m \<Longrightarrow> bytes_at off n (bytes_at o1 m p) = bytes_at (o1 + off) n p"
  by (simp add: bytes_at_def take_drop min_def add.commute)

lemma bytes_at_drop [buf_simps]: "bytes_at off n (drop m p) = bytes_at (m + off) n p"
  by (simp add: bytes_at_def add.commute)

lemma bytes_at_zero: "bytes_at 0 n p = take n p"
  by (simp add: bytes_at_def)

lemma bytes_at_replicate [buf_simps]:
  "off + n \<le> m \<Longrightarrow> bytes_at off n (replicate m x) = replicate n x"
  by (simp add: bytes_at_def)

lemma bytes_at_eq_iff:
  "length p = length q \<Longrightarrow> off + n \<le> length p \<Longrightarrow>
   bytes_at off n p = bytes_at off n q \<longleftrightarrow> (\<forall>i < n. p ! (off + i) = q ! (off + i))"
  by (auto simp: list_eq_iff_nth_eq)

lemma blit_covers [simp]: "length src = length p \<Longrightarrow> blit 0 src p = src"
  by (simp add: blit_def)

text \<open>Filling a zeroed buffer from the front, field by field.\<close>

lemma blit_fill:
  "length pre = off \<Longrightarrow> length src \<le> k \<Longrightarrow>
   blit off src (pre @ replicate k x) = (pre @ src) @ replicate (k - length src) x"
  by (simp add: blit_def)

lemma mem_eq_refl [simp]: "mem_eq p p n"
  by (simp add: mem_eq_def)

lemma mem_eq_exact: "length p = n \<Longrightarrow> length q = n \<Longrightarrow> mem_eq p q n \<longleftrightarrow> p = q"
  by (simp add: mem_eq_def)

section \<open>Big-endian values\<close>

text \<open>The number a byte string denotes, most significant byte first.\<close>

fun be_nat :: "bytes \<Rightarrow> nat" where
  "be_nat [] = 0"
| "be_nat (b # bs) = unat b * 256 ^ length bs + be_nat bs"

text \<open>The \<open>n\<close> low bytes of a word, most significant first.\<close>

definition be_bytes :: "nat \<Rightarrow> 'a::len word \<Rightarrow> bytes" where
  "be_bytes n v = map (\<lambda>i. ucast (drop_bit (8 * (n - 1 - i)) v)) [0..<n]"

lemma unat_byte_less [simp]: "unat (b :: byte) < 256"
  by (rule order_less_le_trans [OF unsigned_less]) simp

lemma unat_drop_bit_8: "unat (drop_bit 8 (v :: 'a::len word)) = unat v div 256"
  by (simp add: unsigned_drop_bit_eq) (simp add: take_bit_nat_eq_self drop_bit_eq_div)

lemma unat_ucast_byte: "unat (ucast (v :: 'a::len word) :: byte) = unat v mod 256"
  by (simp add: unsigned_ucast_eq take_bit_eq_mod)

lemma unat_ucast_up [simp]: "8 \<le> LENGTH('a) \<Longrightarrow> unat (ucast (b :: byte) :: 'a::len word) = unat b"
  using power_increasing [of 8 "LENGTH('a)" "2::nat"] unat_byte_less [of b]
  by (simp add: unsigned_ucast_eq take_bit_nat_eq_self_iff del: unat_byte_less)

lemma length_be_bytes [simp]: "length (be_bytes n v) = n"
  by (simp add: be_bytes_def)

lemma nth_be_bytes [simp]: "i < n \<Longrightarrow> be_bytes n v ! i = ucast (drop_bit (8 * (n - 1 - i)) v)"
  by (simp add: be_bytes_def)

lemma be_nat_bound: "be_nat bs < 256 ^ length bs"
proof (induction bs)
  case (Cons b bs)
  have "unat b * 256 ^ length bs + be_nat bs < (unat b + 1) * 256 ^ length bs"
    using Cons by simp
  also have "\<dots> \<le> 256 * 256 ^ length bs"
    using unat_byte_less [of b] by (intro mult_right_mono) linarith+
  finally show ?case by simp
qed simp

lemma be_nat_append [be_simps]: "be_nat (xs @ ys) = be_nat xs * 256 ^ length ys + be_nat ys"
  by (induction xs) (simp_all add: power_add algebra_simps)

lemma be_nat_replicate_0 [simp]: "be_nat (replicate n 0) = 0"
  by (induction n) simp_all

lemma be_nat_replicate_ff: "be_nat (replicate n 0xff) = 256 ^ n - 1"
proof (induction n)
  case (Suc n)
  have "unat (0xff :: byte) = 255" by simp
  moreover have "(1 :: nat) \<le> 256 ^ n" by simp
  ultimately show ?case
    using Suc by (simp only: replicate_Suc be_nat.simps length_replicate power_Suc)
qed simp

lemma be_nat_eq_0: "be_nat bs = 0 \<longleftrightarrow> (\<forall>b \<in> set bs. b = 0)"
  by (induction bs) (auto simp: unat_eq_zero)

lemma be_nat_inject: "length xs = length ys \<Longrightarrow> be_nat xs = be_nat ys \<longleftrightarrow> xs = ys"
proof (induction xs ys rule: list_induct2)
  case (Cons x xs y ys)
  have bx: "be_nat xs < 256 ^ length xs" and b_y: "be_nat ys < 256 ^ length xs"
    using be_nat_bound [of xs] be_nat_bound [of ys] Cons.hyps by simp_all
  have split: "u = v \<and> a = b" if "u * m + a = v * m + b" "a < m" "b < (m::nat)" for u v a b m
    using that by (metis div_mult_self3 div_less mod_mult_self3 mod_less add_0_right gr_implies_not0)
  show ?case
    using split [OF _ bx b_y, of "unat x" "unat y"] Cons
    by (auto simp: word_unat_eq_iff)
qed simp

lemma be_nat_less_cons:
  assumes "length xs = length ys" and "unat x < unat y"
  shows "be_nat (x # xs) < be_nat (y # ys)"
proof -
  have "be_nat (x # xs) < (unat x + 1) * 256 ^ length xs"
    using be_nat_bound [of xs] by simp
  also have "\<dots> \<le> unat y * 256 ^ length xs"
    using assms(2) by (intro mult_right_mono) simp_all
  also have "\<dots> \<le> be_nat (y # ys)" using assms(1) by simp
  finally show ?thesis .
qed

lemma be_nat_le_cons:
  assumes "length xs = length ys"
  shows "be_nat (x # xs) \<le> be_nat (y # ys) \<longleftrightarrow> x < y \<or> (x = y \<and> be_nat xs \<le> be_nat ys)"
  using be_nat_less_cons [OF assms, of x y] be_nat_less_cons [OF assms [symmetric], of y x] assms
  by (cases "unat x" "unat y" rule: linorder_cases) (auto simp: word_less_nat_alt word_unat_eq_iff)

lemma be_nat_snoc: "be_nat (bs @ [b]) = be_nat bs * 256 + unat b"
  by (simp add: be_nat_append)

lemma be_bytes_Suc: "be_bytes (Suc n) v = be_bytes n (drop_bit 8 v) @ [ucast v]"
proof (rule nth_equalityI)
  fix i assume "i < length (be_bytes (Suc n) v)"
  moreover have "i < n \<Longrightarrow> 8 * (n - i) = 8 * (n - Suc i) + 8" by simp
  ultimately show "be_bytes (Suc n) v ! i = (be_bytes n (drop_bit 8 v) @ [ucast v]) ! i"
    by (auto simp: nth_append less_Suc_eq)
qed simp

lemma be_nat_be_bytes [be_simps]:
  "be_nat (be_bytes n (v :: 'a::len word)) = unat v mod 256 ^ n"
proof (induction n arbitrary: v)
  case 0
  show ?case by (simp add: be_bytes_def)
next
  case (Suc n)
  have "be_nat (be_bytes (Suc n) v) = (unat v div 256 mod 256 ^ n) * 256 + unat v mod 256"
    by (simp add: be_bytes_Suc be_nat_snoc Suc.IH unat_drop_bit_8 unat_ucast_byte)
  also have "\<dots> = unat v mod (256 * 256 ^ n)"
    by (simp add: mod_mult2_eq)
  finally show ?case by simp
qed

section \<open>Sample data\<close>

text \<open>
  A block header of 168 bytes (magic STNB, version 3, a Chain target whose first byte is
  \<open>0x0c\<close>) and a mining template that carries it: base, work id, block length, block. The
  theorems are applied to them.
\<close>

definition example_block :: bytes where
  "example_block = [0x53, 0x54, 0x4e, 0x42, 0, 3] @ replicate 114 0 @ 0x0c # replicate 31 0xff @ replicate 16 0"

definition example_template :: bytes where
  "example_template = replicate 32 1 @ replicate 32 2 @ [0, 0, 0, 168] @ example_block"

lemma length_example_block [simp]: "length example_block = 168"
  and length_example_template [simp]: "length example_template = 236"
  by (simp_all add: example_block_def example_template_def)

lemma example_template_fields:
  "bytes_at 0 32 example_template = replicate 32 1"
  "bytes_at 32 32 example_template = replicate 32 2"
  "bytes_at 64 4 example_template = [0, 0, 0, 168]"
  "bytes_at 68 4 example_template = [0x53, 0x54, 0x4e, 0x42]"
  "bytes_at 72 2 example_template = [0, 3]"
  "bytes_at 188 32 example_template = 0x0c # replicate 31 0xff"
  "bytes_at 220 8 example_template = replicate 8 0"
  "drop 68 example_template = example_block"
  by (simp_all add: example_template_def example_block_def bytes_at_def)

end
