(* ===== verification/Byte_Codec.thy ===== *)
theory Byte_Codec
  imports Stn_Prelude
begin

text \<open>
  The big-endian field accessors of the C files. Each is translated as its file
  writes it (a loop in \<^verbatim>\<open>stn_rpc_client.c\<close>, shifts in
  \<^verbatim>\<open>stn_stratum_server.c\<close>, a loop from the last byte in
  \<^verbatim>\<open>stn_chain_rpc_adapter.c\<close>). The locale \<open>be_field\<close> states what their users rely
  on, and is interpreted on every pair of accessors. A pointer argument is the
  buffer and the offset it points to.
\<close>

section \<open>The accessors\<close>

definition read_be :: "bytes \<Rightarrow> nat \<Rightarrow> nat \<Rightarrow> u64" where
  "read_be p off n = foldl (\<lambda>v i. push_bit 8 v OR ucast (p ! (off + i))) 0 [0..<n]"

definition write_be :: "bytes \<Rightarrow> nat \<Rightarrow> nat \<Rightarrow> u64 \<Rightarrow> bytes" where
  "write_be p off n v =
     fst (foldl (\<lambda>(p, v) i. (p[off + (n - 1 - i) := ucast (v AND 0xff)], drop_bit 8 v))
            (p, v) [0..<n])"

definition read32be :: "bytes \<Rightarrow> nat \<Rightarrow> u32" where
  "read32be p off =
     push_bit 24 (ucast (p ! off)) OR push_bit 16 (ucast (p ! (off + 1))) OR
     push_bit 8 (ucast (p ! (off + 2))) OR ucast (p ! (off + 3))"

definition read64be :: "bytes \<Rightarrow> nat \<Rightarrow> u64" where
  "read64be p off = foldl (\<lambda>v i. push_bit 8 v OR ucast (p ! (off + i))) 0 [0..<8]"

definition write32be :: "bytes \<Rightarrow> nat \<Rightarrow> u32 \<Rightarrow> bytes" where
  "write32be p off v =
     p[off := ucast (drop_bit 24 v), off + 1 := ucast (drop_bit 16 v),
       off + 2 := ucast (drop_bit 8 v), off + 3 := ucast v]"

definition write64be :: "bytes \<Rightarrow> nat \<Rightarrow> u64 \<Rightarrow> bytes" where
  "write64be p off v =
     fst (foldl (\<lambda>(p, v) i. (p[off + (7 - i) := ucast (v AND 0xff)], drop_bit 8 v))
            (p, v) [0..<8])"

section \<open>What the accessors compute\<close>

lemma pow256: "256 ^ k = (2 :: nat) ^ (8 * k)"
  by (simp add: power_mult)

lemma shift_or_byte:
  assumes v: "unat (v :: 'a::len word) < 256 ^ k" and len: "8 * Suc k \<le> LENGTH('a)"
  shows "unat (push_bit 8 v OR ucast (b :: byte)) = unat v * 256 + unat b"
proof -
  have sum: "push_bit 8 v OR ucast b = push_bit 8 v + ucast b"
    by (rule disjunctive_add [symmetric])
      (auto simp: bit_push_bit_iff bit_ucast_iff dest: bit_imp_le_length)
  have b: "unat (ucast b :: 'a word) = unat b"
    using len by simp
  have "unat v * 256 + unat b < (unat v + 1) * 256"
    using unat_byte_less [of b] by (simp add: algebra_simps del: unat_byte_less)
  also have "\<dots> \<le> 256 ^ k * 256"
    using v by (intro mult_right_mono) simp_all
  also have "\<dots> = 2 ^ (8 * Suc k)"
    using pow256 [of "Suc k"] by simp
  also have "\<dots> \<le> 2 ^ LENGTH('a)"
    using len by (rule power_increasing) simp
  finally have "unat v * 256 + unat b < 2 ^ LENGTH('a)" .
  then show ?thesis
    by (simp add: sum unat_word_ariths b unsigned_push_bit_eq take_bit_eq_mod mod_simps)
      (simp add: push_bit_eq_mult)
qed

lemma read_be_value [be_simps]:
  assumes "n \<le> 8" and "off + n \<le> length p"
  shows "unat (read_be p off n) = be_nat (bytes_at off n p)"
  using assms
proof (induction n)
  case 0
  show ?case by (simp add: read_be_def bytes_at_def)
next
  case (Suc n)
  have snoc: "bytes_at off (Suc n) p = bytes_at off n p @ [p ! (off + n)]"
    using Suc.prems by (simp add: bytes_at_def take_Suc_conv_app_nth)
  have IH: "unat (read_be p off n) = be_nat (bytes_at off n p)"
    using Suc by simp
  have step: "read_be p off (Suc n) = push_bit 8 (read_be p off n) OR ucast (p ! (off + n))"
    by (simp add: read_be_def)
  have "unat (read_be p off n) < 256 ^ n"
    using be_nat_bound [of "bytes_at off n p"] Suc.prems by (simp add: IH)
  then show ?case
    using Suc.prems by (simp add: step snoc be_nat_snoc IH shift_or_byte [of _ n])
qed

lemma read64be_read_be: "read64be p off = read_be p off 8"
  by (simp add: read64be_def read_be_def)

lemma read32be_nested:
  "read32be p off =
     push_bit 8 (push_bit 8 (push_bit 8 (push_bit 8 0 OR ucast (p ! off)) OR ucast (p ! (off + 1)))
       OR ucast (p ! (off + 2))) OR ucast (p ! (off + 3))"
  by (simp add: read32be_def push_bit_or or.assoc)

lemma read32be_value [be_simps]:
  assumes "off + 4 \<le> length p"
  shows "unat (read32be p off) = be_nat (bytes_at off 4 p)"
proof -
  have sep: "bytes_at off 4 p = [p ! off, p ! (off + 1), p ! (off + 2), p ! (off + 3)]"
    using assms by (intro nth_equalityI) (auto simp: nth_Cons' less_Suc_eq numeral_eq_Suc)
  have step: "unat (push_bit 8 v OR ucast x) = unat v * 256 + unat x"
       "unat (push_bit 8 v OR ucast x) < 256 ^ Suc k"
    if "unat v < 256 ^ k" "k \<le> 3" for v :: u32 and x :: byte and k
  proof -
    show eq: "unat (push_bit 8 v OR ucast x) = unat v * 256 + unat x"
      using shift_or_byte [of v k x] that by simp
    show "unat (push_bit 8 v OR ucast x) < 256 ^ Suc k"
      using unat_byte_less [of x] that(1) unfolding eq power_Suc by linarith
  qed
  define a where "a = (push_bit 8 0 OR ucast (p ! off) :: u32)"
  define b where "b = push_bit 8 a OR ucast (p ! (off + 1))"
  define c where "c = push_bit 8 b OR ucast (p ! (off + 2))"
  have "unat a = unat (p ! off)" "unat a < 256 ^ 1"
    using step [of 0 0] by (simp_all add: a_def)
  moreover from step [OF this(2)] have "unat b = unat a * 256 + unat (p ! (off + 1))" "unat b < 256 ^ 2"
    by (simp_all add: b_def numeral_2_eq_2)
  moreover from step [OF this(2)] have "unat c = unat b * 256 + unat (p ! (off + 2))" "unat c < 256 ^ 3"
    by (simp_all add: c_def numeral_3_eq_3)
  moreover from step(1) [OF this(2)]
  have "unat (read32be p off) = unat c * 256 + unat (p ! (off + 3))"
    unfolding read32be_nested c_def b_def a_def by blast
  ultimately show ?thesis by (simp add: sep)
qed

lemma drop_bit_drop_bit_8: "drop_bit 8 (drop_bit (8 * k) (v :: 'a::len word)) = drop_bit (8 * Suc k) v"
  by (simp add: add.commute)

lemma ucast_and_ff [simp]: "ucast (v AND 0xff :: 'a::len word) = (ucast v :: byte)"
proof -
  have "(0xff :: 'a word) = mask 8" by (simp add: mask_eq_exp_minus_1)
  then have "v AND 0xff = take_bit 8 v" by (simp add: take_bit_eq_mask)
  then show ?thesis by (auto intro!: bit_eqI simp: bit_simps)
qed

lemma write_be_loop:
  assumes "k \<le> n" and "off + n \<le> length p"
  shows "foldl (\<lambda>(p, v) i. (p[off + (n - 1 - i) := ucast (v AND 0xff)], drop_bit 8 v))
            (p, v :: u64) [0..<k] =
         (blit (off + (n - k)) (be_bytes k v) p, drop_bit (8 * k) v)"
  using assms(1)
proof (induction k)
  case 0
  show ?case by (simp add: blit_def be_bytes_def)
next
  case (Suc k)
  have "(blit (off + (n - k)) (be_bytes k v) p)[off + (n - 1 - k) := ucast (drop_bit (8 * k) v)] =
        blit (off + (n - Suc k)) (be_bytes (Suc k) v) p"
  proof (rule nth_equalityI)
    fix i
    assume "i < length ((blit (off + (n - k)) (be_bytes k v) p)
                          [off + (n - 1 - k) := ucast (drop_bit (8 * k) v)])"
    then have "i < length p" using assms(2) Suc.prems by simp
    then show "(blit (off + (n - k)) (be_bytes k v) p)
                 [off + (n - 1 - k) := ucast (drop_bit (8 * k) v)] ! i =
               blit (off + (n - Suc k)) (be_bytes (Suc k) v) p ! i"
      using assms(2) Suc.prems by (auto simp: nth_list_update nth_blit)
  qed (use assms(2) Suc.prems in simp)
  with Suc show ?case by (simp add: drop_bit_drop_bit_8)
qed

lemma write_be_blit [buf_simps]:
  "off + n \<le> length p \<Longrightarrow> write_be p off n v = blit off (be_bytes n v) p"
  using write_be_loop [of n n off p v] by (simp add: write_be_def)

lemma write64be_write_be: "write64be p off v = write_be p off 8 v"
  by (simp add: write64be_def write_be_def)

lemma write32be_blit [buf_simps]:
  assumes "off + 4 \<le> length p"
  shows "write32be p off v = blit off (be_bytes 4 v) p"
proof (rule nth_equalityI)
  fix i assume "i < length (write32be p off v)"
  then have "i < length p" by (simp add: write32be_def)
  moreover have "i - off = 0 \<or> i - off = 1 \<or> i - off = 2 \<or> i - off = 3"
    if "off \<le> i" "i < off + 4" using that by linarith
  ultimately show "write32be p off v ! i = blit off (be_bytes 4 v) p ! i"
    using assms by (auto simp: write32be_def nth_blit nth_list_update)
qed (use assms in \<open>simp add: write32be_def\<close>)

section \<open>The contract of a big-endian field\<close>

text \<open>
  A field of \<open>width\<close> bytes: \<open>put\<close> overwrites exactly the field with the
  big-endian bytes of the value, \<open>get\<close> returns the number the field denotes.
  Round trip and framing follow from the two laws alone.
\<close>

locale be_field =
  fixes width :: nat
    and put :: "bytes \<Rightarrow> nat \<Rightarrow> 'v::len word \<Rightarrow> bytes"
    and get :: "bytes \<Rightarrow> nat \<Rightarrow> 'w::len word"
  assumes put_blit: "off + width \<le> length p \<Longrightarrow> put p off v = blit off (be_bytes width v) p"
    and get_value: "off + width \<le> length p \<Longrightarrow> unat (get p off) = be_nat (bytes_at off width p)"
begin

lemma put_length: "off + width \<le> length p \<Longrightarrow> length (put p off v) = length p"
  by (simp add: put_blit)

lemma get_put: "off + width \<le> length p \<Longrightarrow> unat (get (put p off v) off) = unat v mod 256 ^ width"
  by (simp add: put_blit get_value buf_simps be_simps)

lemma get_put_exact:
  "off + width \<le> length p \<Longrightarrow> unat v < 256 ^ width \<Longrightarrow> unat (get (put p off v) off) = unat v"
  by (simp add: get_put)

lemma get_put_other:
  "off + width \<le> length p \<Longrightarrow> off2 + width \<le> length p \<Longrightarrow>
   off2 + width \<le> off \<or> off + width \<le> off2 \<Longrightarrow> get (put p off v) off2 = get p off2"
  by (rule word_unat_eq_iff [THEN iffD2]) (auto simp: put_blit get_value buf_simps)

lemma put_frame_before: "off + width \<le> length p \<Longrightarrow> take off (put p off v) = take off p"
  by (simp add: put_blit blit_def)

lemma put_frame_after:
  "off + width \<le> length p \<Longrightarrow> drop (off + width) (put p off v) = drop (off + width) p"
  by (simp add: put_blit blit_def)

end

interpretation rpc16: be_field 2 "\<lambda>p off v. write_be p off 2 v" "\<lambda>p off. read_be p off 2"
  by unfold_locales (simp_all add: buf_simps be_simps)

interpretation rpc32: be_field 4 "\<lambda>p off v. write_be p off 4 v" "\<lambda>p off. read_be p off 4"
  by unfold_locales (simp_all add: buf_simps be_simps)

interpretation rpc64: be_field 8 "\<lambda>p off v. write_be p off 8 v" "\<lambda>p off. read_be p off 8"
  by unfold_locales (simp_all add: buf_simps be_simps)

interpretation srv32: be_field 4 write32be read32be
  by unfold_locales (simp_all add: buf_simps be_simps)

interpretation srv64: be_field 8 write64be read64be
  by unfold_locales (simp_all add: buf_simps be_simps read64be_read_be write64be_write_be)

end
