(* ===== verification/Miner_Job.thy ===== *)
theory Miner_Job
  imports Byte_Codec
begin

text \<open>
  The miner side wire constants (\<^verbatim>\<open>includes/stn_miner_protocol.h\<close>), the share
  target arithmetic in its two copies (\<^verbatim>\<open>src/stn_miner_job.c\<close> and
  \<^verbatim>\<open>src/stn_stratum_server.c\<close>) and the JOB frame builder. The lemmas give the
  value of the share target as a number, and the layout of a JOB header.
\<close>

section \<open>Wire constants\<close>

definition STN_MINER_MAGIC :: bytes where
  "STN_MINER_MAGIC = [0x53, 0x54, 0x4e, 0x4d]"

abbreviation (input) "STN_MINER_VERSION \<equiv> (1 :: byte)"
abbreviation (input) "STN_MINER_JOB \<equiv> (1 :: byte)"
abbreviation (input) "STN_MINER_SUBMIT \<equiv> (2 :: byte)"
abbreviation (input) "STN_MINER_RESULT \<equiv> (3 :: byte)"
abbreviation (input) "STN_MINER_HASH_PROGRESS \<equiv> (4 :: byte)"
abbreviation (input) "STN_MINER_ADDRESS \<equiv> (5 :: byte)"

abbreviation (input) "STN_MINER_JOB_HEADER_SIZE \<equiv> (116 :: nat)"
abbreviation (input) "STN_MINER_SUBMIT_SIZE \<equiv> (48 :: nat)"
abbreviation (input) "STN_MINER_RESULT_SIZE \<equiv> (12 :: nat)"
abbreviation (input) "STN_MINER_HASH_PROGRESS_SIZE \<equiv> (56 :: nat)"
abbreviation (input) "STN_MINER_ADDRESS_LENGTH \<equiv> (69 :: nat)"
abbreviation (input) "STN_MINER_ADDRESS_SIZE \<equiv> (70 :: nat)"
abbreviation (input) "STN_MINER_ADDRESS_FRAME_SIZE \<equiv> (77 :: nat)"

abbreviation (input) "STN_MINER_CHAIN_HEADER_SIZE \<equiv> (168 :: nat)"
abbreviation (input) "STN_MINER_CHAIN_TARGET_OFFSET \<equiv> (120 :: nat)"
abbreviation (input) "STN_MINER_CHAIN_NONCE_OFFSET \<equiv> (152 :: nat)"

abbreviation (input) "STN_MINER_JOB_SHARE_TARGET_OFFSET \<equiv> (40 :: nat)"
abbreviation (input) "STN_MINER_JOB_CHAIN_TARGET_OFFSET \<equiv> (72 :: nat)"
abbreviation (input) "STN_MINER_JOB_BLOCK_LENGTH_OFFSET \<equiv> (104 :: nat)"
abbreviation (input) "STN_MINER_JOB_INITIAL_NONCE_OFFSET \<equiv> (108 :: nat)"

abbreviation (input) "STN_MINER_SHARE_FACTOR \<equiv> (10 :: u32)"

abbreviation (input) "STN_MINER_RESULT_ACCEPTED \<equiv> (0 :: u32)"
abbreviation (input) "STN_MINER_RESULT_REJECTED \<equiv> (1 :: u32)"
abbreviation (input) "STN_MINER_RESULT_STALE \<equiv> (2 :: u32)"
abbreviation (input) "STN_MINER_RESULT_PROVIDER \<equiv> (3 :: u32)"
abbreviation (input) "STN_MINER_RESULT_PROTOCOL \<equiv> (4 :: u32)"

lemma length_magic [simp]: "length STN_MINER_MAGIC = 4"
  by (simp add: STN_MINER_MAGIC_def)

section \<open>The share target\<close>

text \<open>
  One step of the multiply loop of \<^verbatim>\<open>stn_miner_job.c\<close>, for \<open>i\<close> from 32 down to 1: byte \<open>i\<close> of the 33
  byte product and the carry.
\<close>

definition scale_step :: "bytes \<Rightarrow> bytes \<times> u32 \<Rightarrow> nat \<Rightarrow> bytes \<times> u32" where
  "scale_step chain = (\<lambda>(scaled, carry) i.
     let v = ucast (chain ! (i - 1)) * STN_MINER_SHARE_FACTOR + carry
     in (scaled[i := ucast (v AND 0xff)], drop_bit 8 v))"

definition scale_chain :: "bytes \<Rightarrow> bytes" where
  "scale_chain chain =
     (case foldl (scale_step chain) (replicate 33 0, 0) (rev [1..<33]) of
        (scaled, carry) \<Rightarrow> scaled[0 := ucast carry])"

text \<open>\<^verbatim>\<open>stn_miner_job.c\<close>: the product capped at \<open>2 ^ 255 - 1\<close>; it never fails.\<close>

definition job_share_target_from_chain :: "bytes \<Rightarrow> bytes" where
  "job_share_target_from_chain chain =
     (let scaled = scale_chain chain
      in if scaled ! 0 \<noteq> 0 \<or> scaled ! 1 \<ge> 0x80 then (replicate 32 0xff)[0 := 0x7f]
         else bytes_at 1 32 scaled)"

text \<open>
  \<^verbatim>\<open>stn_stratum_server.c\<close> has its own copy, with its own loop: \<open>i\<close> runs from 31 down to 0, and the product byte
  is written at \<open>i + 1\<close>. It refuses a target of zero or of 256 bits.
\<close>

definition server_scale_step :: "bytes \<Rightarrow> bytes \<times> u32 \<Rightarrow> nat \<Rightarrow> bytes \<times> u32" where
  "server_scale_step chain = (\<lambda>(scaled, carry) i.
     let v = ucast (chain ! i) * STN_MINER_SHARE_FACTOR + carry
     in (scaled[i + 1 := ucast (v AND 0xff)], drop_bit 8 v))"

definition server_scale :: "bytes \<Rightarrow> bytes" where
  "server_scale chain =
     (case foldl (server_scale_step chain) (replicate 33 0, 0) (rev [0..<32]) of
        (scaled, carry) \<Rightarrow> scaled[0 := ucast carry])"

definition server_share_target_from_chain :: "bytes \<Rightarrow> bytes option" where
  "server_share_target_from_chain chain =
     (if chain ! 0 \<ge> 0x80 then None
      else if foldl (\<lambda>carry i. carry OR ucast (chain ! i)) (0 :: u32) [0..<32] = 0 then None
      else
        (let scaled = server_scale chain
         in if scaled ! 0 \<noteq> 0 \<or> scaled ! 1 \<ge> 0x80 then Some ((replicate 32 0xff)[0 := 0x7f])
            else Some (bytes_at 1 32 scaled)))"

text \<open>The two loops run the same steps, over indices that are shifted by one.\<close>

lemma server_scale_eq: "server_scale chain = scale_chain chain"
proof -
  have "map Suc (rev [0..<32]) = rev (map Suc [0..<32])" by (simp only: rev_map)
  then have "rev [1..<33] = map Suc (rev [0..<32])" by (simp only: map_Suc_upt) simp
  moreover have "scale_step chain st (Suc i) = server_scale_step chain st i" for st i
    by (cases st) (simp add: scale_step_def server_scale_step_def)
  ultimately show ?thesis by (simp add: scale_chain_def server_scale_def foldl_map)
qed

text \<open>The multiplication as a recursion on the bytes: product bytes and carry out.\<close>

fun mul_bytes :: "bytes \<Rightarrow> bytes \<times> u32" where
  "mul_bytes [] = ([], 0)"
| "mul_bytes (b # bs) =
     (let (r, c) = mul_bytes bs; v = ucast b * STN_MINER_SHARE_FACTOR + c
      in (ucast v # r, drop_bit 8 v))"

lemma mul_bytes_length [simp]: "length (fst (mul_bytes bs)) = length bs"
  by (induction bs) (auto simp: Let_def split: prod.splits)

lemma mul_step_value:
  assumes "unat (c :: u32) < 10"
  shows "unat (ucast (b :: byte) * 10 + c) = unat b * 10 + unat c"
    and "unat (drop_bit 8 (ucast (b :: byte) * 10 + c)) < 10"
proof -
  show v: "unat (ucast b * 10 + c) = unat b * 10 + unat c"
    using assms unat_byte_less [of b]
    by (simp add: unat_word_ariths unsigned_ucast_eq take_bit_nat_eq_self del: unat_byte_less)
  show "unat (drop_bit 8 (ucast b * 10 + c)) < 10"
    using assms unat_byte_less [of b]
    by (simp add: unat_drop_bit_8 v del: unat_byte_less)
qed

lemma mul_bytes_value:
  "be_nat (fst (mul_bytes bs)) + unat (snd (mul_bytes bs)) * 256 ^ length bs = 10 * be_nat bs \<and>
   unat (snd (mul_bytes bs)) < 10"
proof (induction bs)
  case (Cons b bs)
  obtain r c where rc: "mul_bytes bs = (r, c)" by fastforce
  then have len: "length r = length bs" using mul_bytes_length [of bs] by simp
  from Cons rc have IH: "be_nat r + unat c * 256 ^ length bs = 10 * be_nat bs" and c: "unat c < 10"
    by simp_all
  let ?v = "ucast b * 10 + c :: u32"
  have v: "unat ?v = unat b * 10 + unat c" and d: "unat (drop_bit 8 ?v) < 10"
    using mul_step_value [OF c] by blast+
  have parts: "unat (ucast ?v :: byte) + 256 * unat (drop_bit 8 ?v) = unat ?v"
    by (simp add: unat_ucast_byte unat_drop_bit_8)
  have "unat (ucast ?v :: byte) * 256 ^ length bs + be_nat r +
        unat (drop_bit 8 ?v) * (256 * 256 ^ length bs) =
        (unat (ucast ?v :: byte) + 256 * unat (drop_bit 8 ?v)) * 256 ^ length bs + be_nat r"
    by (simp add: algebra_simps)
  also have "\<dots> = 10 * (unat b * 256 ^ length bs + be_nat bs)"
    unfolding parts v using IH by (simp add: algebra_simps)
  finally show ?case using d by (simp add: rc len Let_def)
qed simp

lemma scale_loop:
  assumes len: "length chain = 32" and "j \<le> 32"
  shows "foldl (scale_step chain) (replicate 33 0, 0) (rev [33 - j..<33]) =
         (replicate (33 - j) 0 @ fst (mul_bytes (drop (32 - j) chain)),
          snd (mul_bytes (drop (32 - j) chain)))"
  using assms(2)
proof (induction j)
  case 0
  show ?case using len by simp
next
  case (Suc j)
  let ?run = "\<lambda>k. foldl (scale_step chain) (replicate 33 0, 0) (rev [33 - k..<33])"
  have "[33 - Suc j..<33] = (32 - j) # [33 - j..<33]"
    using Suc.prems by (simp add: upt_conv_Cons flip: Suc_diff_le)
  then have step: "?run (Suc j) = scale_step chain (?run j) (32 - j)"
    by simp
  have dr: "drop (32 - Suc j) chain = chain ! (31 - j) # drop (32 - j) chain"
    using Suc.prems len Cons_nth_drop_Suc [of "31 - j" chain] by (simp flip: Suc_diff_le)
  have rep: "replicate (33 - j) (0 :: byte) = replicate (32 - j) 0 @ [0]"
    using Suc.prems by (simp add: replicate_append_same Suc_diff_le flip: replicate_Suc)
  have IH: "?run j = (replicate (33 - j) 0 @ fst (mul_bytes (drop (32 - j) chain)),
      snd (mul_bytes (drop (32 - j) chain)))"
    using Suc by simp
  show ?case
    unfolding step IH dr rep
    by (simp add: scale_step_def Let_def list_update_append split: prod.splits)
qed

lemma scale_chain_eq:
  assumes "length chain = 32"
  shows "scale_chain chain = ucast (snd (mul_bytes chain)) # fst (mul_bytes chain)"
  using scale_loop [OF assms, of 32] by (simp add: scale_chain_def)

lemma scale_chain_value:
  assumes "length chain = 32"
  shows "be_nat (scale_chain chain) = 10 * be_nat chain" and "length (scale_chain chain) = 33"
proof -
  have "unat (ucast (snd (mul_bytes chain)) :: byte) = unat (snd (mul_bytes chain))"
    using mul_bytes_value [of chain] by (simp add: unsigned_ucast_eq take_bit_nat_eq_self)
  then show "be_nat (scale_chain chain) = 10 * be_nat chain"
    using mul_bytes_value [of chain] assms by (simp add: scale_chain_eq)
  show "length (scale_chain chain) = 33"
    using assms by (simp add: scale_chain_eq)
qed

text \<open>The cap: bit 255 of the product, or a carry beyond it, is seen in its first two bytes.\<close>

lemma be_nat_cap:
  assumes "length s = 33"
  shows "(s ! 0 \<noteq> 0 \<or> s ! 1 \<ge> 0x80) \<longleftrightarrow> 2 ^ 255 \<le> be_nat s"
    and "\<not> (s ! 0 \<noteq> 0 \<or> s ! 1 \<ge> 0x80) \<Longrightarrow> be_nat (bytes_at 1 32 s) = be_nat s"
proof -
  obtain a b r where s: "s = a # b # r" and r: "length r = 31"
    using assms by (auto simp: length_Suc_conv numeral_eq_Suc)
  have lt: "be_nat r < 256 ^ 31" using be_nat_bound [of r] r by simp
  have one: "a \<noteq> 0 \<Longrightarrow> 1 \<le> unat a" by (simp add: unat_gt_0 Suc_le_eq)
  show "(s ! 0 \<noteq> 0 \<or> s ! 1 \<ge> 0x80) \<longleftrightarrow> 2 ^ 255 \<le> be_nat s"
  proof (cases "a = 0")
    case True
    then show ?thesis
      using lt r by (auto simp: s word_le_nat_alt)
  next
    case False
    have "(256 :: nat) ^ 32 \<le> unat a * 256 ^ 32" using one [OF False] by simp
    then show ?thesis using False r by (simp add: s)
  qed
  show "\<not> (s ! 0 \<noteq> 0 \<or> s ! 1 \<ge> 0x80) \<Longrightarrow> be_nat (bytes_at 1 32 s) = be_nat s"
    using r by (simp add: s bytes_at_def)
qed

definition max_target :: bytes where
  "max_target = (replicate 32 0xff)[0 := 0x7f]"

lemma max_target_cons: "max_target = 0x7f # replicate 31 0xff"
  by (simp add: max_target_def numeral_eq_Suc)

lemma max_target_value: "be_nat max_target = 2 ^ 255 - 1"
  and length_max_target [simp]: "length max_target = 32"
  by (simp_all add: max_target_cons be_nat_replicate_ff)

lemma job_share_target_aux:
  assumes "length chain = 32"
  shows "be_nat (job_share_target_from_chain chain) = min (2 ^ 255 - 1) (10 * be_nat chain) \<and>
         length (job_share_target_from_chain chain) = 32"
proof -
  note v = scale_chain_value [OF assms] and cap = be_nat_cap [OF scale_chain_value(2) [OF assms]]
  show ?thesis
    using v cap max_target_value
    by (auto simp: job_share_target_from_chain_def Let_def min_def simp flip: max_target_def)
qed

text \<open>
  The share target of a JOB is ten times the chain target,
  capped at \<open>2 ^ 255 - 1\<close>, as a 32 byte big-endian number, for every chain target.
\<close>

theorem job_share_target_value:
  assumes "length chain = 32"
  shows "be_nat (job_share_target_from_chain chain) = min (2 ^ 255 - 1) (10 * be_nat chain) \<and>
         length (job_share_target_from_chain chain) = 32"
  by (rule job_share_target_aux [OF assms])

theorem job_share_target_value_witness:
  "be_nat (job_share_target_from_chain (replicate 31 0 @ [7])) = 70"
proof -
  have "length (replicate 31 0 @ [7] :: bytes) = 32" by simp
  from job_share_target_value [OF this] show ?thesis by (simp add: be_simps)
qed

lemma or_loop_zero:
  "foldl (\<lambda>carry i. carry OR ucast (chain ! i)) (a :: u32) [0..<n] = 0 \<longleftrightarrow>
   a = 0 \<and> (\<forall>i < n. (chain ! i :: byte) = 0)"
proof (induction n)
  case (Suc n)
  have "(ucast b :: u32) = 0 \<longleftrightarrow> b = 0" for b :: byte
  proof -
    have "unat (ucast b :: u32) = unat b" by simp
    then show ?thesis using unat_eq_zero [of "ucast b :: u32"] unat_eq_zero [of b] by argo
  qed
  note byte = this
  have "((x :: u32) OR y = 0) = (x = 0 \<and> y = 0)" for x y
    by (auto simp: bit_eq_iff bit_simps)
  with Suc show ?case by (simp add: byte less_Suc_eq) blast
qed simp

lemma server_share_target_equiv_aux:
  assumes "length chain = 32"
  shows "server_share_target_from_chain chain =
    (if 0 < be_nat chain \<and> be_nat chain < 2 ^ 255 then Some (job_share_target_from_chain chain)
     else None)"
proof -
  obtain a r where c: "chain = a # r" and r: "length r = 31"
    using assms by (auto simp: length_Suc_conv numeral_eq_Suc)
  have "be_nat r < 256 ^ 31" using be_nat_bound [of r] r by simp
  then have top: "chain ! 0 \<ge> 0x80 \<longleftrightarrow> 2 ^ 255 \<le> be_nat chain"
    using r by (auto simp: c word_le_nat_alt)
  have zero: "foldl (\<lambda>carry i. carry OR ucast (chain ! i)) (0 :: u32) [0..<32] = 0 \<longleftrightarrow> be_nat chain = 0"
    using assms by (auto simp: or_loop_zero be_nat_eq_0 all_set_conv_all_nth)
  show ?thesis
    unfolding server_share_target_from_chain_def top zero
    by (auto simp: job_share_target_from_chain_def server_scale_eq Let_def)
qed

text \<open>
  C38. The server judges a submission against exactly the share
  target its JOB announced: its own copy of the computation agrees with the one of the JOB
  builder on every chain target in \<open>1 .. 2 ^ 255 - 1\<close> and refuses every other.
\<close>

theorem server_share_target_equiv:
  assumes "length chain = 32"
  shows "server_share_target_from_chain chain =
    (if 0 < be_nat chain \<and> be_nat chain < 2 ^ 255 then Some (job_share_target_from_chain chain)
     else None)"
  by (rule server_share_target_equiv_aux [OF assms])

theorem server_share_target_equiv_witness:
  "server_share_target_from_chain (replicate 31 0 @ [3]) =
     Some (job_share_target_from_chain (replicate 31 0 @ [3]))"
proof -
  have "length (replicate 31 0 @ [3] :: bytes) = 32" by simp
  from server_share_target_equiv [OF this] show ?thesis by (simp add: be_simps)
qed

section \<open>The JOB header\<close>

definition stn_miner_job_build :: "bytes option \<Rightarrow> nat \<Rightarrow> (bytes \<times> u32) option" where
  "stn_miner_job_build t n =
     (case t of None \<Rightarrow> None
      | Some t \<Rightarrow>
        if n < 68 then None
        else
          (let block = n - 68
           in if block < STN_MINER_CHAIN_HEADER_SIZE \<or> block > 0xffffffff then None
              else
                (let h = replicate STN_MINER_JOB_HEADER_SIZE 0;
                     h = blit 0 STN_MINER_MAGIC h;
                     h = h[4 := STN_MINER_VERSION, 5 := STN_MINER_JOB];
                     h = blit 8 (bytes_at 32 32 t) h;
                     h = blit STN_MINER_JOB_SHARE_TARGET_OFFSET
                           (job_share_target_from_chain
                              (bytes_at (68 + STN_MINER_CHAIN_TARGET_OFFSET) 32 t)) h;
                     h = blit STN_MINER_JOB_CHAIN_TARGET_OFFSET
                           (bytes_at (68 + STN_MINER_CHAIN_TARGET_OFFSET) 32 t) h;
                     h = write32be h STN_MINER_JOB_BLOCK_LENGTH_OFFSET (of_nat block);
                     h = blit STN_MINER_JOB_INITIAL_NONCE_OFFSET
                           (bytes_at (68 + STN_MINER_CHAIN_NONCE_OFFSET) 8 t) h
                 in Some (h, of_nat block))))"

text \<open>The header is the concatenation of its fields.\<close>

definition job_header_spec :: "bytes \<Rightarrow> nat \<Rightarrow> bytes" where
  "job_header_spec t n =
     STN_MINER_MAGIC @ [STN_MINER_VERSION, STN_MINER_JOB, 0, 0] @ bytes_at 32 32 t @
     job_share_target_from_chain (bytes_at 188 32 t) @ bytes_at 188 32 t @
     be_bytes 4 (of_nat (n - 68) :: u32) @ bytes_at 220 8 t"

lemma job_share_target_length:
  "length chain = 32 \<Longrightarrow> length (job_share_target_from_chain chain) = 32"
  using scale_chain_value(2) [of chain]
  by (auto simp: job_share_target_from_chain_def Let_def)

lemma job_build_aux:
  assumes "n \<le> length t"
  shows "stn_miner_job_build (Some t) n =
    (if 236 \<le> n \<and> n \<le> 4294967363 then Some (job_header_spec t n, of_nat (n - 68)) else None)"
proof (cases "236 \<le> n \<and> n \<le> 4294967363")
  case True
  let ?st = "job_share_target_from_chain (bytes_at 188 32 t)"
  have st: "length ?st = 32"
  proof (rule job_share_target_length)
    from True assms have "220 \<le> length t" by linarith
    then show "length (bytes_at 188 32 t) = 32" by simp
  qed
  define wid where "wid = bytes_at 32 32 t"
  define ct where "ct = bytes_at 188 32 t"
  define nonce where "nonce = bytes_at 220 8 t"
  define hd where "hd = STN_MINER_MAGIC @ [STN_MINER_VERSION, STN_MINER_JOB, 0, 0]"
  define bl where "bl = be_bytes 4 (of_nat (n - 68) :: u32)"
  from True assms have "228 \<le> length t" by linarith
  then have len: "length wid = 32" "length ct = 32" "length nonce = 8" "length hd = 8"
      "length (job_share_target_from_chain ct) = 32" "length bl = 4"
    using st by (simp_all add: wid_def ct_def nonce_def hd_def bl_def)
  have "replicate 116 (0 :: byte) = [0, 0, 0, 0, 0, 0, 0, 0] @ replicate 108 0"
    by (simp add: numeral_eq_Suc)
  then have start: "(blit 0 STN_MINER_MAGIC (replicate 116 0))[4 := STN_MINER_VERSION, 5 := STN_MINER_JOB] =
      hd @ replicate 108 0"
    by (simp add: blit_def STN_MINER_MAGIC_def hd_def)
  have guard: "\<not> n < 68" "\<not> (n - 68 < 168 \<or> n - 68 > 0xffffffff)"
    using True by linarith+
  have offs: "68 + STN_MINER_CHAIN_TARGET_OFFSET = 188" "68 + STN_MINER_CHAIN_NONCE_OFFSET = 220"
    by simp_all
  show ?thesis
    unfolding stn_miner_job_build_def Let_def job_header_spec_def option.case start offs
      wid_def [symmetric] ct_def [symmetric] nonce_def [symmetric] bl_def [symmetric]
    using guard True len
    by (simp add: blit_fill write32be_blit flip: bl_def del: append_assoc not_less of_nat_diff)
      (simp add: hd_def)
next
  case False
  then show ?thesis by (auto simp: stn_miner_job_build_def Let_def)
qed

text \<open>
  A JOB header is built exactly for the templates whose block has at
  least 168 bytes (and fits 32 bits); it is then, byte for byte, the magic, version and type,
  the Chain work id, the share target, the full Chain target, the block length and the
  initial nonce of the template.
\<close>

theorem job_build_layout:
  assumes "n \<le> length t"
  shows "stn_miner_job_build (Some t) n =
    (if 236 \<le> n \<and> n \<le> 4294967363 then Some (job_header_spec t n, of_nat (n - 68)) else None)"
  by (rule job_build_aux [OF assms])

theorem job_build_layout_witness:
  "stn_miner_job_build (Some example_template) 236 = Some (job_header_spec example_template 236, 168)"
  using job_build_layout [of 236 example_template] by simp

end
