(* ===== verification/Share_Verify.thy ===== *)
theory Share_Verify
  imports Byte_Codec
begin

text \<open>
  \<^verbatim>\<open>src/stn_share_verify.c\<close>: the streaming SHA-256 of the server, the comparison
  of a digest with a target, and the classification of a submitted nonce. The
  streaming functions are proved equal to a one-shot reference (pad the message,
  cut it into blocks, fold the compression function over them), and the
  classification to a comparison of numbers.
\<close>

section \<open>Compression\<close>

definition rr :: "u32 \<Rightarrow> nat \<Rightarrow> u32" where
  "rr v n = drop_bit n v OR push_bit (32 - n) v"

definition r32 :: "bytes \<Rightarrow> nat \<Rightarrow> u32" where
  "r32 p off =
     push_bit 24 (ucast (p ! off)) OR push_bit 16 (ucast (p ! (off + 1))) OR
     push_bit 8 (ucast (p ! (off + 2))) OR ucast (p ! (off + 3))"

definition w32 :: "bytes \<Rightarrow> nat \<Rightarrow> u32 \<Rightarrow> bytes" where
  "w32 p off v =
     p[off := ucast (drop_bit 24 v), off + 1 := ucast (drop_bit 16 v),
       off + 2 := ucast (drop_bit 8 v), off + 3 := ucast v]"

text \<open>The round constants, eight to a row.\<close>

definition sha_k_rows :: "u32 list list" where
  "sha_k_rows =
    [[0x428a2f98, 0x71374491, 0xb5c0fbcf, 0xe9b5dba5, 0x3956c25b, 0x59f111f1, 0x923f82a4, 0xab1c5ed5],
     [0xd807aa98, 0x12835b01, 0x243185be, 0x550c7dc3, 0x72be5d74, 0x80deb1fe, 0x9bdc06a7, 0xc19bf174],
     [0xe49b69c1, 0xefbe4786, 0x0fc19dc6, 0x240ca1cc, 0x2de92c6f, 0x4a7484aa, 0x5cb0a9dc, 0x76f988da],
     [0x983e5152, 0xa831c66d, 0xb00327c8, 0xbf597fc7, 0xc6e00bf3, 0xd5a79147, 0x06ca6351, 0x14292967],
     [0x27b70a85, 0x2e1b2138, 0x4d2c6dfc, 0x53380d13, 0x650a7354, 0x766a0abb, 0x81c2c92e, 0x92722c85],
     [0xa2bfe8a1, 0xa81a664b, 0xc24b8b70, 0xc76c51a3, 0xd192e819, 0xd6990624, 0xf40e3585, 0x106aa070],
     [0x19a4c116, 0x1e376c08, 0x2748774c, 0x34b0bcb5, 0x391c0cb3, 0x4ed8aa4a, 0x5b9cca4f, 0x682e6ff3],
     [0x748f82ee, 0x78a5636f, 0x84c87814, 0x8cc70208, 0x90befffa, 0xa4506ceb, 0xbef9a3f7, 0xc67178f2]]"

definition sha_k :: "u32 list" where
  "sha_k = concat sha_k_rows"

text \<open>The message schedule: sixteen words of the block, then word \<open>i\<close> from four earlier ones.\<close>

definition sha_extend :: "u32 list \<Rightarrow> nat \<Rightarrow> u32 list" where
  "sha_extend w i =
     (let x = rr (w ! (i - 15)) 7 XOR rr (w ! (i - 15)) 18 XOR drop_bit 3 (w ! (i - 15));
          y = rr (w ! (i - 2)) 17 XOR rr (w ! (i - 2)) 19 XOR drop_bit 10 (w ! (i - 2))
      in w @ [w ! (i - 16) + x + w ! (i - 7) + y])"

definition sha_sched :: "bytes \<Rightarrow> u32 list" where
  "sha_sched b = foldl sha_extend (map (\<lambda>i. r32 b (i * 4)) [0..<16]) [16..<64]"

type_synonym sha_vars = "u32 \<times> u32 \<times> u32 \<times> u32 \<times> u32 \<times> u32 \<times> u32 \<times> u32"

fun sha_round :: "sha_vars \<Rightarrow> u32 \<times> u32 \<Rightarrow> sha_vars" where
  "sha_round (a, bv, cv, d, e, f, g, h) (ki, wi) =
     (let s1 = rr e 6 XOR rr e 11 XOR rr e 25;
          ch = (e AND f) XOR (NOT e AND g);
          t1 = h + s1 + ch + ki + wi;
          s0 = rr a 2 XOR rr a 13 XOR rr a 22;
          maj = (a AND bv) XOR (a AND cv) XOR (bv AND cv);
          t2 = s0 + maj
      in (t1 + t2, a, bv, cv, d + t1, e, f, g))"

definition sha_compress :: "u32 list \<Rightarrow> bytes \<Rightarrow> u32 list" where
  "sha_compress s b =
     (case foldl sha_round (s ! 0, s ! 1, s ! 2, s ! 3, s ! 4, s ! 5, s ! 6, s ! 7)
             (zip sha_k (sha_sched b)) of
        (a, bv, cv, d, e, f, g, h) \<Rightarrow>
          [s ! 0 + a, s ! 1 + bv, s ! 2 + cv, s ! 3 + d, s ! 4 + e, s ! 5 + f, s ! 6 + g, s ! 7 + h])"

section \<open>The streaming context\<close>

record sha_ctx =
  sha_s :: "u32 list"
  sha_bits :: u64
  sha_b :: bytes
  sha_n :: nat

definition sha_tr :: "sha_ctx \<Rightarrow> sha_ctx" where
  "sha_tr c = c\<lparr>sha_s := sha_compress (sha_s c) (sha_b c)\<rparr>"

definition sha_h0 :: "u32 list" where
  "sha_h0 = [0x6a09e667, 0xbb67ae85, 0x3c6ef372, 0xa54ff53a,
             0x510e527f, 0x9b05688c] @ [0x1f83d9ab, 0x5be0cd19]"

text \<open>\<open>init\<close> leaves the block buffer as it found it.\<close>

definition sha_init :: "sha_ctx \<Rightarrow> sha_ctx" where
  "sha_init c = c\<lparr>sha_s := sha_h0, sha_bits := 0, sha_n := 0\<rparr>"

text \<open>One pass of the loop of \<open>up\<close>: copy \<open>q\<close> bytes, and compress when the block is full.\<close>

definition sha_up_step :: "sha_ctx \<Rightarrow> bytes \<Rightarrow> nat \<Rightarrow> sha_ctx" where
  "sha_up_step c p q =
     (let c = c\<lparr>sha_b := blit (sha_n c) (take q p) (sha_b c),
                sha_n := sha_n c + q,
                sha_bits := sha_bits c + of_nat q * 8\<rparr>
      in if sha_n c = 64 then (sha_tr c)\<lparr>sha_n := 0\<rparr> else c)"

text \<open>
  \<open>up\<close>: a context holds fewer than 64 pending bytes (\<open>sha_up_pending\<close> below), so every
  pass consumes at least one byte. A full context would make no progress; the
  function stops there.
\<close>

function sha_up :: "sha_ctx \<Rightarrow> bytes \<Rightarrow> sha_ctx" where
  "sha_up c p =
     (if p = [] then c
      else
        (let q = min (64 - sha_n c) (length p)
         in if q = 0 then c else sha_up (sha_up_step c p q) (drop q p)))"
  by pat_completeness auto
termination
  by (relation "measure (\<lambda>(c, p). length p)") auto

declare sha_up.simps [simp del]

text \<open>\<open>while (c->n < m) c->b[c->n++] = 0\<close>\<close>

definition sha_zero_upto :: "sha_ctx \<Rightarrow> nat \<Rightarrow> sha_ctx" where
  "sha_zero_upto c m =
     c\<lparr>sha_b := foldl (\<lambda>b i. b[i := 0]) (sha_b c) [sha_n c..<m], sha_n := max (sha_n c) m\<rparr>"

definition sha_fin :: "sha_ctx \<Rightarrow> bytes \<Rightarrow> bytes" where
  "sha_fin c d =
     (let bits = sha_bits c;
          c = c\<lparr>sha_b := (sha_b c)[sha_n c := 0x80], sha_n := sha_n c + 1\<rparr>;
          c = (if sha_n c > 56 then (sha_tr (sha_zero_upto c 64))\<lparr>sha_n := 0\<rparr> else c);
          c = sha_zero_upto c 56;
          c = c\<lparr>sha_b := foldl (\<lambda>b i. b[63 - i := ucast (drop_bit (i * 8) bits)]) (sha_b c) [0..<8]\<rparr>;
          c = sha_tr c
      in foldl (\<lambda>d i. w32 d (i * 4) (sha_s c ! i)) d [0..<8])"

section \<open>The one-shot reference\<close>

fun blocks64 :: "bytes \<Rightarrow> bytes list" where
  "blocks64 m = (if length m < 64 then [] else take 64 m # blocks64 (drop 64 m))"

declare blocks64.simps [simp del]

definition sha_pad :: "bytes \<Rightarrow> bytes" where
  "sha_pad m = 0x80 # replicate ((119 - length m mod 64) mod 64) 0 @ be_bytes 8 (of_nat (8 * length m) :: u64)"

definition sha256 :: "bytes \<Rightarrow> bytes" where
  "sha256 m = concat (map (be_bytes 4) (foldl sha_compress sha_h0 (blocks64 (m @ sha_pad m))))"

lemma blocks64_concat:
  "\<forall>b \<in> set bs. length b = 64 \<Longrightarrow> length t < 64 \<Longrightarrow> blocks64 (concat bs @ t) = bs"
  by (induction bs) (simp_all add: blocks64.simps)

lemma sha_compress_length [simp]: "length (sha_compress s b) = 8"
  by (simp add: sha_compress_def split: prod.splits)

lemma foldl_compress_length: "length s = 8 \<Longrightarrow> length (foldl sha_compress s bs) = 8"
  by (induction bs rule: rev_induct) simp_all

text \<open>A context represents the bytes \<open>m\<close> fed to it so far.\<close>

definition sha_rep :: "sha_ctx \<Rightarrow> bytes \<Rightarrow> bool" where
  "sha_rep c m \<longleftrightarrow>
     sha_n c < 64 \<and> length (sha_b c) = 64 \<and> sha_bits c = of_nat (8 * length m) \<and>
     (\<exists>bs. m = concat bs @ take (sha_n c) (sha_b c) \<and> (\<forall>b \<in> set bs. length b = 64) \<and>
           sha_s c = foldl sha_compress sha_h0 bs)"

lemma sha_rep_init: "length (sha_b c) = 64 \<Longrightarrow> sha_rep (sha_init c) []"
  by (auto simp: sha_rep_def sha_init_def intro: exI [of _ "[]"])

lemma sha_rep_step:
  assumes rep: "sha_rep c m" and q: "q = min (64 - sha_n c) (length p)"
  shows "sha_rep (sha_up_step c p q) (m @ take q p)"
proof -
  from rep obtain bs where n: "sha_n c < 64" and b: "length (sha_b c) = 64"
    and bits: "sha_bits c = of_nat (8 * length m)"
    and m: "m = concat bs @ take (sha_n c) (sha_b c)"
    and bs: "\<forall>b \<in> set bs. length b = 64" and s: "sha_s c = foldl sha_compress sha_h0 bs"
    by (auto simp: sha_rep_def)
  have lq: "length (take q p) = q" "sha_n c + q \<le> 64" using q n by auto
  let ?b = "blit (sha_n c) (take q p) (sha_b c)"
  have pre: "take (sha_n c + q) ?b = take (sha_n c) (sha_b c) @ take q p"
    using lq n b by (simp add: blit_def)
  have bits': "sha_bits c + of_nat q * 8 = of_nat (8 * length (m @ take q p))"
    using lq by (simp add: bits algebra_simps)
  show ?thesis
  proof (cases "sha_n c + q = 64")
    case True
    have "length ?b = 64" using lq b by simp
    then have "?b = take (sha_n c) (sha_b c) @ take q p" using pre True by simp
    then have "m @ take q p = concat (bs @ [?b])" by (simp add: m)
    then show ?thesis
      using True bs s lq b bits' \<open>length ?b = 64\<close>
      by (auto simp: sha_rep_def sha_up_step_def sha_tr_def Let_def intro!: exI [of _ "bs @ [?b]"])
  next
    case False
    then have "sha_n c + q < 64" using lq by simp
    then show ?thesis
      using False bs s lq b bits' pre m
      by (auto simp: sha_rep_def sha_up_step_def Let_def intro!: exI [of _ bs])
  qed
qed

lemma sha_rep_up: "sha_rep c m \<Longrightarrow> sha_rep (sha_up c p) (m @ p)"
proof (induction c p arbitrary: m rule: sha_up.induct)
  case (1 c p)
  show ?case
  proof (cases "p = []")
    case True
    then show ?thesis using "1.prems" by (simp add: sha_up.simps)
  next
    case False
    define q where "q = min (64 - sha_n c) (length p)"
    have "q \<noteq> 0" using False "1.prems" by (auto simp: q_def sha_rep_def)
    then have "sha_rep (sha_up (sha_up_step c p q) (drop q p)) ((m @ take q p) @ drop q p)"
      using "1.IH" [OF False q_def] sha_rep_step [OF "1.prems" q_def] by blast
    then show ?thesis
      using False \<open>q \<noteq> 0\<close> by (simp add: sha_up.simps [of c p] q_def [symmetric] Let_def)
  qed
qed

lemma sha_up_pending: "sha_rep c m \<Longrightarrow> sha_n (sha_up c p) < 64"
  using sha_rep_up [of c m p] by (simp add: sha_rep_def)

section \<open>The loops of \<open>fin\<close>\<close>

lemma zero_loop:
  "n \<le> m \<Longrightarrow> m \<le> length b \<Longrightarrow>
   foldl (\<lambda>b i. b[i := 0]) b [n..<m] = take n b @ replicate (m - n) 0 @ drop m b"
proof (induction m)
  case (Suc m)
  show ?case
  proof (cases "n = Suc m")
    case False
    with Suc.prems have nm: "n \<le> m" by simp
    have "drop m b = b ! m # drop (Suc m) b"
      using Suc.prems by (simp add: Cons_nth_drop_Suc)
    then have "(take n b @ replicate (m - n) 0 @ drop m b)[m := 0] =
        take n b @ (replicate (m - n) 0 @ [0]) @ drop (Suc m) b"
      using nm Suc.prems by (simp add: list_update_append min_def)
    moreover have "replicate (m - n) 0 @ [0] = replicate (Suc m - n) 0"
      using nm by (simp add: Suc_diff_le replicate_append_same)
    ultimately show ?thesis using Suc nm by simp
  qed simp
qed simp

lemma length_loop:
  "length b = 64 \<Longrightarrow> k \<le> 8 \<Longrightarrow>
   foldl (\<lambda>b i. b[63 - i := ucast (drop_bit (i * 8) (bits :: u64))]) b [0..<k] =
   blit (64 - k) (be_bytes k bits) b"
proof (induction k)
  case 0
  show ?case by (simp add: blit_def be_bytes_def)
next
  case (Suc k)
  have "(blit (64 - k) (be_bytes k bits) b)[63 - k := ucast (drop_bit (k * 8) bits)] =
        blit (64 - Suc k) (be_bytes (Suc k) bits) b"
    using Suc.prems
    by (intro nth_equalityI) (auto simp: nth_list_update nth_blit mult.commute)
  with Suc show ?case by simp
qed

lemma w32_write32be: "w32 = write32be"
  by (intro ext) (simp add: w32_def write32be_def)

lemma digest_loop:
  assumes "length d = 4 * length s" and "k \<le> length s"
  shows "foldl (\<lambda>d i. w32 d (i * 4) (s ! i)) d [0..<k] =
         concat (map (be_bytes 4) (take k s)) @ drop (4 * k) d"
  using assms(2)
proof (induction k)
  case (Suc k)
  let ?pre = "concat (map (be_bytes 4) (take k s))"
  have pre: "length ?pre = 4 * k"
    using Suc.prems by (simp add: length_concat sum_list_triv comp_def)
  have "w32 (?pre @ drop (4 * k) d) (k * 4) (s ! k) =
        ?pre @ be_bytes 4 (s ! k) @ drop (4 * Suc k) d"
    using Suc.prems assms(1) pre
    by (simp add: w32_write32be write32be_blit blit_def mult.commute add.commute)
  then show ?case
    using Suc by (simp add: take_Suc_conv_app_nth)
qed simp

lemma digest_loop_all:
  "length d = 32 \<Longrightarrow> length s = 8 \<Longrightarrow>
   foldl (\<lambda>d i. w32 d (i * 4) (s ! i)) d [0..<8] = concat (map (be_bytes 4) s)"
  using digest_loop [of d s 8] by simp

lemma pad_zeros:
  assumes bs: "\<forall>b \<in> set bs. length b = 64" and t: "length t < 64"
  shows "(119 - length (concat bs @ t) mod 64) mod 64 =
         (if length t < 56 then 55 - length t else (63 - length t) + 56)"
proof -
  have "length (concat bs) = 64 * length bs"
    using bs by (induction bs) auto
  then have m: "length (concat bs @ t) mod 64 = length t" using t by simp
  show ?thesis
  proof (cases "length t < 56")
    case True
    then have "119 - length t = (55 - length t) + 64" by simp
    then have "(119 - length t) mod 64 = (55 - length t) mod 64" by (simp only: mod_add_self2)
    then show ?thesis using True by (simp only: m) simp
  next
    case False
    then have "119 - length t < 64" "119 - length t = (63 - length t) + 56" using t by simp_all
    then show ?thesis using False by (simp only: m mod_less if_False)
  qed
qed

lemma pad_blocks:
  assumes bs: "\<forall>b \<in> set bs. length b = 64" and t: "length t < 64"
    and l: "l = be_bytes 8 (of_nat (8 * length (concat bs @ t)) :: u64)"
  shows "blocks64 ((concat bs @ t) @ sha_pad (concat bs @ t)) =
    (if length t < 56 then bs @ [t @ 0x80 # replicate (55 - length t) 0 @ l]
     else bs @ [t @ 0x80 # replicate (63 - length t) 0, replicate 56 0 @ l])"
proof -
  have len: "length l = 8" by (simp add: l)
  have cut: "blocks64 (concat (bs @ cs)) = bs @ cs" if "\<forall>b \<in> set cs. length b = 64" for cs
    using blocks64_concat [of "bs @ cs" "[]"] bs that by auto
  show ?thesis
  proof (cases "length t < 56")
    case True
    have "(concat bs @ t) @ sha_pad (concat bs @ t) =
        concat (bs @ [t @ 0x80 # replicate (55 - length t) 0 @ l])"
      unfolding sha_pad_def pad_zeros [OF bs t] l using True by simp
    then show ?thesis using True len cut [of "[t @ 0x80 # replicate (55 - length t) 0 @ l]"] by simp
  next
    case False
    have "(concat bs @ t) @ sha_pad (concat bs @ t) =
        concat (bs @ [t @ 0x80 # replicate (63 - length t) 0, replicate 56 0 @ l])"
      unfolding sha_pad_def pad_zeros [OF bs t] l using False by (simp add: replicate_add)
    then show ?thesis
      using False len t cut [of "[t @ 0x80 # replicate (63 - length t) 0, replicate 56 0 @ l]"] by simp
  qed
qed

text \<open>\<open>fin\<close> on a context that represents \<open>m\<close>.\<close>

lemma sha_fin_rep:
  assumes rep: "sha_rep k m" and d: "length d = 32"
  shows "sha_fin k d = sha256 m"
proof -
  from rep obtain bs where n: "sha_n k < 64" and b: "length (sha_b k) = 64"
    and bits: "sha_bits k = of_nat (8 * length m)" and m: "m = concat bs @ take (sha_n k) (sha_b k)"
    and bs: "\<forall>b \<in> set bs. length b = 64" and s: "sha_s k = foldl sha_compress sha_h0 bs"
    by (auto simp: sha_rep_def)
  let ?t = "take (sha_n k) (sha_b k)"
  let ?l = "be_bytes 8 (of_nat (8 * length (concat bs @ ?t)) :: u64)"
  have t: "length ?t = sha_n k" using n b by simp
  have mark: "take (Suc (sha_n k)) ((sha_b k)[sha_n k := 0x80]) = ?t @ [0x80]"
    using n b by (simp add: take_Suc_conv_app_nth)
  show ?thesis
  proof (cases "sha_n k < 56")
    case True
    have blk: "foldl (\<lambda>b i. b[63 - i := ucast (drop_bit (i * 8) (sha_bits k))])
        (foldl (\<lambda>b i. b[i := 0]) ((sha_b k)[sha_n k := 0x80]) [Suc (sha_n k)..<56]) [0..<8] =
      ?t @ 0x80 # replicate (55 - sha_n k) 0 @ ?l"
      using True b mark
      by (simp add: zero_loop length_loop blit_def bits m min_def take_Cons')
    show ?thesis
      using True d pad_blocks [OF bs _ refl, of ?t] t
      by (simp add: sha_fin_def Let_def sha_zero_upto_def sha_tr_def blk sha256_def m s max_def
          digest_loop_all del: of_nat_mult)
  next
    case False
    have blk1: "foldl (\<lambda>b i. b[i := 0]) ((sha_b k)[sha_n k := 0x80]) [Suc (sha_n k)..<64] =
      ?t @ 0x80 # replicate (63 - sha_n k) 0"
      using False b n mark by (simp add: zero_loop)
    have blk2: "foldl (\<lambda>b i. b[63 - i := ucast (drop_bit (i * 8) (sha_bits k))])
        (foldl (\<lambda>b i. b[i := 0]) (?t @ 0x80 # replicate (63 - sha_n k) 0) [0..<56]) [0..<8] =
      replicate 56 0 @ ?l"
      using False b n by (simp add: zero_loop length_loop blit_def bits m min_def)
    show ?thesis
      using False d pad_blocks [OF bs _ refl, of ?t] t n
      by (simp add: sha_fin_def Let_def sha_zero_upto_def sha_tr_def blk1 blk2 sha256_def m s max_def
          digest_loop_all del: of_nat_mult)
  qed
qed

lemma sha_rep_parts:
  assumes "length (sha_b c) = 64"
  shows "sha_rep (foldl sha_up (sha_init c) parts) (concat parts)"
proof (induction parts rule: rev_induct)
  case Nil
  show ?case using sha_rep_init [OF assms] by simp
next
  case (snoc p ps)
  then show ?case using sha_rep_up by simp
qed

text \<open>
  C37. The streaming SHA-256 of the server is the one-shot function:
  feeding the parts of a message one after another and finishing gives, for every way to cut
  the message and every old content of the buffers, the digest of the padded message.
\<close>

theorem sha_streaming_correct:
  assumes "length (sha_b c) = 64" and "length d = 32"
  shows "sha_fin (foldl sha_up (sha_init c) parts) d = sha256 (concat parts)"
  using assms by (intro sha_fin_rep sha_rep_parts)

section \<open>Classification of a submitted nonce\<close>

text \<open>The block id domain, with the terminating NUL that \<open>sizeof\<close> counts.\<close>

definition share_domain :: bytes where
  "share_domain =
     map (of_nat \<circ> of_char) (''STN-CHAIN:BLOCK:ID:1'' @ [CHR 0x00])"

text \<open>The comparison loop: the first difference decides, equal strings compare as \<open>\<le>\<close>.\<close>

fun share_le_loop :: "bytes \<Rightarrow> bytes \<Rightarrow> nat list \<Rightarrow> bool" where
  "share_le_loop a b [] = True"
| "share_le_loop a b (i # is) =
     (if a ! i < b ! i then True else if a ! i > b ! i then False else share_le_loop a b is)"

definition share_le :: "bytes \<Rightarrow> bytes \<Rightarrow> bool" where
  "share_le a b = share_le_loop a b [0..<32]"

datatype stn_share_class = STN_SHARE_INVALID | STN_SHARE_QUALIFYING | STN_SHARE_BLOCK

text \<open>
  The result is the class and, when the function writes it, the digest. The nonce is
  written into the copied header with the loop of \<open>write64be\<close>. The hash context and the
  digest buffer are uninitialised storage in C: here zeroes, which no result depends on
  (\<open>sha_fin_rep\<close>).
\<close>

definition stn_share_classify ::
  "bytes option \<Rightarrow> nat \<Rightarrow> u64 \<Rightarrow> bytes option \<Rightarrow> bytes option \<Rightarrow> stn_share_class \<times> bytes option" where
  "stn_share_classify block len nonce share chain =
     (case (block, share, chain) of
        (Some block, Some share, Some chain) \<Rightarrow>
          if len < 168 then (STN_SHARE_INVALID, None)
          else
            (let header = write64be (take 168 block) 152 nonce;
                 c = sha_init \<lparr>sha_s = replicate 8 0, sha_bits = 0, sha_b = replicate 64 0, sha_n = 0\<rparr>;
                 c = sha_up c share_domain;
                 c = sha_up c header;
                 hash = sha_fin c (replicate 32 0)
             in if \<not> share_le hash share then (STN_SHARE_INVALID, None)
                else if share_le hash chain then (STN_SHARE_BLOCK, Some hash)
                else (STN_SHARE_QUALIFYING, Some hash))
      | _ \<Rightarrow> (STN_SHARE_INVALID, None))"

lemma share_le_loop_value:
  "length a = length b \<Longrightarrow> k \<le> length a \<Longrightarrow>
   share_le_loop a b [k..<length a] \<longleftrightarrow> be_nat (drop k a) \<le> be_nat (drop k b)"
proof (induction "length a - k" arbitrary: k)
  case (Suc m)
  then have k: "k < length a" by simp
  have "drop k a = a ! k # drop (Suc k) a" "drop k b = b ! k # drop (Suc k) b"
    using k Suc.prems by (simp_all add: Cons_nth_drop_Suc)
  then have "be_nat (drop k a) \<le> be_nat (drop k b) \<longleftrightarrow>
      a ! k < b ! k \<or> a ! k = b ! k \<and> be_nat (drop (Suc k) a) \<le> be_nat (drop (Suc k) b)"
    using Suc.prems by (simp add: be_nat_le_cons del: be_nat.simps)
  moreover have "[k..<length a] = k # [Suc k..<length a]" using k by (simp add: upt_conv_Cons)
  ultimately show ?case using Suc k by auto
qed simp

lemma share_le_value [be_simps]:
  "length a = 32 \<Longrightarrow> length b = 32 \<Longrightarrow> share_le a b \<longleftrightarrow> be_nat a \<le> be_nat b"
  using share_le_loop_value [of a b 0] by (simp add: share_le_def)

lemma sha256_length [simp]: "length (sha256 m) = 32"
proof -
  have "length (concat (map (be_bytes 4) (s :: u32 list))) = 4 * length s" for s
    by (induction s) simp_all
  moreover have "length (foldl sha_compress sha_h0 (blocks64 (m @ sha_pad m))) = 8"
    by (rule foldl_compress_length) (simp add: sha_h0_def)
  ultimately show ?thesis by (simp add: sha256_def)
qed

text \<open>The proof-of-work digest of a block header under a nonce.\<close>

definition pow_digest :: "bytes \<Rightarrow> u64 \<Rightarrow> bytes" where
  "pow_digest block nonce =
     sha256 (share_domain @ take 152 block @ be_bytes 8 nonce @ bytes_at 160 8 block)"

lemma pow_digest_length [simp]: "length (pow_digest block nonce) = 32"
  by (simp add: pow_digest_def)

lemma share_classify_aux:
  assumes "168 \<le> len" "len \<le> length block" "length share = 32" "length chain = 32"
  shows "stn_share_classify (Some block) len nonce (Some share) (Some chain) =
    (let h = pow_digest block nonce in
     if be_nat share < be_nat h then (STN_SHARE_INVALID, None)
     else if be_nat h \<le> be_nat chain then (STN_SHARE_BLOCK, Some h)
     else (STN_SHARE_QUALIFYING, Some h))"
proof -
  have len: "168 \<le> length block" using assms by simp
  have header: "write64be (take 168 block) 152 nonce =
      take 152 block @ be_bytes 8 nonce @ bytes_at 160 8 block"
    using len
    by (simp add: write64be_write_be write_be_blit blit_def min_def bytes_at_def drop_take)
  have hash: "sha_fin (sha_up (sha_up (sha_init \<lparr>sha_s = replicate 8 0, sha_bits = 0,
        sha_b = replicate 64 0, sha_n = 0\<rparr>) share_domain) (write64be (take 168 block) 152 nonce))
      (replicate 32 0) = pow_digest block nonce"
    using sha_fin_rep [OF sha_rep_parts, of "\<lparr>sha_s = replicate 8 0, sha_bits = 0, sha_b = replicate 64 0,
        sha_n = 0\<rparr>" "replicate 32 0" "[share_domain, write64be (take 168 block) 152 nonce]"]
    by (simp add: header pow_digest_def)
  show ?thesis
    using assms by (simp add: stn_share_classify_def hash Let_def share_le_value not_le)
qed

text \<open>
  C8. A nonce is classified by its proof-of-work digest alone: with
  \<open>h\<close> the SHA-256 of the block id domain and the first 168 bytes of the block with the nonce
  field replaced, the class is BLOCK when \<open>h\<close> is at most the share target and at most the
  chain target (as numbers), QUALIFYING when only the share target admits it, INVALID
  otherwise; the digest is handed out exactly when the class is not INVALID.
\<close>

theorem share_classify_correct:
  assumes "168 \<le> len" "len \<le> length block" "length share = 32" "length chain = 32"
  shows "stn_share_classify (Some block) len nonce (Some share) (Some chain) =
    (let h = pow_digest block nonce in
     if be_nat share < be_nat h then (STN_SHARE_INVALID, None)
     else if be_nat h \<le> be_nat chain then (STN_SHARE_BLOCK, Some h)
     else (STN_SHARE_QUALIFYING, Some h))"
  by (rule share_classify_aux [OF assms])

end
