(* ===== verification/Sha_Eval.thy ===== *)
theory Sha_Eval
  imports Share_Verify Miner_Job
begin

text \<open>
  Evaluation of the compression function on concrete blocks by the simplifier: a
  mirror of the rounds on integers, where every addition is reduced to 32 bits,
  and the homomorphism that carries its result back to words. It serves the
  concrete digests of the examples only; nothing of it models code.
\<close>

abbreviation wi :: "int \<Rightarrow> u32" where "wi \<equiv> word_of_int"

definition irr :: "int \<Rightarrow> nat \<Rightarrow> int" where
  "irr a n = (a mod 4294967296) div 2 ^ n + (a mod 2 ^ n) * 2 ^ (32 - n)"

definition isig0 :: "int \<Rightarrow> int" where
  "isig0 v = irr v 7 XOR irr v 18 XOR (v mod 4294967296) div 8"

definition isig1 :: "int \<Rightarrow> int" where
  "isig1 v = irr v 17 XOR irr v 19 XOR (v mod 4294967296) div 1024"

text \<open>The schedule, newest word first.\<close>

fun isched :: "nat \<Rightarrow> int list \<Rightarrow> int list" where
  "isched 0 w = w"
| "isched (Suc k) w = isched k ((w ! 15 + isig0 (w ! 14) + w ! 6 + isig1 (w ! 1)) mod 4294967296 # w)"

lemma isched_numeral:
  "isched (numeral n) w =
   isched (pred_numeral n) ((w ! 15 + isig0 (w ! 14) + w ! 6 + isig1 (w ! 1)) mod 4294967296 # w)"
  by (simp add: numeral_eq_Suc)

type_synonym ivars = "int \<times> int \<times> int \<times> int \<times> int \<times> int \<times> int \<times> int"

fun irnd :: "ivars \<Rightarrow> int \<times> int \<Rightarrow> ivars" where
  "irnd (a, b, c, d, e, f, g, h) (k, w) =
     (let t1 = h + (irr e 6 XOR irr e 11 XOR irr e 25) + ((e AND f) XOR ((4294967295 - e) AND g)) + k + w;
          t2 = (irr a 2 XOR irr a 13 XOR irr a 22) + ((a AND b) XOR (a AND c) XOR (b AND c))
      in ((t1 + t2) mod 4294967296, a, b, c, (d + t1) mod 4294967296, e, f, g))"

definition ik :: "int list" where "ik = map uint sha_k"

fun ivec :: "int list \<Rightarrow> ivars \<Rightarrow> int list" where
  "ivec s (a, b, c, d, e, f, g, h) =
     [(s ! 0 + a) mod 4294967296, (s ! 1 + b) mod 4294967296, (s ! 2 + c) mod 4294967296,
      (s ! 3 + d) mod 4294967296, (s ! 4 + e) mod 4294967296, (s ! 5 + f) mod 4294967296,
      (s ! 6 + g) mod 4294967296, (s ! 7 + h) mod 4294967296]"

definition icompress :: "int list \<Rightarrow> int list \<Rightarrow> int list" where
  "icompress s ws =
     ivec s (foldl irnd (s ! 0, s ! 1, s ! 2, s ! 3, s ! 4, s ! 5, s ! 6, s ! 7)
               (zip ik (rev (isched 48 (rev ws)))))"

text \<open>The mirror is faithful.\<close>

lemma wi_mod: "wi (a mod 4294967296) = wi a"
proof -
  have "a mod 4294967296 = take_bit 32 a" by (simp add: take_bit_eq_mod)
  then show ?thesis by (auto intro!: bit_eqI simp: bit_simps)
qed

lemma wi_not: "4294967295 - w = NOT (w :: u32)"
proof -
  have "(4294967295 :: u32) = - 1" by simp
  then show ?thesis by (simp only: not_eq_complement) simp
qed

lemma wi_rr: "0 < n \<Longrightarrow> n < 32 \<Longrightarrow> rr (wi a) n = wi (irr a n)"
proof -
  assume n: "0 < n" "n < 32"
  have "irr a n = drop_bit n (take_bit 32 a) + push_bit (32 - n) (take_bit n a)"
    by (simp add: irr_def drop_bit_eq_div take_bit_eq_mod push_bit_eq_mult)
  also have "\<dots> = drop_bit n (take_bit 32 a) OR push_bit (32 - n) (take_bit n a)"
    by (rule disjunctive_add) (use n in \<open>auto simp: bit_simps\<close>)
  finally have irr: "irr a n = drop_bit n (take_bit 32 a) OR push_bit (32 - n) (take_bit n a)" .
  show ?thesis
    unfolding rr_def irr by (rule bit_eqI) (use n in \<open>auto simp: bit_simps\<close>)
qed

lemma wi_drop: "drop_bit n (wi a) = wi ((a mod 4294967296) div 2 ^ n)"
proof -
  have "(a mod 4294967296) div 2 ^ n = drop_bit n (take_bit 32 a)"
    by (simp add: drop_bit_eq_div take_bit_eq_mod)
  then show ?thesis by (auto intro!: bit_eqI simp: bit_simps)
qed

lemmas wi_hom = of_int_add of_int_xor_eq of_int_and_eq wi_mod wi_not

lemma wi_round:
  "sha_round (wi a, wi b, wi c, wi d, wi e, wi f, wi g, wi h) (wi k, wi w) =
   (case irnd (a, b, c, d, e, f, g, h) (k, w) of
      (a, b, c, d, e, f, g, h) \<Rightarrow> (wi a, wi b, wi c, wi d, wi e, wi f, wi g, wi h))"
  by (simp add: Let_def wi_hom wi_rr)

definition wi_vars :: "ivars \<Rightarrow> sha_vars" where
  "wi_vars = (\<lambda>(a, b, c, d, e, f, g, h). (wi a, wi b, wi c, wi d, wi e, wi f, wi g, wi h))"

lemma vars_exhaust: "\<exists>a b c d e f g h. s = (a, b, c, d, e, f, g, h)"
  by (cases s) auto

lemma wi_rounds:
  "foldl sha_round (wi_vars s) (zip (map wi ks) (map wi ws)) = wi_vars (foldl irnd s (zip ks ws))"
proof (induction ks arbitrary: s ws)
  case (Cons k ks)
  show ?case
  proof (cases ws)
    case (Cons w ws')
    obtain a b c d e f g h where "s = (a, b, c, d, e, f, g, h)"
      using vars_exhaust [of s] by blast
    then have "sha_round (wi_vars s) (wi k, wi w) = wi_vars (irnd s (k, w))"
      by (simp only: wi_vars_def prod.case wi_round)
    then show ?thesis using Cons Cons.IH by simp
  qed simp
qed simp

lemma wi_sched:
  "16 \<le> length r \<Longrightarrow>
   foldl sha_extend (map wi (rev r)) [length r..<length r + k] = map wi (rev (isched k r))"
proof (induction k arbitrary: r)
  case (Suc k)
  have nth: "map wi (rev r) ! (length r - j) = wi (r ! (j - 1))" if "0 < j" "j \<le> 16" for j
    using that Suc.prems by (simp add: rev_nth)
  have "sha_extend (map wi (rev r)) (length r) =
      map wi (rev ((r ! 15 + isig0 (r ! 14) + r ! 6 + isig1 (r ! 1)) mod 4294967296 # r))"
    using nth [of 16] nth [of 15] nth [of 7] nth [of 2] wi_drop [of 3] wi_drop [of 10]
    by (simp add: sha_extend_def isig0_def isig1_def wi_hom wi_rr)
  moreover have "[length r..<length r + Suc k] = length r # [Suc (length r)..<Suc (length r) + k]"
    by (simp add: upt_conv_Cons del: upt_Suc)
  ultimately show ?case
    using Suc.IH [of "(r ! 15 + isig0 (r ! 14) + r ! 6 + isig1 (r ! 1)) mod 4294967296 # r"] Suc.prems
    by (simp del: upt_Suc)
qed simp

lemma sha_compress_eval:
  assumes "length s = 8" "length ws = 16" and blk: "map (\<lambda>i. r32 b (i * 4)) [0..<16] = map wi ws"
  shows "sha_compress (map wi s) b = map wi (icompress s ws)"
proof -
  have "sha_sched b = map wi (rev (isched 48 (rev ws)))"
    using wi_sched [of "rev ws" 48] assms(2) by (simp add: sha_sched_def blk)
  moreover have "sha_k = map wi ik" by (simp add: ik_def comp_def)
  moreover obtain a b c d e f g h where
    "foldl irnd (s ! 0, s ! 1, s ! 2, s ! 3, s ! 4, s ! 5, s ! 6, s ! 7)
       (zip ik (rev (isched 48 (rev ws)))) = (a, b, c, d, e, f, g, h)"
    using vars_exhaust [of "foldl irnd (s ! 0, s ! 1, s ! 2, s ! 3, s ! 4, s ! 5, s ! 6, s ! 7)
        (zip ik (rev (isched 48 (rev ws))))"] by blast
  ultimately show ?thesis
    using assms(1)
      wi_rounds [of "(s ! 0, s ! 1, s ! 2, s ! 3, s ! 4, s ! 5, s ! 6, s ! 7)" ik "rev (isched 48 (rev ws))"]
    by (simp add: sha_compress_def icompress_def wi_vars_def wi_hom)
qed

lemma sha_block_eval:
  assumes "icompress s ws = r" "s' = map wi s" "r' = map wi r" "length s = 8" "length ws = 16"
    and "map (\<lambda>i. r32 b (i * 4)) [0..<16] = map wi ws"
  shows "sha_compress s' b = r'"
  using assms sha_compress_eval [of s ws b] by simp

section \<open>A published vector\<close>

lemma sha256_abc:
  "sha256 [0x61, 0x62, 0x63] =
   [0xba, 0x78, 0x16, 0xbf, 0x8f, 0x01, 0xcf, 0xea, 0x41, 0x41, 0x40, 0xde, 0x5d, 0xae, 0x22, 0x23,
    0xb0, 0x03, 0x61, 0xa3, 0x96, 0x17, 0x7a, 0x9c, 0xb4, 0x10, 0xff, 0x61, 0xf2, 0x00, 0x15, 0xad]"
proof -
  define b :: bytes where "b = [0x61, 0x62, 0x63, 0x80] @ replicate 52 0 @ [0, 0, 0, 0, 0, 0, 0, 24]"
  have c: "sha_compress sha_h0 b =
      [0xba7816bf, 0x8f01cfea, 0x414140de, 0x5dae2223, 0xb00361a3, 0x96177a9c, 0xb410ff61, 0xf20015ad]"
  proof (rule sha_block_eval)
    show "icompress
      [0x6a09e667, 0xbb67ae85, 0x3c6ef372, 0xa54ff53a, 0x510e527f, 0x9b05688c, 0x1f83d9ab, 0x5be0cd19]
      [0x61626380, 0, 0, 0, 0, 0, 0, 0, 0, 0, 0, 0, 0, 0, 0, 24] =
      [0xba7816bf, 0x8f01cfea, 0x414140de, 0x5dae2223, 0xb00361a3, 0x96177a9c, 0xb410ff61, 0xf20015ad]"
      by code_simp
  qed (simp_all add: sha_h0_def b_def r32_def upt_rec nth_append)
  have "[0x61, 0x62, 0x63] @ sha_pad [0x61, 0x62, 0x63] = b"
    by (simp add: sha_pad_def b_def be_bytes_def upt_rec)
  then have "blocks64 ([0x61, 0x62, 0x63] @ sha_pad [0x61, 0x62, 0x63]) = [b]"
    by (simp add: blocks64.simps b_def)
  then show ?thesis
    by (simp add: sha256_def c be_bytes_def upt_rec)
qed

section \<open>An example block\<close>

text \<open>
  A 168 byte block header with the magic, version 3, the chain target \<open>0c ff .. ff\<close> and
  zeroes elsewhere. Nonce 2 solves the block, nonce 7 is a qualifying share.
\<close>

definition example_head1 :: bytes where
  "example_head1 =
    [0x53, 0x54, 0x4e, 0x2d, 0x43, 0x48, 0x41, 0x49, 0x4e, 0x3a, 0x42, 0x4c, 0x4f, 0x43, 0x4b, 0x3a,
     0x49, 0x44, 0x3a, 0x31, 0, 0x53, 0x54, 0x4e, 0x42, 0, 3, 0, 0, 0, 0, 0,
     0, 0, 0, 0, 0, 0, 0, 0, 0, 0, 0, 0, 0, 0, 0, 0,
     0, 0, 0, 0, 0, 0, 0, 0, 0, 0, 0, 0, 0, 0, 0, 0]"

definition example_head2 :: bytes where
  "example_head2 =
    [0, 0, 0, 0, 0, 0, 0, 0, 0, 0, 0, 0, 0, 0, 0, 0,
     0, 0, 0, 0, 0, 0, 0, 0, 0, 0, 0, 0, 0, 0, 0, 0,
     0, 0, 0, 0, 0, 0, 0, 0, 0, 0, 0, 0, 0, 0, 0, 0,
     0, 0, 0, 0, 0, 0, 0, 0, 0, 0, 0, 0, 0, 0, 0, 0]"

definition example_tail2 :: bytes where
  "example_tail2 =
    [0, 0, 0, 0, 0, 0, 0, 0, 0, 0, 0, 0, 0, 0x0c, 0xff, 0xff,
     0xff, 0xff, 0xff, 0xff, 0xff, 0xff, 0xff, 0xff, 0xff, 0xff, 0xff, 0xff, 0xff, 0xff, 0xff, 0xff,
     0xff, 0xff, 0xff, 0xff, 0xff, 0xff, 0xff, 0xff, 0xff, 0xff, 0xff, 0xff, 0xff, 0, 0, 0,
     0, 0, 0, 0, 2, 0, 0, 0, 0, 0, 0, 0, 0, 0x80, 0, 0]"

definition example_tail7 :: bytes where
  "example_tail7 =
    [0, 0, 0, 0, 0, 0, 0, 0, 0, 0, 0, 0, 0, 0x0c, 0xff, 0xff,
     0xff, 0xff, 0xff, 0xff, 0xff, 0xff, 0xff, 0xff, 0xff, 0xff, 0xff, 0xff, 0xff, 0xff, 0xff, 0xff,
     0xff, 0xff, 0xff, 0xff, 0xff, 0xff, 0xff, 0xff, 0xff, 0xff, 0xff, 0xff, 0xff, 0, 0, 0,
     0, 0, 0, 0, 7, 0, 0, 0, 0, 0, 0, 0, 0, 0x80, 0, 0]"

definition example_pad :: bytes where
  "example_pad =
    [0, 0, 0, 0, 0, 0, 0, 0, 0, 0, 0, 0, 0, 0, 0, 0,
     0, 0, 0, 0, 0, 0, 0, 0, 0, 0, 0, 0, 0, 0, 0, 0,
     0, 0, 0, 0, 0, 0, 0, 0, 0, 0, 0, 0, 0, 0, 0, 0,
     0, 0, 0, 0, 0, 0, 0, 0, 0, 0, 0, 0, 0, 0, 5, 0xe8]"

lemma example_lengths:
  "length example_head1 = 64" "length example_head2 = 64" "length example_tail2 = 64"
  "length example_tail7 = 64" "length example_pad = 64"
  by (simp_all add: example_head1_def example_head2_def example_tail2_def example_tail7_def example_pad_def)

lemma example_c1:
  "sha_compress
    [0x6a09e667, 0xbb67ae85, 0x3c6ef372, 0xa54ff53a, 0x510e527f, 0x9b05688c, 0x1f83d9ab, 0x5be0cd19]
    example_head1 =
    [0xc906cf05, 0x8457fe84, 0xd6200026, 0x8a77320e, 0xf6478501, 0x7b554208, 0x11ca5c5f, 0x3ff10ac8]"
proof (rule sha_block_eval)
  show "icompress
    [0x6a09e667, 0xbb67ae85, 0x3c6ef372, 0xa54ff53a, 0x510e527f, 0x9b05688c, 0x1f83d9ab, 0x5be0cd19]
    [0x53544e2d, 0x43484149, 0x4e3a424c, 0x4f434b3a, 0x49443a31, 0x0053544e, 0x42000300, 0,
     0, 0, 0, 0, 0, 0, 0, 0] =
    [0xc906cf05, 0x8457fe84, 0xd6200026, 0x8a77320e, 0xf6478501, 0x7b554208, 0x11ca5c5f, 0x3ff10ac8]"
    by code_simp
qed (simp_all add: example_head1_def r32_def upt_rec)

lemma example_c2:
  "sha_compress
    [0xc906cf05, 0x8457fe84, 0xd6200026, 0x8a77320e, 0xf6478501, 0x7b554208, 0x11ca5c5f, 0x3ff10ac8]
    example_head2 =
    [0x09b112d3, 0x6ee6592d, 0x47fbb014, 0x83091644, 0x822a0ce0, 0x805e5b75, 0x2b6fbb99, 0x5f5b8b86]"
proof (rule sha_block_eval)
  show "icompress
    [0xc906cf05, 0x8457fe84, 0xd6200026, 0x8a77320e, 0xf6478501, 0x7b554208, 0x11ca5c5f, 0x3ff10ac8]
    [0, 0, 0, 0, 0, 0, 0, 0,
     0, 0, 0, 0, 0, 0, 0, 0] =
    [0x09b112d3, 0x6ee6592d, 0x47fbb014, 0x83091644, 0x822a0ce0, 0x805e5b75, 0x2b6fbb99, 0x5f5b8b86]"
    by code_simp
qed (simp_all add: example_head2_def r32_def upt_rec)

lemma example_c3_2:
  "sha_compress
    [0x09b112d3, 0x6ee6592d, 0x47fbb014, 0x83091644, 0x822a0ce0, 0x805e5b75, 0x2b6fbb99, 0x5f5b8b86]
    example_tail2 =
    [0xe66f6198, 0xc9ab8208, 0x6074721a, 0x86dd40a3, 0x450d0c40, 0x99baa73f, 0xd187bdb1, 0x0a7169e9]"
proof (rule sha_block_eval)
  show "icompress
    [0x09b112d3, 0x6ee6592d, 0x47fbb014, 0x83091644, 0x822a0ce0, 0x805e5b75, 0x2b6fbb99, 0x5f5b8b86]
    [0, 0, 0, 0x000cffff, 0xffffffff, 0xffffffff, 0xffffffff, 0xffffffff,
     0xffffffff, 0xffffffff, 0xffffffff, 0xff000000, 0, 0x02000000, 0, 0x00800000] =
    [0xe66f6198, 0xc9ab8208, 0x6074721a, 0x86dd40a3, 0x450d0c40, 0x99baa73f, 0xd187bdb1, 0x0a7169e9]"
    by code_simp
qed (simp_all add: example_tail2_def r32_def upt_rec)

lemma example_c4_2:
  "sha_compress
    [0xe66f6198, 0xc9ab8208, 0x6074721a, 0x86dd40a3, 0x450d0c40, 0x99baa73f, 0xd187bdb1, 0x0a7169e9]
    example_pad =
    [0x078ed50c, 0x89c0a1da, 0x0e9468ef, 0xd0cbc714, 0xa99a3956, 0x50c59de3, 0x20cf5a0b, 0xdd064bee]"
proof (rule sha_block_eval)
  show "icompress
    [0xe66f6198, 0xc9ab8208, 0x6074721a, 0x86dd40a3, 0x450d0c40, 0x99baa73f, 0xd187bdb1, 0x0a7169e9]
    [0, 0, 0, 0, 0, 0, 0, 0,
     0, 0, 0, 0, 0, 0, 0, 0x000005e8] =
    [0x078ed50c, 0x89c0a1da, 0x0e9468ef, 0xd0cbc714, 0xa99a3956, 0x50c59de3, 0x20cf5a0b, 0xdd064bee]"
    by code_simp
qed (simp_all add: example_pad_def r32_def upt_rec)

lemma example_digest_2:
  "pow_digest example_block 2 =
    [7, 0x8e, 0xd5, 0x0c, 0x89, 0xc0, 0xa1, 0xda, 0x0e, 0x94, 0x68, 0xef, 0xd0, 0xcb, 0xc7, 0x14,
     0xa9, 0x9a, 0x39, 0x56, 0x50, 0xc5, 0x9d, 0xe3, 0x20, 0xcf, 0x5a, 0x0b, 0xdd, 6, 0x4b, 0xee]"
proof -
  have "(share_domain @ take 152 example_block @ be_bytes 8 (2 :: u64) @ bytes_at 160 8 example_block) @
      sha_pad (share_domain @ take 152 example_block @ be_bytes 8 (2 :: u64) @ bytes_at 160 8 example_block) =
      concat [example_head1, example_head2, example_tail2, example_pad]"
    by code_simp
  then have "pow_digest example_block 2 = concat (map (be_bytes 4)
      (foldl sha_compress sha_h0 [example_head1, example_head2, example_tail2, example_pad]))"
    using blocks64_concat [of "[example_head1, example_head2, example_tail2, example_pad]" "[]"]
    by (simp add: pow_digest_def sha256_def example_lengths del: concat.simps)
  then show ?thesis
    by (simp add: sha_h0_def example_c1 example_c2 example_c3_2 example_c4_2 be_bytes_def upt_rec)
qed

lemma example_c3_7:
  "sha_compress
    [0x09b112d3, 0x6ee6592d, 0x47fbb014, 0x83091644, 0x822a0ce0, 0x805e5b75, 0x2b6fbb99, 0x5f5b8b86]
    example_tail7 =
    [0x7e4f82db, 0xd95f2739, 0xf4d09060, 0x6de82b4d, 0x08f50ac7, 0xce634809, 0xebffb2be, 0x941892bb]"
proof (rule sha_block_eval)
  show "icompress
    [0x09b112d3, 0x6ee6592d, 0x47fbb014, 0x83091644, 0x822a0ce0, 0x805e5b75, 0x2b6fbb99, 0x5f5b8b86]
    [0, 0, 0, 0x000cffff, 0xffffffff, 0xffffffff, 0xffffffff, 0xffffffff,
     0xffffffff, 0xffffffff, 0xffffffff, 0xff000000, 0, 0x07000000, 0, 0x00800000] =
    [0x7e4f82db, 0xd95f2739, 0xf4d09060, 0x6de82b4d, 0x08f50ac7, 0xce634809, 0xebffb2be, 0x941892bb]"
    by code_simp
qed (simp_all add: example_tail7_def r32_def upt_rec)

lemma example_c4_7:
  "sha_compress
    [0x7e4f82db, 0xd95f2739, 0xf4d09060, 0x6de82b4d, 0x08f50ac7, 0xce634809, 0xebffb2be, 0x941892bb]
    example_pad =
    [0x1c7fa0ab, 0x3d547497, 0x52277eb8, 0x78b90c7f, 0x4c8709e4, 0xcba376f8, 0xce5e186e, 0xe3199d30]"
proof (rule sha_block_eval)
  show "icompress
    [0x7e4f82db, 0xd95f2739, 0xf4d09060, 0x6de82b4d, 0x08f50ac7, 0xce634809, 0xebffb2be, 0x941892bb]
    [0, 0, 0, 0, 0, 0, 0, 0,
     0, 0, 0, 0, 0, 0, 0, 0x000005e8] =
    [0x1c7fa0ab, 0x3d547497, 0x52277eb8, 0x78b90c7f, 0x4c8709e4, 0xcba376f8, 0xce5e186e, 0xe3199d30]"
    by code_simp
qed (simp_all add: example_pad_def r32_def upt_rec)

lemma example_digest_7:
  "pow_digest example_block 7 =
    [0x1c, 0x7f, 0xa0, 0xab, 0x3d, 0x54, 0x74, 0x97, 0x52, 0x27, 0x7e, 0xb8, 0x78, 0xb9, 0x0c, 0x7f,
     0x4c, 0x87, 9, 0xe4, 0xcb, 0xa3, 0x76, 0xf8, 0xce, 0x5e, 0x18, 0x6e, 0xe3, 0x19, 0x9d, 0x30]"
proof -
  have "(share_domain @ take 152 example_block @ be_bytes 8 (7 :: u64) @ bytes_at 160 8 example_block) @
      sha_pad (share_domain @ take 152 example_block @ be_bytes 8 (7 :: u64) @ bytes_at 160 8 example_block) =
      concat [example_head1, example_head2, example_tail7, example_pad]"
    by code_simp
  then have "pow_digest example_block 7 = concat (map (be_bytes 4)
      (foldl sha_compress sha_h0 [example_head1, example_head2, example_tail7, example_pad]))"
    using blocks64_concat [of "[example_head1, example_head2, example_tail7, example_pad]" "[]"]
    by (simp add: pow_digest_def sha256_def example_lengths del: concat.simps)
  then show ?thesis
    by (simp add: sha_h0_def example_c1 example_c2 example_c3_7 example_c4_7 be_bytes_def upt_rec)
qed

section \<open>The theorems of Share\_Verify on these inputs\<close>

theorem sha_streaming_correct_witness:
  "sha_fin (foldl sha_up (sha_init \<lparr>sha_s = [], sha_bits = 5, sha_b = replicate 64 9, sha_n = 3\<rparr>)
     [[0x61], [], [0x62, 0x63]]) (replicate 32 0) = sha256 [0x61, 0x62, 0x63]"
  using sha_streaming_correct [of "\<lparr>sha_s = [], sha_bits = 5, sha_b = replicate 64 9, sha_n = 3\<rparr>"
      "replicate 32 0" "[[0x61], [], [0x62, 0x63]]"]
  by simp

theorem share_classify_correct_witness:
  "stn_share_classify (Some example_block) 168 2 (Some max_target) (Some (0x0c # replicate 31 0xff)) =
     (STN_SHARE_BLOCK, Some (pow_digest example_block 2)) \<and>
   stn_share_classify (Some example_block) 168 7 (Some max_target) (Some (0x0c # replicate 31 0xff)) =
     (STN_SHARE_QUALIFYING, Some (pow_digest example_block 7))"
proof -
  have "be_nat (pow_digest example_block 2) \<le> be_nat (0x0c # replicate 31 0xff)"
    "\<not> be_nat (pow_digest example_block 7) \<le> be_nat (0x0c # replicate 31 0xff)"
    "\<not> be_nat max_target < be_nat (pow_digest example_block 2)"
    "\<not> be_nat max_target < be_nat (pow_digest example_block 7)"
    by (simp_all add: example_digest_2 example_digest_7 max_target_value be_nat_replicate_ff)
  then show ?thesis
    using share_classify_correct [of 168 example_block max_target "0x0c # replicate 31 0xff"]
    by (simp add: Let_def)
qed

end
