(* ===== verification/Rpc_Client.thy ===== *)
theory Rpc_Client
  imports Byte_Codec
begin

text \<open>
  \<^verbatim>\<open>src/stn_rpc_client.c\<close>: the STNC version 2 client. A transport is a function
  \<open>exchange\<close> from its own state, the request frame and the response capacity to its
  new state and the response frame, or \<open>None\<close> when it reports failure. A client
  holds the transport state, the function, the next request id and the outcomes of
  the allocations to come. The lemmas relate requests and accepted responses to a
  reference frame layout.
\<close>

section \<open>Constants and types\<close>

abbreviation (input) "STN_RPC_CLIENT_VERSION \<equiv> (2 :: u64)"
abbreviation (input) "STN_RPC_CLIENT_MINER_IDENTITY_SIZE \<equiv> (69 :: nat)"
abbreviation (input) "STN_RPC_CLIENT_BLOCK_HEADER_SIZE \<equiv> (168 :: nat)"
abbreviation (input) "STN_RPC_CLIENT_SHARE_PREFIX_SIZE \<equiv> (109 :: nat)"
abbreviation (input) "STN_RPC_CLIENT_SHARE_SIZE \<equiv> (277 :: nat)"
abbreviation (input) "STN_RPC_CLIENT_MAX_PAYLOAD \<equiv> (1052017 :: nat)"
abbreviation (input) "STN_RPC_CLIENT_MINING_PREFIX_SIZE \<equiv> (68 :: nat)"

abbreviation (input) "STN_RPC_CLIENT_INFO \<equiv> (0x0001 :: u16)"
abbreviation (input) "STN_RPC_CLIENT_MINING_TEMPLATE \<equiv> (0x2002 :: u16)"
abbreviation (input) "STN_RPC_CLIENT_SUBMIT_WORK \<equiv> (0x2003 :: u16)"
abbreviation (input) "STN_RPC_CLIENT_SUBMIT_SHARE \<equiv> (0x2004 :: u16)"

definition STNC :: bytes where "STNC = [0x53, 0x54, 0x4e, 0x43]"
definition STNB :: bytes where "STNB = [0x53, 0x54, 0x4e, 0x42]"

lemma length_STNC [simp]: "length STNC = 4" and length_STNB [simp]: "length STNB = 4"
  by (simp_all add: STNC_def STNB_def)

datatype stn_rpc_client_code =
    STN_RPC_CLIENT_OK
  | STN_RPC_CLIENT_INVALID
  | STN_RPC_CLIENT_VERSION_ERROR
  | STN_RPC_CLIENT_METHOD
  | STN_RPC_CLIENT_FORBIDDEN
  | STN_RPC_CLIENT_UNAVAILABLE
  | STN_RPC_CLIENT_NOT_FOUND
  | STN_RPC_CLIENT_REJECTED
  | STN_RPC_CLIENT_PROVIDER
  | STN_RPC_CLIENT_CAPACITY
  | STN_RPC_CLIENT_STALE
  | STN_RPC_CLIENT_TRANSPORT

type_synonym 'u exchange = "'u \<Rightarrow> bytes \<Rightarrow> nat \<Rightarrow> 'u \<times> bytes option"

record 'u rpc_client =
  transport_user :: 'u
  rc_exchange :: "'u exchange option"
  next_request_id :: u64
  rc_mem :: "bool list"

section \<open>The calls\<close>

definition map_code :: "u16 \<Rightarrow> stn_rpc_client_code" where
  "map_code code =
     (if code = 0 then STN_RPC_CLIENT_OK
      else if code = 1 then STN_RPC_CLIENT_INVALID
      else if code = 2 then STN_RPC_CLIENT_VERSION_ERROR
      else if code = 3 then STN_RPC_CLIENT_METHOD
      else if code = 4 then STN_RPC_CLIENT_FORBIDDEN
      else if code = 5 then STN_RPC_CLIENT_UNAVAILABLE
      else if code = 6 then STN_RPC_CLIENT_NOT_FOUND
      else if code = 7 then STN_RPC_CLIENT_REJECTED
      else if code = 8 then STN_RPC_CLIENT_PROVIDER
      else if code = 9 then STN_RPC_CLIENT_CAPACITY
      else if code = 10 then STN_RPC_CLIENT_STALE
      else STN_RPC_CLIENT_INVALID)"

text \<open>The next request id, skipping 0.\<close>

definition rpc_take_id :: "'u rpc_client \<Rightarrow> u64 \<times> 'u rpc_client" where
  "rpc_take_id c =
     (let request_id = next_request_id c;
          c = c\<lparr>next_request_id := request_id + 1\<rparr>
      in if request_id = 0 then (next_request_id c, c\<lparr>next_request_id := next_request_id c + 1\<rparr>)
         else (request_id, c))"

definition rpc_request :: "u16 \<Rightarrow> u64 \<Rightarrow> bytes \<Rightarrow> nat \<Rightarrow> bytes" where
  "rpc_request method request_id payload payload_length =
     (let request = replicate (24 + payload_length) 0;
          request = blit 0 STNC request;
          request = write_be request 4 2 STN_RPC_CLIENT_VERSION;
          request = write_be request 6 2 1;
          request = write_be request 8 2 (ucast method);
          request = write_be request 10 2 0;
          request = write_be request 12 8 request_id;
          request = write_be request 20 4 (of_nat payload_length)
      in if payload_length \<noteq> 0 then blit 24 (take payload_length payload) request else request)"

definition rpc_check_response ::
  "u16 \<Rightarrow> u64 \<Rightarrow> nat \<Rightarrow> bytes \<Rightarrow> stn_rpc_client_code \<times> bytes" where
  "rpc_check_response method request_id response_capacity response =
     (let frame_length = length response in
      if frame_length < 24 \<or> frame_length > 24 + response_capacity \<or>
         \<not> mem_eq response STNC 4 \<or>
         read_be response 4 2 \<noteq> STN_RPC_CLIENT_VERSION \<or>
         read_be response 6 2 \<noteq> 2 \<or>
         read_be response 8 2 \<noteq> ucast method \<or>
         read_be response 12 8 \<noteq> request_id
      then (STN_RPC_CLIENT_INVALID, [])
      else
        (let response_length = (ucast (read_be response 20 4) :: u32) in
         if unat response_length \<noteq> frame_length - 24 then (STN_RPC_CLIENT_INVALID, [])
         else
           (let response_code = (ucast (read_be response 10 2) :: u16) in
            if response_code \<noteq> 0 then
              (if response_length \<noteq> 0 then (STN_RPC_CLIENT_INVALID, [])
               else (map_code response_code, []))
            else if unat response_length > response_capacity then (STN_RPC_CLIENT_CAPACITY, [])
            else if
              (method = STN_RPC_CLIENT_INFO \<and> response_length \<noteq> 184) \<or>
              (method = STN_RPC_CLIENT_SUBMIT_WORK \<and> response_length \<noteq> 80) \<or>
              (method = STN_RPC_CLIENT_SUBMIT_SHARE \<and> response_length \<noteq> 32) \<or>
              (method = STN_RPC_CLIENT_MINING_TEMPLATE \<and>
                 (response_length < 236 \<or>
                  read_be response (24 + 64) 4 \<noteq> ucast (response_length - 68) \<or>
                  \<not> mem_eq (drop (24 + STN_RPC_CLIENT_MINING_PREFIX_SIZE) response) STNB 4 \<or>
                  read_be response (24 + STN_RPC_CLIENT_MINING_PREFIX_SIZE + 4) 2 \<noteq> 3))
            then (STN_RPC_CLIENT_INVALID, [])
            else (STN_RPC_CLIENT_OK, bytes_at 24 (unat response_length) response))))"

text \<open>
  \<open>call\<close>: the new client, the code, and the bytes written to the response buffer
  (\<open>*written\<close> is their number).
\<close>

definition rpc_call ::
  "'u rpc_client \<Rightarrow> u16 \<Rightarrow> bytes option \<Rightarrow> nat \<Rightarrow> nat \<Rightarrow> 'u rpc_client \<times> stn_rpc_client_code \<times> bytes" where
  "rpc_call c method payload payload_length response_capacity =
     (case rc_exchange c of
        None \<Rightarrow> (c, STN_RPC_CLIENT_INVALID, [])
      | Some exchange \<Rightarrow>
        if payload_length > STN_RPC_CLIENT_MAX_PAYLOAD \<or>
           response_capacity > STN_RPC_CLIENT_MAX_PAYLOAD \<or>
           (payload_length \<noteq> 0 \<and> payload = None)
        then (c, STN_RPC_CLIENT_INVALID, [])
        else
          (let (request_ok, mem) = alloc_next (rc_mem c);
               (response_ok, mem) = alloc_next mem;
               c = c\<lparr>rc_mem := mem\<rparr>
           in if \<not> request_ok \<or> \<not> response_ok then (c, STN_RPC_CLIENT_CAPACITY, [])
              else
                (let (request_id, c) = rpc_take_id c;
                     request = rpc_request method request_id (case payload of None \<Rightarrow> [] | Some p \<Rightarrow> p)
                                 payload_length;
                     (user, frame) = exchange (transport_user c) request (24 + response_capacity);
                     c = c\<lparr>transport_user := user\<rparr>
                 in case frame of
                      None \<Rightarrow> (c, STN_RPC_CLIENT_TRANSPORT, [])
                    | Some response \<Rightarrow> (c, rpc_check_response method request_id response_capacity response))))"

definition stn_rpc_client_init :: "bool list \<Rightarrow> 'u \<Rightarrow> 'u exchange option \<Rightarrow> 'u rpc_client" where
  "stn_rpc_client_init mem user exchange =
     \<lparr>transport_user = user, rc_exchange = exchange, next_request_id = 1, rc_mem = mem\<rparr>"

definition stn_rpc_client_info ::
  "'u rpc_client \<Rightarrow> nat \<Rightarrow> 'u rpc_client \<times> stn_rpc_client_code \<times> bytes" where
  "stn_rpc_client_info c capacity = rpc_call c STN_RPC_CLIENT_INFO None 0 capacity"

definition stn_rpc_client_mining_template ::
  "'u rpc_client \<Rightarrow> nat \<Rightarrow> 'u rpc_client \<times> stn_rpc_client_code \<times> bytes" where
  "stn_rpc_client_mining_template c capacity =
     (case rpc_call c STN_RPC_CLIENT_MINING_TEMPLATE None 0 capacity of
        (c, code, payload) \<Rightarrow>
          (c, if code = STN_RPC_CLIENT_CAPACITY then STN_RPC_CLIENT_UNAVAILABLE else code, payload))"

definition stn_rpc_client_submit_work ::
  "'u rpc_client \<Rightarrow> bytes option \<Rightarrow> nat \<Rightarrow> nat \<Rightarrow> 'u rpc_client \<times> stn_rpc_client_code \<times> bytes" where
  "stn_rpc_client_submit_work c payload len response_capacity =
     (if len < 68 + STN_RPC_CLIENT_MINER_IDENTITY_SIZE then (c, STN_RPC_CLIENT_INVALID, [])
      else rpc_call c STN_RPC_CLIENT_SUBMIT_WORK payload len response_capacity)"

definition stn_rpc_client_submit_share ::
  "'u rpc_client \<Rightarrow> bytes option \<Rightarrow> nat \<Rightarrow> 'u rpc_client \<times> stn_rpc_client_code \<times> bytes" where
  "stn_rpc_client_submit_share c payload len =
     (if payload = None \<or> len \<noteq> STN_RPC_CLIENT_SHARE_SIZE then (c, STN_RPC_CLIENT_INVALID, [])
      else
        (case rpc_call c STN_RPC_CLIENT_SUBMIT_SHARE payload len 32 of
           (c, code, share_id) \<Rightarrow>
             if code = STN_RPC_CLIENT_OK \<and> length share_id \<noteq> 32
             then (c, STN_RPC_CLIENT_INVALID, share_id)
             else (c, code, share_id)))"

section \<open>The frame layout\<close>

text \<open>The reference layout of an STNC frame, and what a successful payload must satisfy.\<close>

definition rpc_frame :: "nat \<Rightarrow> u16 \<Rightarrow> u16 \<Rightarrow> u64 \<Rightarrow> bytes \<Rightarrow> bytes" where
  "rpc_frame kind method result request_id payload =
     STNC @ be_bytes 2 (2 :: u64) @ be_bytes 2 (of_nat kind :: u64) @ be_bytes 2 method @
     be_bytes 2 result @ be_bytes 8 request_id @ be_bytes 4 (of_nat (length payload) :: u64) @ payload"

definition rpc_payload_ok :: "u16 \<Rightarrow> bytes \<Rightarrow> bool" where
  "rpc_payload_ok method p \<longleftrightarrow>
     (method = STN_RPC_CLIENT_INFO \<longrightarrow> length p = 184) \<and>
     (method = STN_RPC_CLIENT_SUBMIT_WORK \<longrightarrow> length p = 80) \<and>
     (method = STN_RPC_CLIENT_SUBMIT_SHARE \<longrightarrow> length p = 32) \<and>
     (method = STN_RPC_CLIENT_MINING_TEMPLATE \<longrightarrow>
        236 \<le> length p \<and> be_nat (bytes_at 64 4 p) = length p - 68 \<and>
        bytes_at 68 4 p = STNB \<and> be_nat (bytes_at 72 2 p) = 3)"

lemma be_bytes_ucast: "n \<le> 2 \<Longrightarrow> be_bytes n (ucast (m :: u16) :: u64) = be_bytes n m"
  by (rule nth_equalityI) (auto intro!: bit_eqI simp: bit_simps)

lemma length_rpc_frame [simp]: "length (rpc_frame k m r i p) = 24 + length p"
  by (simp add: rpc_frame_def)

text \<open>Writing the next field of a partly filled frame.\<close>

lemma write_be_fill:
  "length pre = off \<Longrightarrow> n \<le> k \<Longrightarrow>
   write_be (pre @ replicate k 0) off n v = (pre @ be_bytes n v) @ replicate (k - n) 0"
  by (simp add: write_be_blit blit_fill del: append_assoc)

lemma rpc_request_frame:
  assumes "n \<le> length payload"
  shows "rpc_request method request_id payload n = rpc_frame 1 method 0 request_id (take n payload)"
proof -
  let ?h = "STNC @ be_bytes 2 (2 :: u64) @ be_bytes 2 (1 :: u64) @ be_bytes 2 method @
         be_bytes 2 (0 :: u64) @ be_bytes 8 request_id @ be_bytes 4 (of_nat n :: u64)"
  have first: "blit 0 STNC (replicate (24 + n) 0) = STNC @ replicate (20 + n) 0"
    by (simp add: blit_def)
  have "write_be (write_be (write_be (write_be (write_be (write_be
          (blit 0 STNC (replicate (24 + n) 0)) 4 2 2) 6 2 1) 8 2 (ucast method)) 10 2 0) 12 8 request_id)
          20 4 (of_nat n) = ?h @ replicate n 0"
    unfolding first by (simp add: write_be_fill be_bytes_ucast del: append_assoc)
  note header = this
  have "be_bytes 2 (0 :: u64) = be_bytes 2 (0 :: u16)"
    by (simp add: be_bytes_def)
  then show ?thesis
    using assms unfolding rpc_request_def Let_def header by (simp add: rpc_frame_def blit_def)
qed

text \<open>Reading a field and comparing it, against comparing its bytes.\<close>

lemma read_be_eq_iff:
  assumes "n \<le> 8" "off + n \<le> length p" "unat v < 256 ^ n"
  shows "read_be p off n = v \<longleftrightarrow> bytes_at off n p = be_bytes n v"
proof -
  have "read_be p off n = v \<longleftrightarrow> be_nat (bytes_at off n p) = be_nat (be_bytes n v)"
    using assms by (simp add: word_unat_eq_iff be_simps)
  also have "\<dots> \<longleftrightarrow> bytes_at off n p = be_bytes n v"
    using assms(2) by (simp add: be_nat_inject)
  finally show ?thesis .
qed

lemma unat_read_be_ucast:
  assumes "n \<le> 8" "off + n \<le> length p" "256 ^ n \<le> (2 :: nat) ^ LENGTH('a)"
  shows "unat (ucast (read_be p off n) :: 'a::len word) = be_nat (bytes_at off n p)"
proof -
  have "be_nat (bytes_at off n p) < 256 ^ n"
    using be_nat_bound [of "bytes_at off n p"] assms(2) by simp
  then show ?thesis
    using assms by (simp add: unsigned_ucast_eq be_simps take_bit_nat_eq_self)
qed

lemma frame_fields:
  "24 \<le> length r \<Longrightarrow>
   r = bytes_at 0 4 r @ bytes_at 4 2 r @ bytes_at 6 2 r @ bytes_at 8 2 r @ bytes_at 10 2 r @
       bytes_at 12 8 r @ bytes_at 20 4 r @ drop 24 r"
proof -
  have split: "drop o1 r = bytes_at o1 n r @ drop (o1 + n) r" for o1 n
    by (simp add: bytes_at_def add.commute flip: drop_drop)
  show ?thesis
    using split [of 0 4] split [of 4 2] split [of 6 2] split [of 8 2] split [of 10 2] split [of 12 8]
      split [of 20 4]
    by simp
qed

lemma rpc_frame_eq_iff:
  assumes "24 \<le> length r"
  shows "r = rpc_frame k m x i p \<longleftrightarrow>
    bytes_at 0 4 r = STNC \<and> bytes_at 4 2 r = be_bytes 2 (2 :: u64) \<and>
    bytes_at 6 2 r = be_bytes 2 (of_nat k :: u64) \<and> bytes_at 8 2 r = be_bytes 2 m \<and>
    bytes_at 10 2 r = be_bytes 2 x \<and> bytes_at 12 8 r = be_bytes 8 i \<and>
    bytes_at 20 4 r = be_bytes 4 (of_nat (length p) :: u64) \<and> drop 24 r = p"
  unfolding rpc_frame_def by (subst frame_fields [OF assms]) (use assms in simp)


lemma map_code_OK [simp]: "map_code x = STN_RPC_CLIENT_OK \<longleftrightarrow> x = 0"
  by (simp add: map_code_def)

lemma length_field_value: "unat (of_nat k :: u64) mod 256 ^ 4 = k mod 2 ^ 32"
proof -
  have "unat (of_nat k :: u64) = k mod 2 ^ 64" by (simp add: unat_of_nat)
  moreover have "k mod 2 ^ 64 mod 2 ^ 32 = k mod 2 ^ 32"
    by (rule mod_mod_cancel) (rule le_imp_power_dvd, simp)
  ultimately show ?thesis by simp
qed

text \<open>The header tests of the reply, as a statement about its bytes.\<close>

lemma rpc_header_ok:
  assumes "24 \<le> length r"
  shows "(mem_eq r STNC 4 \<and> read_be r 4 2 = 2 \<and> read_be r 6 2 = 2 \<and> read_be r 8 2 = ucast m \<and>
          read_be r 12 8 = i \<and> be_nat (bytes_at 20 4 r) = length r - 24) \<longleftrightarrow>
         length r - 24 < 2 ^ 32 \<and>
         r = rpc_frame 2 m (ucast (read_be r 10 2)) i (drop 24 r)"
proof -
  have lt2: "unat (v :: u16) < 65536" for v using unsigned_less [of v] by simp
  have lt8: "unat (v :: u64) < 256 ^ 8" for v using unsigned_less [of v] by simp
  have m: "read_be r 8 2 = ucast m \<longleftrightarrow> bytes_at 8 2 r = be_bytes 2 m"
    using assms lt2 [of m] by (simp add: read_be_eq_iff be_bytes_ucast unsigned_ucast_eq take_bit_nat_eq_self)
  have i: "read_be r 12 8 = i \<longleftrightarrow> bytes_at 12 8 r = be_bytes 8 i"
    using assms lt8 [of i] by (simp add: read_be_eq_iff)
  have "be_nat (be_bytes 2 (ucast (read_be r 10 2) :: u16)) = unat (ucast (read_be r 10 2) :: u16)"
    using lt2 [of "ucast (read_be r 10 2)"] by (simp only: be_nat_be_bytes) simp
  also have "\<dots> = be_nat (bytes_at 10 2 r)"
    using assms by (intro unat_read_be_ucast) simp_all
  finally have x: "bytes_at 10 2 r = be_bytes 2 (ucast (read_be r 10 2) :: u16)"
    using assms by (subst be_nat_inject [symmetric]) simp_all
  have v: "be_nat (be_bytes 4 (of_nat k :: u64)) = k mod 2 ^ 32" for k
    by (simp only: be_nat_be_bytes length_field_value)
  have b: "be_nat (bytes_at 20 4 r) < 2 ^ 32"
    using assms be_nat_bound [of "bytes_at 20 4 r"] by simp
  have "bytes_at 20 4 r = be_bytes 4 (of_nat (length r - 24) :: u64) \<longleftrightarrow>
      be_nat (bytes_at 20 4 r) = (length r - 24) mod 2 ^ 32"
    unfolding v [symmetric] using assms by (intro be_nat_inject [symmetric]) simp
  then have l: "be_nat (bytes_at 20 4 r) = length r - 24 \<longleftrightarrow>
      length r - 24 < 2 ^ 32 \<and> bytes_at 20 4 r = be_bytes 4 (of_nat (length r - 24) :: u64)"
    using b by (metis mod_less)
  show ?thesis
    unfolding rpc_frame_eq_iff [OF assms] m i l
    using assms x by (auto simp: mem_eq_def bytes_at_zero read_be_eq_iff)
qed


text \<open>The result field and the payload of a reference frame.\<close>

lemma rpc_frame_result: "(ucast (read_be (rpc_frame k m x i p) 10 2) :: u16) = x"
proof -
  have "unat x < 65536" using unsigned_less [of x] by simp
  then have "unat (ucast (read_be (rpc_frame k m x i p) 10 2) :: u16) = unat x"
    by (simp add: unat_read_be_ucast rpc_frame_def buf_simps)
      (simp add: bytes_at_def be_nat_be_bytes)
  then show ?thesis by (simp add: word_unat_eq_iff)
qed

lemma rpc_frame_payload: "bytes_at (24 + o1) n (rpc_frame k m x i p) = bytes_at o1 n p"
  by (simp add: rpc_frame_def bytes_at_def)

lemma drop_rpc_frame [simp]: "drop 24 (rpc_frame k m x i p) = p"
  by (simp add: rpc_frame_def)

lemma rpc_frame_length_field:
  "length p < 2 ^ 32 \<Longrightarrow> (ucast (read_be (rpc_frame k m x i p) 20 4) :: u32) = of_nat (length p)"
proof -
  assume len: "length p < 2 ^ 32"
  have "unat (ucast (read_be (rpc_frame k m x i p) 20 4) :: u32) = be_nat (bytes_at 20 4 (rpc_frame k m x i p))"
    by (intro unat_read_be_ucast) simp_all
  also have "\<dots> = be_nat (be_bytes 4 (of_nat (length p) :: u64))"
    by (simp add: rpc_frame_def buf_simps) (simp add: bytes_at_def)
  also have "\<dots> = length p"
    using len by (simp only: be_nat_be_bytes length_field_value mod_less)
  finally show ?thesis
    using len by (simp add: word_unat_eq_iff unat_of_nat)
qed

lemma unat_of_nat_u32: "n < 2 ^ 32 \<Longrightarrow> unat (of_nat n :: u32) = n"
  by (simp add: unat_of_nat)

lemma u32_of_nat_eq: "n < 2 ^ 32 \<Longrightarrow> (of_nat n = (w :: u32)) \<longleftrightarrow> n = unat w"
  by (auto simp: unat_of_nat_u32 word_unat_eq_iff)

lemma u32_of_nat_less: "n < 2 ^ 32 \<Longrightarrow> (of_nat n < (w :: u32)) \<longleftrightarrow> n < unat w"
  by (simp add: unat_of_nat_u32 word_less_nat_alt)

lemma rpc_payload_check:
  assumes len: "length p < 2 ^ 32"
  shows "((method = STN_RPC_CLIENT_INFO \<and> (of_nat (length p) :: u32) \<noteq> 184) \<or>
          (method = STN_RPC_CLIENT_SUBMIT_WORK \<and> (of_nat (length p) :: u32) \<noteq> 80) \<or>
          (method = STN_RPC_CLIENT_SUBMIT_SHARE \<and> (of_nat (length p) :: u32) \<noteq> 32) \<or>
          (method = STN_RPC_CLIENT_MINING_TEMPLATE \<and>
             ((of_nat (length p) :: u32) < 236 \<or>
              read_be (rpc_frame k m x i p) (24 + 64) 4 \<noteq> ucast ((of_nat (length p) :: u32) - 68) \<or>
              \<not> mem_eq (drop (24 + STN_RPC_CLIENT_MINING_PREFIX_SIZE) (rpc_frame k m x i p)) STNB 4 \<or>
              read_be (rpc_frame k m x i p) (24 + STN_RPC_CLIENT_MINING_PREFIX_SIZE + 4) 2 \<noteq> 3))) \<longleftrightarrow>
         \<not> rpc_payload_ok method p"
proof -
  have len_field: "read_be (rpc_frame k m x i p) (24 + 64) 4 = ucast ((of_nat (length p) :: u32) - 68) \<longleftrightarrow>
      be_nat (bytes_at 64 4 p) = length p - 68"
    and version: "read_be (rpc_frame k m x i p) (24 + STN_RPC_CLIENT_MINING_PREFIX_SIZE + 4) 2 = 3 \<longleftrightarrow>
      be_nat (bytes_at 72 2 p) = 3"
    if "236 \<le> length p"
  proof -
    have "(of_nat (length p) :: u32) - 68 = of_nat (length p - 68)"
      using that by (simp add: of_nat_diff)
    moreover have "unat (of_nat (length p - 68) :: u32) = length p - 68"
      using len by (intro unat_of_nat_u32) simp
    ultimately have "unat (ucast ((of_nat (length p) :: u32) - 68) :: u64) = length p - 68"
      using len by (simp add: unsigned_ucast_eq take_bit_nat_eq_self)
    then show "read_be (rpc_frame k m x i p) (24 + 64) 4 = ucast ((of_nat (length p) :: u32) - 68) \<longleftrightarrow>
        be_nat (bytes_at 64 4 p) = length p - 68"
      using that by (simp add: word_unat_eq_iff be_simps) (simp add: rpc_frame_payload [of 64, simplified])
    show "read_be (rpc_frame k m x i p) (24 + STN_RPC_CLIENT_MINING_PREFIX_SIZE + 4) 2 = 3 \<longleftrightarrow>
        be_nat (bytes_at 72 2 p) = 3"
      using that by (simp add: word_unat_eq_iff be_simps) (simp add: rpc_frame_payload [of 72, simplified])
  qed
  have magic: "mem_eq (drop (24 + STN_RPC_CLIENT_MINING_PREFIX_SIZE) (rpc_frame k m x i p)) STNB 4 \<longleftrightarrow>
      bytes_at 68 4 p = STNB"
    by (simp add: mem_eq_def rpc_frame_def bytes_at_def)
  show ?thesis
    unfolding magic rpc_payload_ok_def
    using len_field version len by (auto simp: u32_of_nat_eq u32_of_nat_less)
qed

lemma rpc_check_frame:
  assumes "length p < 2 ^ 32" "length p \<le> cap"
  shows "rpc_check_response m i cap (rpc_frame 2 m x i p) =
    (if x \<noteq> 0 then (if p \<noteq> [] then (STN_RPC_CLIENT_INVALID, []) else (map_code x, []))
     else if rpc_payload_ok m p then (STN_RPC_CLIENT_OK, p) else (STN_RPC_CLIENT_INVALID, []))"
proof -
  let ?r = "rpc_frame 2 m x i p"
  have h: "mem_eq ?r STNC 4 \<and> read_be ?r 4 2 = 2 \<and> read_be ?r 6 2 = 2 \<and> read_be ?r 8 2 = ucast m \<and>
      read_be ?r 12 8 = i"
    using assms rpc_header_ok [of ?r m i] by (simp add: rpc_frame_result)
  have empty: "(of_nat (length p) :: u32) \<noteq> 0 \<longleftrightarrow> p \<noteq> []"
    using assms by (simp add: u32_of_nat_eq)
  have all: "bytes_at 24 (length p) (rpc_frame 2 m y i p) = p" for y
    by (simp add: bytes_at_def)
  show ?thesis
    unfolding rpc_check_response_def Let_def rpc_frame_length_field [OF assms(1)] rpc_frame_result
      rpc_payload_check [OF assms(1)] empty
    using h assms by (simp add: unat_of_nat_u32 all)
qed

lemma rpc_check_not_frame:
  assumes "\<And>x p. r = rpc_frame 2 m x i p \<Longrightarrow> 2 ^ 32 \<le> length p \<or> cap < length p"
  shows "rpc_check_response m i cap r = (STN_RPC_CLIENT_INVALID, [])"
proof (cases "24 \<le> length r \<and> length r \<le> 24 + cap")
  case True
  then have "\<not> (length r - 24 < 2 ^ 32 \<and> r = rpc_frame 2 m (ucast (read_be r 10 2)) i (drop 24 r))"
    using assms [of "ucast (read_be r 10 2)" "drop 24 r"] by (auto simp del: power_numeral)
  then have "\<not> (mem_eq r STNC 4 \<and> read_be r 4 2 = 2 \<and> read_be r 6 2 = 2 \<and> read_be r 8 2 = ucast m \<and>
      read_be r 12 8 = i \<and> unat (ucast (read_be r 20 4) :: u32) = length r - 24)"
    using True rpc_header_ok [of r m i] by (simp add: unat_read_be_ucast)
  then show ?thesis
    by (auto simp: rpc_check_response_def Let_def)
next
  case False
  then show ?thesis by (auto simp: rpc_check_response_def Let_def)
qed

lemma rpc_frame_inject: "rpc_frame 2 m x i p = rpc_frame 2 m y i q \<longleftrightarrow> x = y \<and> p = q"
  using rpc_frame_result [of 2 m x i p] rpc_frame_result [of 2 m y i q]
    drop_rpc_frame [of 2 m x i p] drop_rpc_frame [of 2 m y i q] by metis

lemma rpc_check_OK:
  "rpc_check_response m i cap r = (STN_RPC_CLIENT_OK, p) \<longleftrightarrow>
   r = rpc_frame 2 m 0 i p \<and> length p \<le> cap \<and> length p < 2 ^ 32 \<and> rpc_payload_ok m p"
proof (cases "\<exists>x q. r = rpc_frame 2 m x i q \<and> length q < 2 ^ 32 \<and> length q \<le> cap")
  case True
  then obtain x q where r: "r = rpc_frame 2 m x i q" and q: "length q < 2 ^ 32" "length q \<le> cap" by blast
  have "r = rpc_frame 2 m 0 i p \<longleftrightarrow> x = 0 \<and> p = q"
    unfolding r using rpc_frame_inject [of m x i q 0 p] by blast
  then show ?thesis
    using q unfolding r rpc_check_frame [OF q] by (auto simp del: power_numeral)
next
  case False
  have "rpc_check_response m i cap r = (STN_RPC_CLIENT_INVALID, [])"
    by (rule rpc_check_not_frame) (use False not_le in blast)
  then show ?thesis using False by (auto simp del: power_numeral)
qed

text \<open>
  C15. A reply is accepted exactly when it is, byte for byte, the STNC
  version 2 response frame of the request (same method, same id, result 0) with a payload that
  fits the caller's buffer and has the length and shape its method prescribes; the caller is
  given that payload.
\<close>

theorem rpc_reply_accepted:
  "rpc_check_response m i cap r = (STN_RPC_CLIENT_OK, p) \<longleftrightarrow>
   r = rpc_frame 2 m 0 i p \<and> length p \<le> cap \<and> length p < 2 ^ 32 \<and> rpc_payload_ok m p"
  by (rule rpc_check_OK)

text \<open>
  An error the Chain reports reaches the caller only through a response
  frame of this very request with an empty payload, and then as the code of its result field:
  any other reply that is not accepted is INVALID, and no reply that is not accepted hands out
  a byte.
\<close>

theorem rpc_reply_error:
  assumes "rpc_check_response m i cap r = (c, q)" and "c \<noteq> STN_RPC_CLIENT_OK"
  shows "q = [] \<and>
    (c = STN_RPC_CLIENT_INVALID \<or> (\<exists>x. x \<noteq> 0 \<and> r = rpc_frame 2 m x i [] \<and> c = map_code x))"
proof (cases "\<exists>x p. r = rpc_frame 2 m x i p \<and> length p < 2 ^ 32 \<and> length p \<le> cap")
  case True
  then obtain x p where r: "r = rpc_frame 2 m x i p" and p: "length p < 2 ^ 32" "length p \<le> cap" by blast
  show ?thesis
    using assms unfolding r rpc_check_frame [OF p] by (auto split: if_splits)
next
  case False
  have "rpc_check_response m i cap r = (STN_RPC_CLIENT_INVALID, [])"
    by (rule rpc_check_not_frame) (use False not_le in blast)
  then show ?thesis using assms by simp
qed

theorem rpc_reply_error_witness:
  "snd (rpc_check_response 0x2002 7 100 (rpc_frame 2 0x2002 10 7 [])) = []"
proof -
  have c: "rpc_check_response 0x2002 7 100 (rpc_frame 2 0x2002 10 7 []) = (STN_RPC_CLIENT_STALE, [])"
    by (simp add: rpc_check_frame map_code_def)
  show ?thesis using rpc_reply_error [OF c] by (simp add: c)
qed

section \<open>What a completed call means\<close>

lemma rpc_take_id_eq:
  "rpc_take_id c =
     (let i = (if next_request_id c = 0 then 1 else next_request_id c)
      in (i, c\<lparr>next_request_id := i + 1\<rparr>))"
  by (simp add: rpc_take_id_def Let_def)

lemma rpc_call_outcome:
  assumes "rpc_call c m payload n cap = (c', code, p)" "code \<noteq> STN_RPC_CLIENT_INVALID"
    "code \<noteq> STN_RPC_CLIENT_CAPACITY"
  obtains ex i r where "rc_exchange c = Some ex" "i \<noteq> 0" "next_request_id c' = i + 1"
    "ex (transport_user c) (rpc_request m i (case payload of None \<Rightarrow> [] | Some q \<Rightarrow> q) n) (24 + cap) =
       (transport_user c', r)"
    "r = None \<and> code = STN_RPC_CLIENT_TRANSPORT \<and> p = [] \<or>
     (\<exists>f. r = Some f \<and> rpc_check_response m i cap f = (code, p))"
  using assms
  by (auto simp: rpc_call_def rpc_take_id_eq Let_def split: option.splits prod.splits if_splits)

lemma rpc_call_ok_aux:
  assumes "rpc_call c m (Some q) n cap = (c', STN_RPC_CLIENT_OK, p)" "n \<le> length q"
  shows "\<exists>ex i. rc_exchange c = Some ex \<and> i \<noteq> 0 \<and> next_request_id c' = i + 1 \<and>
    ex (transport_user c) (rpc_frame 1 m 0 i (take n q)) (24 + cap) =
      (transport_user c', Some (rpc_frame 2 m 0 i p)) \<and>
    length p \<le> cap \<and> rpc_payload_ok m p"
proof -
  from assms(1) obtain ex i r where "rc_exchange c = Some ex" "i \<noteq> 0" "next_request_id c' = i + 1"
    "ex (transport_user c) (rpc_request m i q n) (24 + cap) = (transport_user c', Some r)"
    "rpc_check_response m i cap r = (STN_RPC_CLIENT_OK, p)"
    by (rule rpc_call_outcome) auto
  then show ?thesis
    by (auto simp: rpc_request_frame [OF assms(2)] rpc_check_OK)
qed

text \<open>
  A call returns OK only after exactly one exchange, of the STNC request frame
  that carries the method, a request id other than 0 and the caller's payload, and only with the
  payload of the response frame for that method and that id.
\<close>

theorem rpc_call_ok:
  assumes "rpc_call c m (Some q) n cap = (c', STN_RPC_CLIENT_OK, p)" "n \<le> length q"
  shows "\<exists>ex i. rc_exchange c = Some ex \<and> i \<noteq> 0 \<and> next_request_id c' = i + 1 \<and>
    ex (transport_user c) (rpc_frame 1 m 0 i (take n q)) (24 + cap) =
      (transport_user c', Some (rpc_frame 2 m 0 i p)) \<and>
    length p \<le> cap \<and> rpc_payload_ok m p"
  by (rule rpc_call_ok_aux [OF assms])

lemma rpc_call_exchange:
  "rpc_call c m payload n cap = (c', code, p) \<Longrightarrow> rc_exchange c' = rc_exchange c"
  by (auto simp: rpc_call_def rpc_take_id_eq Let_def split: prod.splits if_splits option.splits)

lemma rpc_exchange_kept:
  "stn_rpc_client_mining_template c cap = (c', code, p) \<Longrightarrow> rc_exchange c' = rc_exchange c"
  "stn_rpc_client_submit_work c q n cap = (c', code, p) \<Longrightarrow> rc_exchange c' = rc_exchange c"
  "stn_rpc_client_submit_share c q n = (c', code, p) \<Longrightarrow> rc_exchange c' = rc_exchange c"
  by (auto simp: stn_rpc_client_mining_template_def stn_rpc_client_submit_work_def
      stn_rpc_client_submit_share_def split: prod.splits if_splits dest: rpc_call_exchange)

text \<open>What a mining template that is handed out looks like.\<close>

lemma mining_template_facts:
  assumes "stn_rpc_client_mining_template c cap = (c', code, p)"
  shows "code \<noteq> STN_RPC_CLIENT_CAPACITY \<and>
    (code = STN_RPC_CLIENT_OK \<longrightarrow> 236 \<le> length p \<and> length p \<le> cap \<and>
       be_nat (bytes_at 64 4 p) = length p - 68 \<and>
       bytes_at 68 4 p = STNB \<and> be_nat (bytes_at 72 2 p) = 3)"
proof -
  obtain code' where call: "rpc_call c STN_RPC_CLIENT_MINING_TEMPLATE None 0 cap = (c', code', p)"
    and code: "code = (if code' = STN_RPC_CLIENT_CAPACITY then STN_RPC_CLIENT_UNAVAILABLE else code')"
    using assms by (auto simp: stn_rpc_client_mining_template_def split: prod.splits)
  have "length p \<le> cap \<and> rpc_payload_ok STN_RPC_CLIENT_MINING_TEMPLATE p" if "code = STN_RPC_CLIENT_OK"
  proof -
    from that code have "code' = STN_RPC_CLIENT_OK" by (simp split: if_splits)
    from call [unfolded this] show ?thesis
      by (rule rpc_call_outcome) (auto simp: rpc_check_OK)
  qed
  then show ?thesis by (simp add: code rpc_payload_ok_def)
qed

text \<open>
  C16. A mining template is handed out only in the shape the rest of the
  program indexes into: at least 236 bytes, within the caller's buffer, whose length field at 64
  counts the block that starts at 68, the block having magic STNB and version 3. The code CAPACITY
  never reaches the caller.
\<close>

theorem mining_template_shape:
  assumes "stn_rpc_client_mining_template c cap = (c', code, p)"
  shows "code \<noteq> STN_RPC_CLIENT_CAPACITY \<and>
    (code = STN_RPC_CLIENT_OK \<longrightarrow> 236 \<le> length p \<and> length p \<le> cap \<and>
       be_nat (bytes_at 64 4 p) = length p - 68 \<and>
       bytes_at 68 4 p = STNB \<and> be_nat (bytes_at 72 2 p) = 3)"
  by (rule mining_template_facts [OF assms])

text \<open>The ids of successive calls.\<close>

fun rpc_ids :: "nat \<Rightarrow> 'u rpc_client \<Rightarrow> u64 list" where
  "rpc_ids 0 c = []"
| "rpc_ids (Suc k) c = (case rpc_take_id c of (i, c') \<Rightarrow> i # rpc_ids k c')"

lemma rpc_ids_closed:
  assumes "next_request_id c = of_nat (a mod (2 ^ 64 - 1) + 1) \<or>
           next_request_id c = 0 \<and> a mod (2 ^ 64 - 1) = 0"
  shows "rpc_ids k c = map (\<lambda>j. of_nat ((a + j) mod (2 ^ 64 - 1) + 1)) [0..<k]"
  using assms
proof (induction k arbitrary: a c)
  case (Suc k)
  let ?M = "2 ^ 64 - 1 :: nat"
  have lt: "a mod ?M < ?M" by simp
  define i :: u64 where "i = of_nat (a mod ?M + 1)"
  have u: "unat i = a mod ?M + 1"
    unfolding i_def using lt by (simp only: unat_of_nat) simp
  then have i0: "i \<noteq> 0" by (metis add_is_0 unat_0 zero_neq_one)
  have t: "rpc_take_id c = (i, c\<lparr>next_request_id := i + 1\<rparr>)"
    using Suc.prems i0 by (auto simp: rpc_take_id_eq i_def Let_def)
  have nxt: "i + 1 = of_nat (Suc a mod ?M + 1) \<or> i + 1 = 0 \<and> Suc a mod ?M = 0"
  proof (cases "a mod ?M + 1 = ?M")
    case True
    then have "i + 1 = of_nat (2 ^ 64)" unfolding i_def by simp
    moreover have "(of_nat (2 ^ 64) :: u64) = 0" by simp
    ultimately show ?thesis using True by (metis Suc_eq_plus1 mod_Suc)
  next
    case False
    then have "Suc a mod ?M = a mod ?M + 1" by (simp add: mod_Suc)
    then show ?thesis by (simp add: i_def)
  qed
  have "rpc_ids k (c\<lparr>next_request_id := i + 1\<rparr>) =
      map (\<lambda>j. of_nat ((Suc a + j) mod ?M + 1)) [0..<k]"
    using nxt by (intro Suc.IH) simp
  then show ?case
    by (simp add: t i_def map_upt_Suc del: upt_Suc)
qed simp

lemma mod_shift_inject:
  assumes "(a + i) mod m = (a + j) mod m" "i < m" "j < (m :: nat)"
  shows "i = j"
  using assms
proof (induction i j rule: linorder_wlog)
  case (le i j)
  then have "m dvd (a + j) - (a + i)" by (metis add_le_mono le_refl mod_eq_dvd_iff_nat)
  then show ?case using le by (auto dest: dvd_imp_le)
qed auto

text \<open>
  Request ids are fresh: whatever the counter, the ids of any
  \<open>2 ^ 64 - 1\<close> successive calls of a client are pairwise different, and none is 0.
\<close>

theorem rpc_ids_fresh: "distinct (rpc_ids (2 ^ 64 - 1) c) \<and> 0 \<notin> set (rpc_ids (2 ^ 64 - 1) c)"
proof -
  let ?M = "2 ^ 64 - 1 :: nat"
  define a where "a = unat (next_request_id c) - 1"
  have lt: "unat (next_request_id c) < 2 ^ 64"
    using unsigned_less [of "next_request_id c"] by simp
  have ids: "rpc_ids ?M c = map (\<lambda>j. of_nat ((a + j) mod ?M + 1)) [0..<?M]"
  proof (rule rpc_ids_closed)
    show "next_request_id c = of_nat (a mod ?M + 1) \<or> next_request_id c = 0 \<and> a mod ?M = 0"
    proof (cases "next_request_id c = 0")
      case True
      then show ?thesis by (simp add: a_def)
    next
      case False
      then have "a mod ?M + 1 = unat (next_request_id c)"
        using lt by (simp add: a_def unat_gt_0 Suc_le_eq)
      then show ?thesis by simp
    qed
  qed
  have val: "unat (of_nat ((a + j) mod ?M + 1) :: u64) = (a + j) mod ?M + 1" for j
  proof -
    have "(a + j) mod ?M < ?M" by simp
    then show ?thesis by (simp only: unat_of_nat) simp
  qed
  have "inj_on (\<lambda>j. (of_nat ((a + j) mod ?M + 1) :: u64)) {0..<?M}"
  proof (rule inj_onI)
    fix i j
    assume ij: "i \<in> {0..<?M}" "j \<in> {0..<?M}"
      and "(of_nat ((a + i) mod ?M + 1) :: u64) = of_nat ((a + j) mod ?M + 1)"
    then have "(a + i) mod ?M = (a + j) mod ?M"
      using val [of i] val [of j] by simp
    then show "i = j" using ij by (auto intro: mod_shift_inject)
  qed
  moreover have "(of_nat ((a + j) mod ?M + 1) :: u64) \<noteq> 0" for j
    using val [of j] by (metis add_is_0 unat_0 zero_neq_one)
  ultimately show ?thesis
    unfolding ids by (auto simp: distinct_map)
qed

section \<open>The theorems on a sample exchange\<close>

text \<open>A transport that answers the first request with a given result and payload.\<close>

definition sample_exchange :: "u16 \<Rightarrow> u16 \<Rightarrow> bytes \<Rightarrow> unit exchange" where
  "sample_exchange method result payload = (\<lambda>u request cap. (u, Some (rpc_frame 2 method result 1 payload)))"

theorem rpc_call_ok_witness:
  "\<exists>i. i \<noteq> 0 \<and> sample_exchange 0x2004 0 (replicate 32 5) () (rpc_frame 1 0x2004 0 i [9]) (24 + 32) =
     ((), Some (rpc_frame 2 0x2004 0 i (replicate 32 5)))"
proof -
  let ?c = "stn_rpc_client_init [] () (Some (sample_exchange 0x2004 0 (replicate 32 5)))"
  have call: "rpc_call ?c 0x2004 (Some [9]) 1 32 =
      (?c\<lparr>next_request_id := 2\<rparr>, STN_RPC_CLIENT_OK, replicate 32 5)"
    by (simp add: rpc_call_def stn_rpc_client_init_def rpc_take_id_def sample_exchange_def
        rpc_check_frame rpc_payload_ok_def)
  show ?thesis
    using rpc_call_ok [OF call] by (auto simp: stn_rpc_client_init_def intro!: exI [of _ 1])
qed

theorem mining_template_shape_witness:
  "be_nat (bytes_at 64 4 example_template) = length example_template - 68"
proof -
  let ?c = "stn_rpc_client_init [] () (Some (sample_exchange 0x2002 0 example_template))"
  have "stn_rpc_client_mining_template ?c 1000 =
      (?c\<lparr>next_request_id := 2\<rparr>, STN_RPC_CLIENT_OK, example_template)"
    by (simp add: stn_rpc_client_mining_template_def rpc_call_def stn_rpc_client_init_def
        rpc_take_id_def sample_exchange_def rpc_check_frame rpc_payload_ok_def
        example_template_fields STNB_def)
  from mining_template_shape [OF this] show ?thesis by simp
qed

end
