(* ===== verification/Sessions.thy ===== *)
theory Sessions
  imports Stn_Prelude
begin

text \<open>
  The mining side of the connections: service modes (\<^verbatim>\<open>src/stn_service_mode.c\<close>), the
  mode of a client (\<^verbatim>\<open>src/stn_client_mode.c\<close>), the session object
  (\<^verbatim>\<open>src/stn_client_session.c\<close>), the listening sockets
  (\<^verbatim>\<open>src/stn_mining_listener.c\<close>, its POSIX branch) and the acceptor that joins them
  (\<^verbatim>\<open>src/stn_session_acceptor.c\<close>).

  The socket calls are scripts: what \<open>recv\<close>, \<open>send\<close> and \<open>accept\<close> will return, in order.
  A script that is used up means that nothing is waiting (\<open>recv\<close>, \<open>accept\<close>) or that
  everything is sent (\<open>send\<close>). Descriptors are integers, and functions that close some
  return the list of those they closed.
\<close>

section \<open>Socket calls\<close>

datatype recv_event = Recv_Data bytes | Recv_Eof | Recv_Eintr | Recv_Again | Recv_Error

datatype recv_result = Got bytes | Got_Eof | Got_Eintr | Got_Again | Got_Error

text \<open>\<open>recv (socket, buffer, n, 0)\<close>: at most \<open>n\<close> bytes, the rest stays in the socket.\<close>

fun sock_recv :: "nat \<Rightarrow> recv_event list \<Rightarrow> recv_result \<times> recv_event list" where
  "sock_recv n [] = (Got_Again, [])"
| "sock_recv n (Recv_Data d # es) =
     (if d = [] then sock_recv n es
      else if length d \<le> n then (Got d, es)
      else (Got (take n d), Recv_Data (drop n d) # es))"
| "sock_recv n (Recv_Eof # es) = (Got_Eof, Recv_Eof # es)"
| "sock_recv n (Recv_Eintr # es) = (Got_Eintr, es)"
| "sock_recv n (Recv_Again # es) = (Got_Again, es)"
| "sock_recv n (Recv_Error # es) = (Got_Error, es)"

datatype send_event = Send_Some nat | Send_Eintr | Send_Fail

text \<open>
  \<open>send_all\<close>: whether everything was sent, the script left, the bytes that were sent.
  One call of \<open>send\<close> sends at most what it is given.
\<close>

fun send_all :: "send_event list \<Rightarrow> bytes \<Rightarrow> bool \<times> send_event list \<times> bytes" where
  "send_all es [] = (True, es, [])"
| "send_all [] p = (True, [], p)"
| "send_all (Send_Eintr # es) p = send_all es p"
| "send_all (Send_Fail # es) p = (False, es, [])"
| "send_all (Send_Some k # es) p =
     (if k = 0 then (False, es, [])
      else
        (let sent = min k (length p)
         in case send_all es (drop sent p) of
              (ok, es', out) \<Rightarrow> (ok, es', take sent p @ out)))"

lemma send_all_prefix:
  "send_all es p = (ok, es', out) \<Longrightarrow> (\<exists>rest. p = out @ rest \<and> (ok \<longrightarrow> rest = []) \<and> (\<not> ok \<longrightarrow> rest \<noteq> []))"
proof (induction es p arbitrary: out rule: send_all.induct)
  case (5 k es b bs)
  show ?case
  proof (cases "k = 0")
    case False
    let ?sent = "min k (length (b # bs))"
    obtain out' where rest: "send_all es (drop ?sent (b # bs)) = (ok, es', out')"
      and out: "out = take ?sent (b # bs) @ out'"
      using "5.prems" False by (auto simp: Let_def split: prod.splits)
    from "5.IH" [OF False refl rest]
    obtain r where "drop ?sent (b # bs) = out' @ r" "ok \<longrightarrow> r = []" "\<not> ok \<longrightarrow> r \<noteq> []" by blast
    then show ?thesis
      by (metis out append_take_drop_id append.assoc)
  qed (use 5 in auto)
qed auto

lemma send_all_ok: "send_all es p = (True, es', out) \<Longrightarrow> out = p"
  using send_all_prefix by fastforce

text \<open>A bound on the number of \<open>recv\<close> calls a script can still serve.\<close>

fun pending :: "recv_event list \<Rightarrow> nat" where
  "pending [] = 0"
| "pending (Recv_Data d # es) = length d + 1 + pending es"
| "pending (e # es) = 1 + pending es"

lemma sock_recv_Got:
  "sock_recv n es = (Got d, es') \<Longrightarrow> 0 < n \<Longrightarrow> d \<noteq> [] \<and> length d \<le> n \<and> pending es' < pending es"
  by (induction n es rule: sock_recv.induct) (auto split: if_splits)

lemma sock_recv_Eintr: "sock_recv n es = (Got_Eintr, es') \<Longrightarrow> pending es' < pending es"
  by (induction n es rule: sock_recv.induct) (auto split: if_splits)

lemma sock_recv_pending: "sock_recv n es = (r, es') \<Longrightarrow> pending es' \<le> pending es"
  by (induction n es rule: sock_recv.induct) (auto split: if_splits)

section \<open>Service modes\<close>

text \<open>The last constructor stands for every other value the C enumeration type can hold.\<close>

datatype stn_service_mode =
    STN_SERVICE_MODE_POOL
  | STN_SERVICE_MODE_SOLO
  | STN_SERVICE_MODE_OTHER nat

abbreviation (input) "STN_STRATUM_POOL_PORT \<equiv> (18475 :: u16)"
abbreviation (input) "STN_STRATUM_SOLO_PORT \<equiv> (18477 :: u16)"

fun stn_service_mode_port :: "stn_service_mode \<Rightarrow> u16" where
  "stn_service_mode_port STN_SERVICE_MODE_POOL = STN_STRATUM_POOL_PORT"
| "stn_service_mode_port STN_SERVICE_MODE_SOLO = STN_STRATUM_SOLO_PORT"
| "stn_service_mode_port (STN_SERVICE_MODE_OTHER _) = 0"

fun stn_service_mode_name :: "stn_service_mode \<Rightarrow> string" where
  "stn_service_mode_name STN_SERVICE_MODE_POOL = ''pool''"
| "stn_service_mode_name STN_SERVICE_MODE_SOLO = ''solo''"
| "stn_service_mode_name (STN_SERVICE_MODE_OTHER _) = ''invalid''"

record stn_client_mode =
  service_mode :: stn_service_mode
  service_port :: u16

definition stn_client_mode_init :: "stn_service_mode \<Rightarrow> stn_client_mode" where
  "stn_client_mode_init m = \<lparr>service_mode = m, service_port = stn_service_mode_port m\<rparr>"

definition stn_client_mode_valid :: "stn_client_mode option \<Rightarrow> bool" where
  "stn_client_mode_valid m =
     (case m of None \<Rightarrow> False
      | Some m \<Rightarrow> service_port m \<noteq> 0 \<and> service_port m = stn_service_mode_port (service_mode m))"

definition stn_client_mode_is_pool :: "stn_client_mode option \<Rightarrow> bool" where
  "stn_client_mode_is_pool m =
     (stn_client_mode_valid m \<and> (case m of None \<Rightarrow> False | Some m \<Rightarrow> service_mode m = STN_SERVICE_MODE_POOL))"

definition stn_client_mode_is_solo :: "stn_client_mode option \<Rightarrow> bool" where
  "stn_client_mode_is_solo m =
     (stn_client_mode_valid m \<and> (case m of None \<Rightarrow> False | Some m \<Rightarrow> service_mode m = STN_SERVICE_MODE_SOLO))"

lemma client_mode_port_decides:
  "stn_client_mode_valid (Some m) \<Longrightarrow>
   (stn_client_mode_is_pool (Some m) \<longleftrightarrow> service_port m = STN_STRATUM_POOL_PORT) \<and>
   (stn_client_mode_is_solo (Some m) \<longleftrightarrow> service_port m = STN_STRATUM_SOLO_PORT)"
  by (cases "service_mode m")
    (auto simp: stn_client_mode_valid_def stn_client_mode_is_pool_def stn_client_mode_is_solo_def)

section \<open>Client sessions\<close>

text \<open>
  \<open>sess_id\<close> identifies the object (in C, its address). The last three fields are the
  connection: what it will deliver, what its sends will do, and what was sent on it.
\<close>

record session =
  sess_id :: nat
  sess_socket :: int
  rx :: bytes
  rx_used :: nat
  sent_job_id :: bytes
  hashrate :: u64
  address :: bytes
  sess_mode :: stn_client_mode
  address_registered :: bool
  has_job :: bool
  sess_in :: "recv_event list"
  sess_sends :: "send_event list"
  sess_out :: bytes

abbreviation (input) "STN_INVALID_SOCKET \<equiv> (- 1 :: int)"
abbreviation (input) "SIZE_MAX \<equiv> (2 ^ 64 - 1 :: nat)"
abbreviation (input) "UINT64_MAX \<equiv> (- 1 :: u64)"

definition stn_client_session_init ::
  "nat \<Rightarrow> recv_event list \<Rightarrow> send_event list \<Rightarrow> int \<Rightarrow> stn_client_mode \<Rightarrow> session" where
  "stn_client_session_init cid ins sends fd mode =
     \<lparr>sess_id = cid, sess_socket = fd, rx = replicate 77 0, rx_used = 0, sent_job_id = replicate 32 0,
      hashrate = 0, address = replicate 70 0, sess_mode = mode, address_registered = False,
      has_job = False, sess_in = ins, sess_sends = sends, sess_out = []\<rparr>"

definition stn_client_session_clear_job :: "session \<Rightarrow> session" where
  "stn_client_session_clear_job c = c\<lparr>sent_job_id := replicate 32 0, hashrate := 0, has_job := False\<rparr>"

text \<open>The loop over the list, from the total so far.\<close>

fun total_hashrate_from :: "u64 \<Rightarrow> session list \<Rightarrow> u64" where
  "total_hashrate_from acc [] = acc"
| "total_hashrate_from acc (c # cs) =
     (if UINT64_MAX - acc < hashrate c then UINT64_MAX
      else total_hashrate_from (acc + hashrate c) cs)"

definition stn_client_session_total_hashrate :: "session list \<Rightarrow> u64" where
  "stn_client_session_total_hashrate cs = total_hashrate_from 0 cs"

fun session_count_from :: "nat \<Rightarrow> session list \<Rightarrow> nat" where
  "session_count_from count [] = count"
| "session_count_from count (c # cs) =
     (if count = SIZE_MAX then SIZE_MAX else session_count_from (count + 1) cs)"

definition stn_client_session_count :: "session list \<Rightarrow> nat" where
  "stn_client_session_count cs = session_count_from 0 cs"

lemma total_hashrate_from_value:
  "unat (total_hashrate_from acc cs) = min SIZE_MAX (unat acc + (\<Sum>c\<leftarrow>cs. unat (hashrate c)))"
proof (induction cs arbitrary: acc)
  case Nil
  have "unat acc < 2 ^ 64" using unsigned_less [of acc] by simp
  then show ?case by simp
next
  case (Cons c cs)
  have small: "unat acc < 2 ^ 64"
    using unsigned_less [of acc] by simp
  have max: "unat (UINT64_MAX - acc) = SIZE_MAX - unat acc"
    using small by (simp add: unat_sub_if_size word_size unsigned_minus_1_eq_mask mask_eq_exp_minus_1)
  show ?case
  proof (cases "UINT64_MAX - acc < hashrate c")
    case True
    then have "SIZE_MAX < unat acc + unat (hashrate c)"
      by (simp add: word_less_nat_alt max)
    then show ?thesis using True by (simp add: unsigned_minus_1_eq_mask mask_eq_exp_minus_1)
  next
    case False
    then have "unat acc + unat (hashrate c) \<le> SIZE_MAX"
      using small by (simp add: word_less_nat_alt max not_less)
    then have "unat (acc + hashrate c) = unat acc + unat (hashrate c)"
      by (simp add: unat_word_ariths)
    then show ?thesis using False Cons by simp
  qed
qed

text \<open>
  The hash rate published for the pool is the sum of the rates of
  the connected miners, saturating at \<open>2 ^ 64 - 1\<close> and never wrapping.
\<close>

theorem total_hashrate_saturates:
  "unat (stn_client_session_total_hashrate cs) = min (2 ^ 64 - 1) (\<Sum>c\<leftarrow>cs. unat (hashrate c))"
  using total_hashrate_from_value [of 0 cs] by (simp add: stn_client_session_total_hashrate_def)

lemma session_count_from_value:
  "k \<le> SIZE_MAX \<Longrightarrow> session_count_from k cs = min SIZE_MAX (k + length cs)"
  by (induction cs arbitrary: k) auto

lemma session_count_value: "stn_client_session_count cs = min SIZE_MAX (length cs)"
  using session_count_from_value [of 0 cs] by (simp add: stn_client_session_count_def)

section \<open>Listening sockets\<close>

record listener =
  ls_socket :: int
  ls_mode :: stn_service_mode
  ls_port :: u16

definition stn_mining_listener_init :: "stn_service_mode \<Rightarrow> listener" where
  "stn_mining_listener_init m =
     \<lparr>ls_socket = STN_INVALID_SOCKET, ls_mode = m, ls_port = stn_service_mode_port m\<rparr>"

text \<open>The descriptors that a call closes.\<close>

definition stn_mining_socket_close :: "int \<Rightarrow> int list" where
  "stn_mining_socket_close fd = (if fd = STN_INVALID_SOCKET then [] else [fd])"

text \<open>What the calls of \<open>open\<close> will return: the descriptor, and whether each later call succeeds.\<close>

record open_env =
  oe_socket :: int
  oe_setsockopt :: bool
  oe_bind :: bool
  oe_listen :: bool
  oe_getfl :: bool
  oe_setfl :: bool

definition stn_mining_listener_open :: "open_env \<Rightarrow> listener \<Rightarrow> bool \<times> listener \<times> int list" where
  "stn_mining_listener_open e l =
     (if ls_port l = 0 then (False, l, [])
      else
        (let socket_fd = oe_socket e in
         if socket_fd < 0 then (False, l, [])
         else if \<not> oe_setsockopt e then (False, l, stn_mining_socket_close socket_fd)
         else if \<not> oe_bind e \<or> \<not> oe_listen e then (False, l, stn_mining_socket_close socket_fd)
         else if \<not> oe_getfl e \<or> \<not> oe_setfl e then (False, l, stn_mining_socket_close socket_fd)
         else (True, l\<lparr>ls_socket := socket_fd\<rparr>, [])))"

definition stn_mining_listener_close :: "listener \<Rightarrow> listener \<times> int list" where
  "stn_mining_listener_close l =
     (if ls_socket l = STN_INVALID_SOCKET then (l, [])
      else (l\<lparr>ls_socket := STN_INVALID_SOCKET\<rparr>, stn_mining_socket_close (ls_socket l)))"

text \<open>
  What \<open>accept\<close> will return. A connection has a descriptor (not negative, by POSIX), the
  outcome of making it non-blocking, and its future traffic.
\<close>

datatype accept_event =
    Accept_Conn nat bool "recv_event list" "send_event list"
  | Accept_Eintr
  | Accept_Again
  | Accept_Fail

type_synonym conn = "int \<times> recv_event list \<times> send_event list"

text \<open>The result (1, 0 or -1), the connection, the script left, the descriptors closed.\<close>

fun listener_accept_loop :: "accept_event list \<Rightarrow> int \<times> conn option \<times> accept_event list \<times> int list" where
  "listener_accept_loop [] = (0, None, [], [])"
| "listener_accept_loop (Accept_Eintr # es) = listener_accept_loop es"
| "listener_accept_loop (Accept_Again # es) = (0, None, es, [])"
| "listener_accept_loop (Accept_Fail # es) = (- 1, None, es, [])"
| "listener_accept_loop (Accept_Conn fd nonblocking ins sends # es) =
     (if \<not> nonblocking then (- 1, None, es, stn_mining_socket_close (int fd))
      else (1, Some (int fd, ins, sends), es, []))"

definition stn_mining_listener_accept ::
  "listener \<Rightarrow> accept_event list \<Rightarrow> int \<times> conn option \<times> accept_event list \<times> int list" where
  "stn_mining_listener_accept l es =
     (if ls_socket l = STN_INVALID_SOCKET then (- 1, None, es, []) else listener_accept_loop es)"

section \<open>The acceptor\<close>

text \<open>
  The result, the session, and what is left of the scripts; \<open>cid\<close> is the identity the new
  object gets. The script of allocations is consulted only when \<open>calloc\<close> is reached.
\<close>

definition stn_session_acceptor_accept ::
  "listener \<Rightarrow> accept_event list \<Rightarrow> bool list \<Rightarrow> nat \<Rightarrow>
   int \<times> session option \<times> accept_event list \<times> bool list \<times> int list" where
  "stn_session_acceptor_accept l es mem cid =
     (case stn_mining_listener_accept l es of
        (result, conn, es, closed) \<Rightarrow>
          (case conn of
             None \<Rightarrow> (result, None, es, mem, closed)
           | Some (socket_fd, ins, sends) \<Rightarrow>
               (let mode = stn_client_mode_init (ls_mode l) in
                if \<not> stn_client_mode_valid (Some mode)
                then (- 1, None, es, mem, closed @ stn_mining_socket_close socket_fd)
                else
                  (case alloc_next mem of (got, mem) \<Rightarrow>
                     if \<not> got then (- 1, None, es, mem, closed @ stn_mining_socket_close socket_fd)
                     else (1, Some (stn_client_session_init cid ins sends socket_fd mode), es, mem, closed)))))"

definition stn_session_acceptor_release :: "session \<Rightarrow> session \<times> int list" where
  "stn_session_acceptor_release c =
     (if sess_socket c \<noteq> STN_INVALID_SOCKET
      then (c\<lparr>sess_socket := STN_INVALID_SOCKET\<rparr>, stn_mining_socket_close (sess_socket c))
      else (c, []))"

section \<open>Accepting and releasing\<close>

fun conn_fds :: "accept_event list \<Rightarrow> int list" where
  "conn_fds [] = []"
| "conn_fds (Accept_Conn fd nonblocking ins sends # es) = int fd # conn_fds es"
| "conn_fds (_ # es) = conn_fds es"

lemma socket_close_int [simp]: "stn_mining_socket_close (int fd) = [int fd]"
  by (simp add: stn_mining_socket_close_def)

text \<open>The part of the script that was used yields the descriptors closed, then those kept.\<close>

definition accounted :: "accept_event list \<Rightarrow> accept_event list \<Rightarrow> int list \<Rightarrow> int list \<Rightarrow> bool" where
  "accounted es es' closed kept \<longleftrightarrow> (\<exists>pre. es = pre @ es' \<and> conn_fds pre = closed @ kept)"

lemma accounted_same [simp]: "accounted es es [] []"
  by (simp add: accounted_def)

lemma accounted_Cons: "conn_fds [e] = [] \<Longrightarrow> accounted es es' c k \<Longrightarrow> accounted (e # es) es' c k"
  by (cases e) (auto simp: accounted_def intro: exI [of _ "e # _"])

lemma accounted_conn:
  "accounted (Accept_Conn fd nb ins sends # es) es [int fd] []"
  "accounted (Accept_Conn fd nb ins sends # es) es [] [int fd]"
  by (auto simp: accounted_def intro!: exI [of _ "[Accept_Conn fd nb ins sends]"])

lemma accept_loop_accounts:
  "listener_accept_loop es = (r, conn, es', closed) \<Longrightarrow>
   accounted es es' closed (case conn of None \<Rightarrow> [] | Some (fd, _) \<Rightarrow> [fd])"
  by (induction es rule: listener_accept_loop.induct)
    (auto split: if_splits intro: accounted_Cons accounted_conn)

lemma accept_loop_result:
  "listener_accept_loop es = (r, conn, es', closed) \<Longrightarrow>
   (case conn of None \<Rightarrow> r = 0 \<or> r = - 1 | Some (fd, _) \<Rightarrow> r = 1 \<and> 0 \<le> fd)"
  by (induction es rule: listener_accept_loop.induct) (auto split: if_splits)

lemma listener_accept_accounts:
  assumes "stn_mining_listener_accept l es = (r, conn, es', closed)"
  shows "accounted es es' closed (case conn of None \<Rightarrow> [] | Some (fd, _) \<Rightarrow> [fd])"
    and "case conn of None \<Rightarrow> r = 0 \<or> r = - 1 | Some (fd, _) \<Rightarrow> r = 1 \<and> 0 \<le> fd"
  using assms accept_loop_accounts [of es r conn es' closed] accept_loop_result [of es r conn es' closed]
  by (auto simp: stn_mining_listener_accept_def split: if_splits)

lemma acceptor_accounted:
  assumes "stn_session_acceptor_accept l es mem cid = (r, s, es', mem', closed)"
  shows "accounted es es' closed (case s of None \<Rightarrow> [] | Some c \<Rightarrow> [sess_socket c])"
proof -
  obtain r1 conn es1 closed1 where acc: "stn_mining_listener_accept l es = (r1, conn, es1, closed1)"
    by (cases "stn_mining_listener_accept l es")
  note facts = listener_accept_accounts [OF acc]
  then show ?thesis
    using assms acc
    by (auto simp: stn_session_acceptor_accept_def Let_def stn_client_session_init_def accounted_def
        stn_mining_socket_close_def split: option.splits if_splits prod.splits)
qed

lemma acceptor_session:
  assumes "stn_session_acceptor_accept l es mem cid = (r, s, es', mem', closed)"
  shows "(r = 1 \<longleftrightarrow> s \<noteq> None) \<and> r \<in> {- 1, 0, 1} \<and>
    (\<forall>c. s = Some c \<longrightarrow>
       c = stn_client_session_init cid (sess_in c) (sess_sends c) (sess_socket c) (stn_client_mode_init (ls_mode l)) \<and>
       stn_client_mode_valid (Some (sess_mode c)) \<and> 0 \<le> sess_socket c)"
proof -
  obtain r1 conn es1 closed1 where acc: "stn_mining_listener_accept l es = (r1, conn, es1, closed1)"
    by (cases "stn_mining_listener_accept l es")
  show ?thesis
    using assms acc listener_accept_accounts(2) [OF acc]
    by (auto simp: stn_session_acceptor_accept_def Let_def stn_client_session_init_def
        split: option.splits if_splits prod.splits)
qed

text \<open>
  C31. Accepting a miner leaks no connection: every descriptor that \<open>accept\<close>
  returned while the acceptor ran is either closed by it or is the socket of the one session it
  hands out, and it hands out a session exactly when it reports 1. The mode of the session is the
  mode of the listener, it is a valid one, and the session starts with no address, no job and an
  empty receive buffer.
\<close>

theorem acceptor_accounts:
  assumes "stn_session_acceptor_accept l es mem cid = (r, s, es', mem', closed)"
  shows "(\<exists>pre. es = pre @ es' \<and>
      conn_fds pre = closed @ (case s of None \<Rightarrow> [] | Some c \<Rightarrow> [sess_socket c])) \<and>
    (r = 1 \<longleftrightarrow> s \<noteq> None) \<and> r \<in> {- 1, 0, 1} \<and>
    (\<forall>c. s = Some c \<longrightarrow> sess_mode c = stn_client_mode_init (ls_mode l) \<and>
       stn_client_mode_valid (Some (sess_mode c)) \<and> sess_id c = cid \<and> 0 \<le> sess_socket c \<and>
       \<not> address_registered c \<and> \<not> has_job c \<and> rx_used c = 0 \<and> hashrate c = 0)"
proof -
  have init: "sess_mode c = m \<and> sess_id c = i \<and> \<not> address_registered c \<and> \<not> has_job c \<and> rx_used c = 0 \<and>
      hashrate c = 0" if "c = stn_client_session_init i ins sends fd m" for c i ins sends fd m
    using that by (simp add: stn_client_session_init_def)
  note acc = acceptor_accounted [OF assms, unfolded accounted_def]
  show ?thesis
  proof (cases s)
    case None
    then show ?thesis using acc acceptor_session [OF assms] by auto
  next
    case (Some c)
    with acceptor_session [OF assms] have eq: "c = stn_client_session_init cid (sess_in c) (sess_sends c)
        (sess_socket c) (stn_client_mode_init (ls_mode l))"
      and rest: "r = 1" "stn_client_mode_valid (Some (sess_mode c))" "0 \<le> sess_socket c" by blast+
    show ?thesis using acc rest init [OF eq] Some by simp
  qed
qed


theorem acceptor_accounts_witness:
  "sess_socket (stn_client_session_init 4 [] [] 9 (stn_client_mode_init STN_SERVICE_MODE_SOLO)) = 9"
proof -
  let ?l = "(stn_mining_listener_init STN_SERVICE_MODE_SOLO)\<lparr>ls_socket := 3\<rparr>"
  have "stn_session_acceptor_accept ?l [Accept_Eintr, Accept_Conn 9 True [] []] [] 4 =
      (1, Some (stn_client_session_init 4 [] [] 9 (stn_client_mode_init STN_SERVICE_MODE_SOLO)), [], [], [])"
    by (simp add: stn_session_acceptor_accept_def stn_mining_listener_accept_def
        stn_mining_listener_init_def stn_client_mode_valid_def stn_client_mode_init_def)
  from acceptor_accounts [OF this] show ?thesis by (auto simp: stn_client_session_init_def)
qed

text \<open>
  Opening a listener either gives it the new socket, with every setup
  call done, or leaves it as it was and closes the socket it had created: no descriptor is lost on
  any error path, and a mode without a port never opens one.
\<close>

theorem listener_open_outcome:
  assumes "stn_mining_listener_open e l = (ok, l', closed)"
  shows "(ok \<longleftrightarrow> ls_port l \<noteq> 0 \<and> 0 \<le> oe_socket e \<and> oe_setsockopt e \<and> oe_bind e \<and> oe_listen e \<and>
                oe_getfl e \<and> oe_setfl e) \<and>
    (ok \<longrightarrow> l' = l\<lparr>ls_socket := oe_socket e\<rparr> \<and> closed = []) \<and>
    (\<not> ok \<longrightarrow> l' = l \<and> closed = (if ls_port l \<noteq> 0 \<and> 0 \<le> oe_socket e then [oe_socket e] else []))"
  using assms
  by (auto simp: stn_mining_listener_open_def stn_mining_socket_close_def Let_def split: if_splits)

theorem listener_open_outcome_witness:
  "snd (snd (stn_mining_listener_open
      \<lparr>oe_socket = 7, oe_setsockopt = True, oe_bind = False, oe_listen = True, oe_getfl = True, oe_setfl = True\<rparr>
      (stn_mining_listener_init STN_SERVICE_MODE_POOL))) = [7]"
proof -
  have "stn_mining_listener_open
      \<lparr>oe_socket = 7, oe_setsockopt = True, oe_bind = False, oe_listen = True, oe_getfl = True, oe_setfl = True\<rparr>
      (stn_mining_listener_init STN_SERVICE_MODE_POOL) =
    (False, stn_mining_listener_init STN_SERVICE_MODE_POOL, [7])"
    by (simp add: stn_mining_listener_open_def stn_mining_listener_init_def stn_mining_socket_close_def)
  from listener_open_outcome [OF this] show ?thesis
    by (simp add: stn_mining_listener_open_def stn_mining_listener_init_def stn_mining_socket_close_def)
qed

end
