(* ===== verification/Rpc_Transport.thy ===== *)
theory Rpc_Transport
  imports Rpc_Client Sessions
begin

text \<open>
  The transports of the Chain RPC client: \<^verbatim>\<open>platforms/linux/stn_rpc_linux.c\<close> and
  \<^verbatim>\<open>platforms/windows/stn_rpc_win32.c\<close>. Both keep one connection to the Chain server,
  send a frame, read a frame, and repeat a failed exchange once when the request is a read.
  The locale \<open>rpc_transport\<close> is the contract that the client and the server use; both
  transports are interpretations of it.

  What name resolution, the connections and the traffic on them will do is a script. An
  address is one entry of the list \<open>getaddrinfo\<close> returns; a script that is used up means that
  resolution fails. The requests put on a connection are recorded, with the number of bytes
  that were sent.
\<close>

section \<open>Resolution and connection\<close>

text \<open>
  One address: \<open>socket\<close> fails, or \<open>connect\<close> fails, or the connection is made; then whether
  the timeouts can be set, and the traffic of the connection.
\<close>

datatype addr_event =
    Addr_No_Socket
  | Addr_Refused int
  | Addr_Connected int bool "recv_event list" "send_event list"

type_synonym connection = "int \<times> bool \<times> recv_event list \<times> send_event list"

text \<open>The loop over the addresses: the connection made, and the descriptors closed on the way.\<close>

fun connect_addrs :: "addr_event list \<Rightarrow> connection option \<times> int list" where
  "connect_addrs [] = (None, [])"
| "connect_addrs (Addr_No_Socket # as) = connect_addrs as"
| "connect_addrs (Addr_Refused fd # as) =
     (case connect_addrs as of (c, closed) \<Rightarrow> (c, fd # closed))"
| "connect_addrs (Addr_Connected fd timeouts ins sends # as) = (Some (fd, timeouts, ins, sends), [])"

text \<open>The transport state; \<open>tp_winsock\<close> is used on Windows only.\<close>

record transport =
  tp_host :: "bytes option"
  tp_port :: u16
  tp_socket :: int
  tp_winsock :: bool
  tp_in :: "recv_event list"
  tp_sends :: "send_event list"
  tp_resolve :: "addr_event list option list"
  tp_wsa :: "bool list"
  tp_closed :: "int list"
  tp_wire :: "(bytes \<times> nat) list"

definition take_resolve :: "transport \<Rightarrow> addr_event list option \<times> transport" where
  "take_resolve t =
     (case tp_resolve t of [] \<Rightarrow> (None, t) | r # rs \<Rightarrow> (r, t\<lparr>tp_resolve := rs\<rparr>))"

definition drop_socket :: "transport \<Rightarrow> transport" where
  "drop_socket t =
     (if tp_socket t \<noteq> STN_INVALID_SOCKET
      then t\<lparr>tp_socket := STN_INVALID_SOCKET, tp_closed := tp_closed t @ [tp_socket t]\<rparr>
      else t)"

definition connect_socket :: "transport \<Rightarrow> bool \<times> transport" where
  "connect_socket t =
     (if tp_socket t \<noteq> STN_INVALID_SOCKET then (True, t)
      else
        (case take_resolve t of (result, t) \<Rightarrow>
          (case result of
             None \<Rightarrow> (False, t)
           | Some addrs \<Rightarrow>
             (case connect_addrs addrs of (conn, closed) \<Rightarrow>
               (let t = t\<lparr>tp_closed := tp_closed t @ closed\<rparr> in
                case conn of
                  None \<Rightarrow> (False, t)
                | Some (fd, timeouts, ins, sends) \<Rightarrow>
                    if \<not> timeouts then (False, t\<lparr>tp_closed := tp_closed t @ [fd]\<rparr>)
                    else (True, t\<lparr>tp_socket := fd, tp_in := ins, tp_sends := sends\<rparr>))))))"

text \<open>
  \<open>recv_all\<close>: whether \<open>n\<close> bytes arrived, the script left, the bytes. On a socket with a receive
  timeout an empty script is a timeout.
\<close>

function recv_all :: "nat \<Rightarrow> recv_event list \<Rightarrow> bool \<times> recv_event list \<times> bytes" where
  "recv_all n es =
     (if n = 0 then (True, es, [])
      else
        (case sock_recv n es of
           (Got d, es') \<Rightarrow>
             (case recv_all (n - length d) es' of (ok, es'', rest) \<Rightarrow> (ok, es'', d @ rest))
         | (Got_Eintr, es') \<Rightarrow> recv_all n es'
         | (_, es') \<Rightarrow> (False, es', [])))"
  by pat_completeness auto
termination
  by (relation "measure (\<lambda>(n, es). pending es)") (auto dest!: sock_recv_Got [OF sym] sock_recv_Eintr [OF sym])

declare recv_all.simps [simp del]

text \<open>
  The Windows loops: at most \<open>INT_MAX\<close> bytes a call, and an interrupted call is a failure like
  any other.
\<close>

abbreviation (input) "INT_MAX \<equiv> (2147483647 :: nat)"

fun win32_send_all :: "send_event list \<Rightarrow> bytes \<Rightarrow> bool \<times> send_event list \<times> bytes" where
  "win32_send_all es [] = (True, es, [])"
| "win32_send_all [] p = (True, [], p)"
| "win32_send_all (Send_Eintr # es) p = (False, es, [])"
| "win32_send_all (Send_Fail # es) p = (False, es, [])"
| "win32_send_all (Send_Some k # es) p =
     (if k = 0 then (False, es, [])
      else
        (let chunk = min (length p) INT_MAX; sent = min k chunk
         in case win32_send_all es (drop sent p) of
              (ok, es', out) \<Rightarrow> (ok, es', take sent p @ out)))"

function win32_recv_all :: "nat \<Rightarrow> recv_event list \<Rightarrow> bool \<times> recv_event list \<times> bytes" where
  "win32_recv_all n es =
     (if n = 0 then (True, es, [])
      else
        (case sock_recv (min n INT_MAX) es of
           (Got d, es') \<Rightarrow>
             (case win32_recv_all (n - length d) es' of (ok, es'', rest) \<Rightarrow> (ok, es'', d @ rest))
         | (_, es') \<Rightarrow> (False, es', [])))"
  by pat_completeness auto
termination
  by (relation "measure (\<lambda>(n, es). pending es)") (auto dest!: sock_recv_Got [OF sym])

declare win32_recv_all.simps [simp del]

type_synonym sender = "send_event list \<Rightarrow> bytes \<Rightarrow> bool \<times> send_event list \<times> bytes"
type_synonym receiver = "nat \<Rightarrow> recv_event list \<Rightarrow> bool \<times> recv_event list \<times> bytes"

definition tp_send :: "sender \<Rightarrow> transport \<Rightarrow> bytes \<Rightarrow> bool \<times> transport" where
  "tp_send snd_all t request =
     (case snd_all (tp_sends t) request of (ok, sends, out) \<Rightarrow>
        (ok, t\<lparr>tp_sends := sends, tp_wire := tp_wire t @ [(request, length out)]\<rparr>))"

definition tp_recv :: "receiver \<Rightarrow> transport \<Rightarrow> nat \<Rightarrow> bool \<times> transport \<times> bytes" where
  "tp_recv rcv_all t n = (case rcv_all n (tp_in t) of (ok, es, d) \<Rightarrow> (ok, t\<lparr>tp_in := es\<rparr>, d))"

text \<open>One exchange over the current connection, or over a new one made by \<open>connect\<close>.\<close>

definition exchange_with ::
  "(transport \<Rightarrow> bool \<times> transport) \<Rightarrow> sender \<Rightarrow> receiver \<Rightarrow>
   transport \<Rightarrow> bytes \<Rightarrow> nat \<Rightarrow> transport \<times> bytes option" where
  "exchange_with connect snd_all rcv_all t request response_capacity =
     (case connect t of (ok, t) \<Rightarrow>
        if \<not> ok then (t, None)
        else
          (case tp_send snd_all t request of (ok, t) \<Rightarrow>
             if \<not> ok then (drop_socket t, None)
             else
               (case tp_recv rcv_all t 24 of (ok, t, response) \<Rightarrow>
                  if \<not> ok then (drop_socket t, None)
                  else
                    (let payload_length = read32be response 20;
                         frame_length = 24 + unat payload_length
                     in if frame_length > response_capacity then (drop_socket t, None)
                        else if payload_length \<noteq> 0 then
                          (case tp_recv rcv_all t (unat payload_length) of (ok, t, payload) \<Rightarrow>
                             if \<not> ok then (drop_socket t, None)
                             else (t, Some (response @ payload)))
                        else (t, Some response)))))"

text \<open>The requests that may be sent twice: INFO and MINING\_TEMPLATE.\<close>

definition read_request :: "bytes \<Rightarrow> bool" where
  "read_request request \<longleftrightarrow>
     \<not> (length request < 24 \<or>
        \<not> ((request ! 8 = 0x00 \<and> request ! 9 = 0x01) \<or>
           (request ! 8 = 0x20 \<and> request ! 9 = 0x02)))"

section \<open>The two transports\<close>

definition exchange_once :: "transport exchange" where
  "exchange_once = exchange_with connect_socket send_all recv_all"

definition stn_rpc_linux_init :: "transport \<Rightarrow> bytes option \<Rightarrow> u16 \<Rightarrow> transport" where
  "stn_rpc_linux_init t host port =
     t\<lparr>tp_host := host, tp_port := port, tp_socket := STN_INVALID_SOCKET\<rparr>"

definition stn_rpc_linux_close :: "transport \<Rightarrow> transport" where
  "stn_rpc_linux_close t = drop_socket t"

definition stn_rpc_linux_exchange :: "transport exchange" where
  "stn_rpc_linux_exchange t request response_capacity =
     (if tp_host t = None \<or> response_capacity < 24 then (t, None)
      else
        (case exchange_once t request response_capacity of
           (t, Some response) \<Rightarrow> (t, Some response)
         | (t, None) \<Rightarrow>
             if \<not> read_request request then (t, None)
             else exchange_once t request response_capacity))"

definition ensure_winsock :: "transport \<Rightarrow> bool \<times> transport" where
  "ensure_winsock t =
     (if tp_winsock t then (True, t)
      else
        (case alloc_next (tp_wsa t) of (started, wsa) \<Rightarrow>
           if \<not> started then (False, t\<lparr>tp_wsa := wsa\<rparr>)
           else (True, t\<lparr>tp_wsa := wsa, tp_winsock := True\<rparr>)))"

definition win32_connect_socket :: "transport \<Rightarrow> bool \<times> transport" where
  "win32_connect_socket t =
     (if tp_socket t \<noteq> STN_INVALID_SOCKET then (True, t)
      else
        (case ensure_winsock t of (ok, t) \<Rightarrow> if \<not> ok then (False, t) else connect_socket t))"

definition win32_exchange_once :: "transport exchange" where
  "win32_exchange_once = exchange_with win32_connect_socket win32_send_all win32_recv_all"

definition stn_rpc_win32_init :: "transport \<Rightarrow> bytes option \<Rightarrow> u16 \<Rightarrow> transport" where
  "stn_rpc_win32_init t host port =
     t\<lparr>tp_host := host, tp_port := port, tp_socket := STN_INVALID_SOCKET, tp_winsock := False\<rparr>"

definition stn_rpc_win32_close :: "transport \<Rightarrow> transport" where
  "stn_rpc_win32_close t =
     (let t = drop_socket t in if tp_winsock t then t\<lparr>tp_winsock := False\<rparr> else t)"

definition stn_rpc_win32_exchange :: "transport exchange" where
  "stn_rpc_win32_exchange t request response_capacity =
     (if tp_host t = None \<or> response_capacity < 24 then (t, None)
      else
        (case win32_exchange_once t request response_capacity of
           (t, Some response) \<Rightarrow> (t, Some response)
         | (t, None) \<Rightarrow>
             if \<not> read_request request then (t, None)
             else win32_exchange_once t request response_capacity))"

section \<open>One exchange\<close>

lemma recv_all_length: "recv_all n es = (True, es', d) \<Longrightarrow> length d = n"
proof (induction n es arbitrary: d rule: recv_all.induct)
  case (1 n es)
  obtain x es1 where s: "sock_recv n es = (x, es1)" by fastforce
  show ?case
  proof (cases "n = 0")
    case True
    then show ?thesis using "1.prems" by (simp add: recv_all.simps [of 0 es])
  next
    case False
    from "1.prems" have run: "(case (x, es1) of
           (Got d, es') \<Rightarrow>
             (case recv_all (n - length d) es' of (ok, es'', rest) \<Rightarrow> (ok, es'', d @ rest))
         | (Got_Eintr, es') \<Rightarrow> recv_all n es'
         | (_, es') \<Rightarrow> (False, es', [])) = (True, es', d)"
      unfolding recv_all.simps [of n es] s using False by (simp only: if_False)
    show ?thesis
    proof (cases x)
      case (Got d1)
      with run obtain rest where rest: "recv_all (n - length d1) es1 = (True, es', rest)" "d = d1 @ rest"
        by (auto split: prod.splits)
      have "length d1 \<le> n"
        using sock_recv_Got [OF s [unfolded Got]] False by simp
      moreover have "length rest = n - length d1"
        by (rule "1.IH"(1) [OF False s [symmetric] Got rest(1)])
      ultimately show ?thesis by (simp add: rest(2))
    next
      case Got_Eintr
      with run show ?thesis using "1.IH"(2) [OF False s [symmetric] Got_Eintr] by simp
    qed (use run in simp_all)
  qed
qed

lemma win32_recv_all_length: "win32_recv_all n es = (True, es', d) \<Longrightarrow> length d = n"
proof (induction n es arbitrary: d rule: win32_recv_all.induct)
  case (1 n es)
  obtain x es1 where s: "sock_recv (min n INT_MAX) es = (x, es1)" by fastforce
  show ?case
  proof (cases "n = 0")
    case True
    then show ?thesis using "1.prems" by (simp add: win32_recv_all.simps [of 0 es])
  next
    case False
    from "1.prems" have run: "(case (x, es1) of
           (Got d, es') \<Rightarrow>
             (case win32_recv_all (n - length d) es' of (ok, es'', rest) \<Rightarrow> (ok, es'', d @ rest))
         | (_, es') \<Rightarrow> (False, es', [])) = (True, es', d)"
      unfolding win32_recv_all.simps [of n es] s using False by (simp only: if_False)
    show ?thesis
    proof (cases x)
      case (Got d1)
      with run obtain rest where rest: "win32_recv_all (n - length d1) es1 = (True, es', rest)" "d = d1 @ rest"
        by (auto split: prod.splits)
      have "length d1 \<le> n"
        using sock_recv_Got [OF s [unfolded Got]] False by simp
      moreover have "length rest = n - length d1"
        by (rule "1.IH"(1) [OF False s [symmetric] Got rest(1)])
      ultimately show ?thesis by (simp add: rest(2))
    qed (use run in simp_all)
  qed
qed

lemma drop_socket_simps [simp]:
  "tp_socket (drop_socket t) = STN_INVALID_SOCKET" "tp_wire (drop_socket t) = tp_wire t"
  "tp_host (drop_socket t) = tp_host t" "tp_in (drop_socket t) = tp_in t"
  by (simp_all add: drop_socket_def)

lemma exchange_with_Some:
  assumes "exchange_with connect snd_all rcv_all t request cap = (t', Some r)"
  shows "\<exists>es es' response. rcv_all 24 es = (True, es', response) \<and>
    24 + unat (read32be response 20) \<le> cap \<and>
    (r = response \<and> read32be response 20 = 0 \<or>
     (\<exists>es1 es2 payload. rcv_all (unat (read32be response 20)) es1 = (True, es2, payload) \<and>
        r = response @ payload))"
proof -
  from assms obtain u es response where h: "rcv_all 24 (tp_in u) = (True, es, response)"
      "24 + unat (read32be response 20) \<le> cap"
    and r: "(if read32be response 20 \<noteq> 0 then
          (case tp_recv rcv_all (u\<lparr>tp_in := es\<rparr>) (unat (read32be response 20)) of (ok, t, payload) \<Rightarrow>
             if \<not> ok then (drop_socket t, None) else (t, Some (response @ payload)))
        else (u\<lparr>tp_in := es\<rparr>, Some response)) = (t', Some r)"
    by (auto simp: exchange_with_def tp_recv_def [of _ _ 24] Let_def not_less
        split: prod.splits if_splits)
  show ?thesis
  proof (cases "read32be response 20 = 0")
    case True
    then have "r = response" using r by simp
    with True h show ?thesis by blast
  next
    case False
    then obtain es2 payload where "rcv_all (unat (read32be response 20)) es = (True, es2, payload)"
      "r = response @ payload"
      using r by (auto simp: tp_recv_def split: prod.splits if_splits)
    then show ?thesis using h by blast
  qed
qed

lemma exchange_with_frame:
  assumes "exchange_with connect snd_all rcv_all t request cap = (t', Some r)"
    and rcv: "\<And>n es es' d. rcv_all n es = (True, es', d) \<Longrightarrow> length d = n"
  shows "24 \<le> length r \<and> length r \<le> cap \<and> be_nat (bytes_at 20 4 r) = length r - 24"
proof -
  from exchange_with_Some [OF assms(1)] obtain es es' response payload where
    h: "rcv_all 24 es = (True, es', response)" "24 + unat (read32be response 20) \<le> cap"
    and p: "length payload = unat (read32be response 20)" and r: "r = response @ payload"
    using rcv by (metis append_Nil2 list.size(3) unat_0)
  from rcv [OF h(1)] have len: "length response = 24" .
  then have "unat (read32be response 20) = be_nat (bytes_at 20 4 r)"
    by (simp add: srv32.get_value r buf_simps)
  then show ?thesis using h p len by (simp add: r)
qed

lemma exchange_with_wire:
  assumes "exchange_with connect snd_all rcv_all t request cap = (t', r)"
    and "\<And>ok u. connect t = (ok, u) \<Longrightarrow> tp_wire u = tp_wire t"
  shows "tp_wire t' = tp_wire t \<or> (\<exists>k. tp_wire t' = tp_wire t @ [(request, k)])"
  using assms
  by (auto simp: exchange_with_def tp_recv_def tp_send_def Let_def split: prod.splits if_splits)

lemma exchange_with_None:
  assumes "exchange_with connect snd_all rcv_all t request cap = (t', None)"
    and "\<And>u. connect t = (False, u) \<Longrightarrow> tp_socket u = STN_INVALID_SOCKET"
  shows "tp_socket t' = STN_INVALID_SOCKET"
  using assms
  by (auto simp: exchange_with_def tp_recv_def tp_send_def Let_def split: prod.splits if_splits)

lemma connect_socket_wire: "connect_socket t = (ok, u) \<Longrightarrow> tp_wire u = tp_wire t"
  by (auto simp: connect_socket_def take_resolve_def Let_def
      split: prod.splits if_splits option.splits list.splits)

lemma connect_socket_False: "connect_socket t = (False, u) \<Longrightarrow> tp_socket u = STN_INVALID_SOCKET"
  by (auto simp: connect_socket_def take_resolve_def Let_def
      split: prod.splits if_splits option.splits list.splits)

lemma ensure_winsock_simps:
  "ensure_winsock t = (ok, u) \<Longrightarrow> tp_wire u = tp_wire t \<and> tp_socket u = tp_socket t"
  by (auto simp: ensure_winsock_def split: prod.splits if_splits)

lemma win32_connect_wire: "win32_connect_socket t = (ok, u) \<Longrightarrow> tp_wire u = tp_wire t"
  by (auto simp: win32_connect_socket_def split: prod.splits if_splits
      dest!: ensure_winsock_simps connect_socket_wire)

lemma win32_connect_False: "win32_connect_socket t = (False, u) \<Longrightarrow> tp_socket u = STN_INVALID_SOCKET"
  by (auto simp: win32_connect_socket_def split: prod.splits if_splits
      dest!: ensure_winsock_simps connect_socket_False)

section \<open>The contract of a transport\<close>

text \<open>
  A reply is a whole frame that fits the caller's buffer, and whose length field counts its
  payload; \<open>sent\<close> records every request put on the wire, and only a read may be repeated.
\<close>

locale rpc_transport =
  fixes exchange :: "'u exchange"
    and sent :: "'u \<Rightarrow> (bytes \<times> nat) list"
  assumes frame: "exchange u request cap = (u', Some r) \<Longrightarrow>
      24 \<le> length r \<and> length r \<le> cap \<and> be_nat (bytes_at 20 4 r) = length r - 24"
    and once: "exchange u request cap = (u', reply) \<Longrightarrow>
      \<exists>ws. sent u' = sent u @ ws \<and> (\<forall>w \<in> set ws. fst w = request) \<and>
        length ws \<le> (if read_request request then 2 else 1)"
begin

lemma reply_length:
  assumes "exchange u request (24 + cap) = (u', Some r)"
  shows "\<not> (length r < 24 \<or> length r > 24 + cap)"
    and "unat (ucast (read_be r 20 4) :: u32) = length r - 24"
proof -
  from frame [OF assms] have f: "24 \<le> length r" "length r \<le> 24 + cap"
    "be_nat (bytes_at 20 4 r) = length r - 24" by auto
  then show "\<not> (length r < 24 \<or> length r > 24 + cap)" by simp
  have "unat (ucast (read_be r 20 4) :: u32) = be_nat (bytes_at 20 4 r)"
    using f by (intro unat_read_be_ucast) simp_all
  then show "unat (ucast (read_be r 20 4) :: u32) = length r - 24" using f by simp
qed

text \<open>Every call puts only its own request on the wire, a mutation at most once.\<close>

lemma call_sent:
  assumes "rc_exchange c = Some exchange" "rpc_call c m payload n cap = (c', code, p)"
  shows "\<exists>i ws. sent (transport_user c') = sent (transport_user c) @ ws \<and>
    (\<forall>w \<in> set ws. fst w = rpc_request m i (case payload of None \<Rightarrow> [] | Some q \<Rightarrow> q) n) \<and>
    length ws \<le> (if read_request (rpc_request m i (case payload of None \<Rightarrow> [] | Some q \<Rightarrow> q) n) then 2 else 1)"
proof -
  have none: ?thesis if "transport_user c' = transport_user c"
    using that by (intro exI [of _ 0] exI [of _ "[]"]) simp
  show ?thesis
    using assms none
    by (auto simp: rpc_call_def rpc_take_id_eq Let_def split: prod.splits if_splits option.splits
        dest!: once intro: exI)
qed

end

lemma linux_frame:
  "stn_rpc_linux_exchange t request cap = (t', Some r) \<Longrightarrow>
   24 \<le> length r \<and> length r \<le> cap \<and> be_nat (bytes_at 20 4 r) = length r - 24"
  by (auto simp: stn_rpc_linux_exchange_def exchange_once_def split: if_splits prod.splits option.splits
      dest: exchange_with_frame [OF _ recv_all_length])

lemma win32_frame:
  "stn_rpc_win32_exchange t request cap = (t', Some r) \<Longrightarrow>
   24 \<le> length r \<and> length r \<le> cap \<and> be_nat (bytes_at 20 4 r) = length r - 24"
  by (auto simp: stn_rpc_win32_exchange_def win32_exchange_once_def split: if_splits prod.splits option.splits
      dest: exchange_with_frame [OF _ win32_recv_all_length])

definition wire_grows :: "transport \<Rightarrow> transport \<Rightarrow> bytes \<Rightarrow> nat \<Rightarrow> bool" where
  "wire_grows t t' request k \<longleftrightarrow>
     (\<exists>ws. tp_wire t' = tp_wire t @ ws \<and> (\<forall>w \<in> set ws. fst w = request) \<and> length ws \<le> k)"

lemma wire_grows_refl: "wire_grows t t request k"
  by (simp add: wire_grows_def)

lemma wire_grows_trans: "wire_grows t u request j \<Longrightarrow> wire_grows u v request k \<Longrightarrow> wire_grows t v request (j + k)"
  unfolding wire_grows_def by (elim exE conjE, rule_tac x = "ws @ wsa" in exI) auto

lemma exchange_with_grows:
  assumes "exchange_with connect snd_all rcv_all t request cap = (t', r)"
    and "\<And>ok u. connect t = (ok, u) \<Longrightarrow> tp_wire u = tp_wire t"
  shows "wire_grows t t' request 1"
proof -
  have "tp_wire t' = tp_wire t \<or> (\<exists>k. tp_wire t' = tp_wire t @ [(request, k)])"
    by (rule exchange_with_wire [OF assms(1)]) (rule assms(2))
  then show ?thesis by (auto simp: wire_grows_def)
qed

lemma wire_grows_mono: "wire_grows t t' request j \<Longrightarrow> j \<le> k \<Longrightarrow> wire_grows t t' request k"
  by (auto simp: wire_grows_def)

lemma linux_once_grows:
  "stn_rpc_linux_exchange t request cap = (t', r) \<Longrightarrow>
   wire_grows t t' request (if read_request request then 2 else 1)"
  using wire_grows_trans [of t _ request 1 t' 1]
  by (auto simp: stn_rpc_linux_exchange_def exchange_once_def numeral_2_eq_2
      split: if_splits prod.splits option.splits
      dest!: exchange_with_grows [OF _ connect_socket_wire] intro: wire_grows_refl wire_grows_mono)

lemma win32_once_grows:
  "stn_rpc_win32_exchange t request cap = (t', r) \<Longrightarrow>
   wire_grows t t' request (if read_request request then 2 else 1)"
  using wire_grows_trans [of t _ request 1 t' 1]
  by (auto simp: stn_rpc_win32_exchange_def win32_exchange_once_def numeral_2_eq_2
      split: if_splits prod.splits option.splits
      dest!: exchange_with_grows [OF _ win32_connect_wire] intro: wire_grows_refl wire_grows_mono)

interpretation linux: rpc_transport stn_rpc_linux_exchange tp_wire
  by unfold_locales (use linux_frame linux_once_grows in \<open>auto simp: wire_grows_def\<close>)

interpretation win32: rpc_transport stn_rpc_win32_exchange tp_wire
  by unfold_locales (use win32_frame win32_once_grows in \<open>auto simp: wire_grows_def\<close>)

lemma read_request_frame:
  "read_request (rpc_frame 1 m 0 i p) \<longleftrightarrow> be_bytes 2 m = [0, 1] \<or> be_bytes 2 m = [0x20, 2]"
proof -
  have "rpc_frame 1 m 0 i p ! 8 = be_bytes 2 m ! 0" "rpc_frame 1 m 0 i p ! 9 = be_bytes 2 m ! 1"
    by (simp_all add: rpc_frame_def nth_append del: nth_be_bytes)
  moreover have "be_bytes 2 m = [be_bytes 2 m ! 0, be_bytes 2 m ! 1]"
    by (simp add: be_bytes_def upt_rec)
  ultimately show ?thesis
    by (auto simp: read_request_def simp del: nth_be_bytes)
qed

lemma mutation_methods:
  "\<not> read_request (rpc_frame 1 STN_RPC_CLIENT_SUBMIT_WORK 0 i p)"
  "\<not> read_request (rpc_frame 1 STN_RPC_CLIENT_SUBMIT_SHARE 0 i p)"
  unfolding read_request_frame by (simp_all add: be_bytes_def upt_rec)

text \<open>
  C13. A submission is never put on the wire twice: on Linux and on Windows,
  a SUBMIT\_WORK or SUBMIT\_SHARE call transmits at most one frame, and that frame is its own
  request, whatever the connection does.
\<close>

theorem mutation_sent_once:
  assumes "rc_exchange c = Some stn_rpc_linux_exchange \<or> rc_exchange c = Some stn_rpc_win32_exchange"
    and "rpc_call c m (Some q) n cap = (c', code, p)" and "n \<le> length q"
    and "m = STN_RPC_CLIENT_SUBMIT_WORK \<or> m = STN_RPC_CLIENT_SUBMIT_SHARE"
  shows "\<exists>i ws. tp_wire (transport_user c') = tp_wire (transport_user c) @ ws \<and> length ws \<le> 1 \<and>
    (\<forall>w \<in> set ws. fst w = rpc_frame 1 m 0 i (take n q))"
proof -
  have "\<exists>i ws. tp_wire (transport_user c') = tp_wire (transport_user c) @ ws \<and>
      (\<forall>w \<in> set ws. fst w = rpc_frame 1 m 0 i (take n q)) \<and>
      length ws \<le> (if read_request (rpc_frame 1 m 0 i (take n q)) then 2 else 1)"
    using linux.call_sent [OF _ assms(2)] win32.call_sent [OF _ assms(2)] assms(1)
    unfolding option.case rpc_request_frame [OF assms(3)] by blast
  moreover have "\<not> read_request (rpc_frame 1 m 0 i (take n q))" for i
    using assms(4) mutation_methods by blast
  ultimately show ?thesis by (simp only: if_False) blast
qed

section \<open>Where the bytes of a reply come from\<close>

text \<open>
  The bytes a connection delivers, in order, up to the event that ends it; and the connections an exchange may use:
  the one that is open, or one that an address of a resolution still to come accepts.
\<close>

fun delivered :: "recv_event list \<Rightarrow> bytes" where
  "delivered (Recv_Data d # es) = d @ delivered es"
| "delivered (Recv_Eintr # es) = delivered es"
| "delivered _ = []"

definition usable_connection :: "transport \<Rightarrow> int \<Rightarrow> recv_event list \<Rightarrow> bool" where
  "usable_connection t fd ins \<longleftrightarrow>
     tp_socket t = fd \<and> fd \<noteq> STN_INVALID_SOCKET \<and> tp_in t = ins \<or>
     (\<exists>as sends. Some as \<in> set (tp_resolve t) \<and> Addr_Connected fd True ins sends \<in> set as)"

text \<open>The request went out in full on such a connection, and the next bytes that came in on it are the reply.\<close>

definition answered_by :: "transport \<Rightarrow> bytes \<Rightarrow> transport \<Rightarrow> bytes \<Rightarrow> bool" where
  "answered_by t request t' reply \<longleftrightarrow>
     (\<exists>fd ins before. usable_connection t fd ins \<and> tp_socket t' = fd \<and>
        tp_wire t' = before @ [(request, length request)] \<and> delivered ins = reply @ delivered (tp_in t'))"

lemma delivered_sock_recv:
  "sock_recv n es = (Got d, es') \<Longrightarrow> delivered es = d @ delivered es'"
  "sock_recv n es = (Got_Eintr, es') \<Longrightarrow> delivered es = delivered es'"
  by (induction n es rule: sock_recv.induct) (auto split: if_splits)

lemma recv_all_delivered: "recv_all n es = (True, es', d) \<Longrightarrow> delivered es = d @ delivered es'"
proof (induction n es arbitrary: d rule: recv_all.induct)
  case (1 n es)
  obtain x es1 where s: "sock_recv n es = (x, es1)" by fastforce
  show ?case
  proof (cases "n = 0")
    case False
    from "1.prems" show ?thesis
      unfolding recv_all.simps [of n es] s
      using "1.IH" [OF False s [symmetric]] delivered_sock_recv [of n es] s False
      by (cases x) (auto split: prod.splits)
  qed (use "1.prems" in \<open>simp add: recv_all.simps [of 0 es]\<close>)
qed

lemma win32_recv_all_delivered: "win32_recv_all n es = (True, es', d) \<Longrightarrow> delivered es = d @ delivered es'"
proof (induction n es arbitrary: d rule: win32_recv_all.induct)
  case (1 n es)
  obtain x es1 where s: "sock_recv (min n INT_MAX) es = (x, es1)" by fastforce
  show ?case
  proof (cases "n = 0")
    case False
    from "1.prems" show ?thesis
      unfolding win32_recv_all.simps [of n es] s
      using "1.IH" [OF False s [symmetric]] delivered_sock_recv [of "min n INT_MAX" es] s False
      by (cases x) (auto split: prod.splits)
  qed (use "1.prems" in \<open>simp add: win32_recv_all.simps [of 0 es]\<close>)
qed

lemma win32_send_all_ok: "win32_send_all es p = (True, es', out) \<Longrightarrow> out = p"
  by (induction es p arbitrary: es' out rule: win32_send_all.induct)
    (auto simp: Let_def split: prod.splits if_splits)

lemma exchange_with_answered:
  assumes "exchange_with connect snd_all rcv_all t request cap = (t', Some r)"
    and rcv: "\<And>n es es' d. rcv_all n es = (True, es', d) \<Longrightarrow> delivered es = d @ delivered es'"
    and sent: "\<And>es es' out. snd_all es request = (True, es', out) \<Longrightarrow> out = request"
    and conn: "\<And>u. connect t = (True, u) \<Longrightarrow> usable_connection t (tp_socket u) (tp_in u)"
  shows "answered_by t request t' r"
proof -
  from assms(1) obtain u where u: "connect t = (True, u)"
    by (auto simp: exchange_with_def split: prod.splits if_splits)
  obtain ok v where v: "tp_send snd_all u request = (ok, v)" by fastforce
  with assms(1) u have ok: ok by (auto simp: exchange_with_def split: if_splits)
  with v have v': "tp_in v = tp_in u" "tp_socket v = tp_socket u"
    "tp_wire v = tp_wire u @ [(request, length request)]"
    by (auto simp: tp_send_def split: prod.splits dest!: sent)
  have recv: "delivered (tp_in x) = d @ delivered (tp_in y) \<and> tp_socket y = tp_socket x \<and> tp_wire y = tp_wire x"
    if "tp_recv rcv_all x n = (True, y, d)" for x n y d
    using that rcv by (auto simp: tp_recv_def split: prod.splits)
  from assms(1) u v ok have "\<exists>w response. tp_recv rcv_all v 24 = (True, w, response) \<and>
      (t' = w \<and> r = response \<or> (\<exists>n payload. tp_recv rcv_all w n = (True, t', payload) \<and> r = response @ payload))"
    by (auto simp: exchange_with_def Let_def split: prod.splits if_splits)
  then have "delivered (tp_in v) = r @ delivered (tp_in t') \<and> tp_socket t' = tp_socket v \<and> tp_wire t' = tp_wire v"
    using recv by fastforce
  then show ?thesis
    using conn [OF u] v' unfolding answered_by_def by metis
qed

lemma connect_addrs_Some:
  "connect_addrs as = (Some (fd, timeouts, ins, sends), closed) \<Longrightarrow> Addr_Connected fd timeouts ins sends \<in> set as"
  by (induction as arbitrary: closed rule: connect_addrs.induct) (auto split: prod.splits)

lemma connect_socket_usable: "connect_socket t = (True, u) \<Longrightarrow> usable_connection t (tp_socket u) (tp_in u)"
proof (cases "tp_socket t = STN_INVALID_SOCKET")
  case True
  assume "connect_socket t = (True, u)"
  with True obtain as sends where "Some as \<in> set (tp_resolve t)"
    "Addr_Connected (tp_socket u) True (tp_in u) sends \<in> set as"
    by (fastforce simp: connect_socket_def take_resolve_def Let_def
        split: prod.splits if_splits option.splits list.splits dest!: connect_addrs_Some)
  then show ?thesis unfolding usable_connection_def by blast
qed (auto simp: connect_socket_def usable_connection_def)

lemma win32_connect_usable: "win32_connect_socket t = (True, u) \<Longrightarrow> usable_connection t (tp_socket u) (tp_in u)"
  by (auto simp: win32_connect_socket_def ensure_winsock_def usable_connection_def [of t]
      usable_connection_def [of "t\<lparr>tp_wsa := w\<rparr>" for w] usable_connection_def [of "t\<lparr>tp_wsa := w, tp_winsock := True\<rparr>" for w]
      split: prod.splits if_splits dest!: connect_socket_usable)

text \<open>A failed attempt leaves only connections that the first one could have used.\<close>

lemma usable_after:
  assumes "usable_connection u fd ins" "tp_socket u = STN_INVALID_SOCKET" "set (tp_resolve u) \<subseteq> set (tp_resolve t)"
  shows "usable_connection t fd ins"
  using assms by (auto simp: usable_connection_def)

lemma answered_after:
  "answered_by u request t' r \<Longrightarrow> tp_socket u = STN_INVALID_SOCKET \<Longrightarrow> set (tp_resolve u) \<subseteq> set (tp_resolve t) \<Longrightarrow>
   answered_by t request t' r"
  unfolding answered_by_def using usable_after by metis

lemma exchange_with_resolve:
  assumes "exchange_with connect snd_all rcv_all t request cap = (t', r)"
    and "\<And>ok u. connect t = (ok, u) \<Longrightarrow> set (tp_resolve u) \<subseteq> set (tp_resolve t)"
  shows "set (tp_resolve t') \<subseteq> set (tp_resolve t)"
  using assms
  by (fastforce simp: exchange_with_def tp_recv_def tp_send_def drop_socket_def Let_def split: prod.splits if_splits)

lemma connect_socket_resolve: "connect_socket t = (ok, u) \<Longrightarrow> set (tp_resolve u) \<subseteq> set (tp_resolve t)"
  by (auto simp: connect_socket_def take_resolve_def Let_def
      split: prod.splits if_splits option.splits list.splits)

lemma win32_connect_resolve: "win32_connect_socket t = (ok, u) \<Longrightarrow> set (tp_resolve u) \<subseteq> set (tp_resolve t)"
  by (auto simp: win32_connect_socket_def ensure_winsock_def split: prod.splits if_splits dest!: connect_socket_resolve)

lemma linux_answered: "stn_rpc_linux_exchange t request cap = (t', Some r) \<Longrightarrow> answered_by t request t' r"
proof -
  note once = exchange_with_answered [OF _ recv_all_delivered send_all_ok connect_socket_usable,
      where snd_all = send_all and rcv_all = recv_all]
  assume run: "stn_rpc_linux_exchange t request cap = (t', Some r)"
  obtain u x where u: "exchange_once t request cap = (u, x)" by fastforce
  show ?thesis
  proof (cases x)
    case None
    then have "tp_socket u = STN_INVALID_SOCKET" "set (tp_resolve u) \<subseteq> set (tp_resolve t)"
      using u exchange_with_None [OF _ connect_socket_False] exchange_with_resolve [OF _ connect_socket_resolve]
      by (auto simp: exchange_once_def)
    moreover have "answered_by u request t' r"
      using run u None by (intro once [where cap = cap]) (auto simp: stn_rpc_linux_exchange_def exchange_once_def split: if_splits)
    ultimately show ?thesis using answered_after by blast
  qed (use run u in \<open>auto simp: stn_rpc_linux_exchange_def exchange_once_def split: if_splits dest: once\<close>)
qed

lemma win32_answered: "stn_rpc_win32_exchange t request cap = (t', Some r) \<Longrightarrow> answered_by t request t' r"
proof -
  note once = exchange_with_answered [OF _ win32_recv_all_delivered win32_send_all_ok win32_connect_usable,
      where snd_all = win32_send_all and rcv_all = win32_recv_all]
  assume run: "stn_rpc_win32_exchange t request cap = (t', Some r)"
  obtain u x where u: "win32_exchange_once t request cap = (u, x)" by fastforce
  show ?thesis
  proof (cases x)
    case None
    then have "tp_socket u = STN_INVALID_SOCKET" "set (tp_resolve u) \<subseteq> set (tp_resolve t)"
      using u exchange_with_None [OF _ win32_connect_False] exchange_with_resolve [OF _ win32_connect_resolve]
      by (auto simp: win32_exchange_once_def)
    moreover have "answered_by u request t' r"
      using run u None by (intro once [where cap = cap]) (auto simp: stn_rpc_win32_exchange_def win32_exchange_once_def split: if_splits)
    ultimately show ?thesis using answered_after by blast
  qed (use run u in \<open>auto simp: stn_rpc_win32_exchange_def win32_exchange_once_def split: if_splits dest: once\<close>)
qed
section \<open>The outcome of an exchange\<close>

text \<open>
  C14. An exchange either yields one whole frame or it fails and leaves no connection behind: a connection on which a
  request or a reply was cut short is never used again. The frame is at least 24 bytes, within the caller's capacity,
  with a length field that counts its payload; and it is, byte for byte, what came in next on a connection of this
  exchange, the one that was open or one made to an address of the server, on which the request was sent in full. Both
  transports keep this.
\<close>

theorem exchange_outcome:
  assumes "tp_host t \<noteq> None" and "24 \<le> cap"
    and "stn_rpc_linux_exchange t request cap = (t', r) \<or> stn_rpc_win32_exchange t request cap = (t', r)"
  shows "case r of
      None \<Rightarrow> tp_socket t' = STN_INVALID_SOCKET
    | Some f \<Rightarrow> 24 \<le> length f \<and> length f \<le> cap \<and> be_nat (bytes_at 20 4 f) = length f - 24 \<and>
        (\<exists>fd ins before. usable_connection t fd ins \<and> tp_socket t' = fd \<and>
           tp_wire t' = before @ [(request, length request)] \<and> delivered ins = f @ delivered (tp_in t'))"
proof (cases r)
  case None
  have "tp_socket t' = STN_INVALID_SOCKET" if "stn_rpc_linux_exchange t request cap = (t', None)"
    using that assms(1,2)
    by (auto simp: stn_rpc_linux_exchange_def exchange_once_def split: prod.splits option.splits if_splits
        dest: exchange_with_None [OF _ connect_socket_False])
  moreover have "tp_socket t' = STN_INVALID_SOCKET" if "stn_rpc_win32_exchange t request cap = (t', None)"
    using that assms(1,2)
    by (auto simp: stn_rpc_win32_exchange_def win32_exchange_once_def split: prod.splits option.splits if_splits
        dest: exchange_with_None [OF _ win32_connect_False])
  ultimately show ?thesis using None assms(3) by auto
next
  case (Some f)
  then have "answered_by t request t' f" using assms(3) linux_answered win32_answered by blast
  moreover have "24 \<le> length f \<and> length f \<le> cap \<and> be_nat (bytes_at 20 4 f) = length f - 24"
    using Some assms(3) linux_frame win32_frame by blast
  ultimately show ?thesis using Some unfolding answered_by_def by simp
qed

section \<open>The theorems on sample connections\<close>

text \<open>
  A transport whose first connection is refused by one address, accepted by the next and then
  closed by the peer, and whose second connection answers with \<open>reply\<close> in two pieces.
\<close>

definition sample_transport :: "bytes \<Rightarrow> transport" where
  "sample_transport reply =
     \<lparr>tp_host = Some [0x61], tp_port = 18473, tp_socket = STN_INVALID_SOCKET, tp_winsock = False,
      tp_in = [], tp_sends = [],
      tp_resolve =
        [Some [Addr_Refused 5, Addr_Connected 6 True [Recv_Eof] [Send_Eintr, Send_Some 3]],
         Some [Addr_No_Socket, Addr_Connected 7 True [Recv_Data (take 10 reply), Recv_Data (drop 10 reply)] []]],
      tp_wsa = [], tp_closed = [], tp_wire = []\<rparr>"

definition sample_reply :: bytes where
  "sample_reply = STNC @ [0, 2, 0, 2, 0x20, 3, 0, 10] @ [0, 0, 0, 0, 0, 0, 0, 1] @ [0, 0, 0, 0]"

theorem exchange_outcome_witness:
  "tp_socket (fst (stn_rpc_linux_exchange (sample_transport sample_reply) (replicate 30 1) 100)) =
     STN_INVALID_SOCKET \<and>
   (\<exists>fd ins. usable_connection (sample_transport sample_reply) fd ins \<and>
      sample_reply = take 24 (delivered ins))"
proof -
  let ?read = "[0, 0, 0, 0, 0, 0, 0, 0, 0x20, 2] @ replicate 20 0"
  have "snd (stn_rpc_linux_exchange (sample_transport sample_reply) (replicate 30 1) 100) = None"
    by code_simp
  then have fail: "stn_rpc_linux_exchange (sample_transport sample_reply) (replicate 30 1) 100 =
      (fst (stn_rpc_linux_exchange (sample_transport sample_reply) (replicate 30 1) 100), None)"
    by (rule prod_eqI [OF fst_conv [symmetric], unfolded snd_conv])
  have "snd (stn_rpc_linux_exchange (sample_transport sample_reply) ?read 100) = Some sample_reply"
    by code_simp
  then have ok: "stn_rpc_linux_exchange (sample_transport sample_reply) ?read 100 =
      (fst (stn_rpc_linux_exchange (sample_transport sample_reply) ?read 100), Some sample_reply)"
    by (rule prod_eqI [OF fst_conv [symmetric], unfolded snd_conv])
  have host: "tp_host (sample_transport sample_reply) \<noteq> None" by (simp add: sample_transport_def)
  have "length sample_reply = 24" by (simp add: sample_reply_def)
  moreover obtain fd ins rest where "usable_connection (sample_transport sample_reply) fd ins"
    "delivered ins = sample_reply @ rest"
    using exchange_outcome [OF host _ disjI1 [OF ok]] by auto
  ultimately have "\<exists>fd ins. usable_connection (sample_transport sample_reply) fd ins \<and>
      sample_reply = take 24 (delivered ins)"
    by (intro exI [of _ fd] exI [of _ ins]) simp
  then show ?thesis using exchange_outcome [OF host _ disjI1 [OF fail]] by simp
qed

theorem mutation_sent_once_witness:
  "length (tp_wire (transport_user (fst (rpc_call
      (stn_rpc_client_init [] (sample_transport sample_reply) (Some stn_rpc_linux_exchange))
      STN_RPC_CLIENT_SUBMIT_SHARE (Some (replicate 277 7)) 277 32)))) \<le> 1"
proof -
  let ?c = "stn_rpc_client_init [] (sample_transport sample_reply) (Some stn_rpc_linux_exchange)"
  obtain c' code p where call:
      "rpc_call ?c STN_RPC_CLIENT_SUBMIT_SHARE (Some (replicate 277 7)) 277 32 = (c', code, p)"
    by (cases "rpc_call ?c STN_RPC_CLIENT_SUBMIT_SHARE (Some (replicate 277 7)) 277 32")
  have "rc_exchange ?c = Some stn_rpc_linux_exchange \<or> rc_exchange ?c = Some stn_rpc_win32_exchange"
    "tp_wire (transport_user ?c) = []"
    by (simp_all add: stn_rpc_client_init_def sample_transport_def)
  then show ?thesis
    using mutation_sent_once [OF _ call] by (auto simp: call)
qed

end
