(* ===== verification/Stratum_Core.thy ===== *)
theory Stratum_Core
  imports Stn_Prelude
begin

text \<open>
  \<^verbatim>\<open>src/stn_stratum.c\<close>: the platform independent Stratum core, a session that submits
  nonces for a job to a Chain provider. The provider is a record of functions over its own
  state, as the struct of function pointers in C. The locale \<open>chain_provider\<close> states what the
  core may rely on; the RPC adapter interprets it in \<open>Chain_Adapter\<close>.
\<close>

section \<open>Data\<close>

datatype stn_stratum_status =
    STN_STRATUM_OK
  | STN_STRATUM_ARGUMENT
  | STN_STRATUM_STRUCTURE
  | STN_STRATUM_PROFILE
  | STN_STRATUM_BASE
  | STN_STRATUM_PROVIDER
  | STN_STRATUM_NO_JOB
  | STN_STRATUM_STALE
  | STN_STRATUM_DUPLICATE
  | STN_STRATUM_REJECTED
  | STN_STRATUM_CAPACITY

abbreviation (input) "STN_STRATUM_PROTOCOL_VERSION \<equiv> (1 :: u16)"
abbreviation (input) "STN_STRATUM_DUPLICATE_CAPACITY \<equiv> (64 :: nat)"
abbreviation (input) "STN_STRATUM_MINER_IDENTITY_SIZE \<equiv> (69 :: nat)"
abbreviation (input) "STN_STRATUM_BLOCK_CAPACITY \<equiv> (1048576 :: nat)"

text \<open>\<open>job_block\<close> holds the \<open>block_length\<close> bytes in use of the C array.\<close>

record stratum_job =
  job_base_tip :: bytes
  job_id :: bytes
  job_target :: bytes
  job_block :: bytes
  job_block_length :: nat
  job_height :: u64
  job_active :: bool

record stratum_session =
  session_id :: u64
  submitted :: "u64 list"
  submitted_count :: nat
  miner_identity :: bytes
  identity_registered :: bool
  subscribed :: bool

text \<open>A template as the provider hands it out: base tip, work id, target, height, block.\<close>

type_synonym template_out = "bytes \<times> bytes \<times> bytes \<times> u64 \<times> bytes"

type_synonym 'u tip_fn = "'u \<Rightarrow> 'u \<times> stn_stratum_status \<times> bytes"
type_synonym 'u template_fn = "'u \<Rightarrow> nat \<Rightarrow> 'u \<times> stn_stratum_status \<times> template_out"
type_synonym 'u submit_fn =
  "'u \<Rightarrow> bytes \<Rightarrow> bytes \<Rightarrow> bytes \<Rightarrow> nat \<Rightarrow> bytes \<Rightarrow> u64 \<Rightarrow> 'u \<times> stn_stratum_status"

record 'u stratum_chain =
  chain_user :: 'u
  chain_tip :: "'u tip_fn option"
  chain_template_get :: "'u template_fn option"
  chain_submit :: "'u submit_fn option"

section \<open>Operations\<close>

definition stn_stratum_session_init :: "u64 \<Rightarrow> stratum_session" where
  "stn_stratum_session_init sid =
     \<lparr>session_id = sid, submitted = replicate STN_STRATUM_DUPLICATE_CAPACITY 0, submitted_count = 0,
      miner_identity = replicate STN_STRATUM_MINER_IDENTITY_SIZE 0, identity_registered = False,
      subscribed = False\<rparr>"

definition stn_stratum_subscribe ::
  "stratum_session option \<Rightarrow> u16 \<Rightarrow> stratum_session option \<times> stn_stratum_status" where
  "stn_stratum_subscribe s version =
     (case s of
        None \<Rightarrow> (None, STN_STRATUM_ARGUMENT)
      | Some s \<Rightarrow>
          if version \<noteq> STN_STRATUM_PROTOCOL_VERSION then (Some s, STN_STRATUM_PROFILE)
          else (Some (s\<lparr>subscribed := True\<rparr>), STN_STRATUM_OK))"

definition stn0_prefix :: bytes where "stn0_prefix = [0x73, 0x74, 0x6e, 0x30, 0x5f]"

definition stn_stratum_register_identity ::
  "stratum_session option \<Rightarrow> bytes option \<Rightarrow> stratum_session option \<times> stn_stratum_status" where
  "stn_stratum_register_identity s identity =
     (case (s, identity) of
        (Some s, Some identity) \<Rightarrow>
          if \<not> mem_eq identity stn0_prefix 5 \<or>
             identity ! (STN_STRATUM_MINER_IDENTITY_SIZE - 1) \<noteq> 0
          then (Some s, STN_STRATUM_STRUCTURE)
          else (Some (s\<lparr>miner_identity := take STN_STRATUM_MINER_IDENTITY_SIZE identity,
                       identity_registered := True\<rparr>), STN_STRATUM_OK)
      | _ \<Rightarrow> (s, STN_STRATUM_ARGUMENT))"

text \<open>The job is the storage to fill in; the status, and the job afterwards.\<close>

definition stn_stratum_job_set ::
  "stratum_job option \<Rightarrow> bytes option \<Rightarrow> bytes option \<Rightarrow> bytes option \<Rightarrow> u64 \<Rightarrow> bytes option \<Rightarrow> nat \<Rightarrow>
   stratum_job option \<times> stn_stratum_status" where
  "stn_stratum_job_set out base_tip jid target height block block_length =
     (case (out, base_tip, jid, target, block) of
        (Some out, Some base_tip, Some jid, Some target, Some block) \<Rightarrow>
          if block_length = 0 then (Some out, STN_STRATUM_STRUCTURE)
          else if block_length > STN_STRATUM_BLOCK_CAPACITY then (Some out, STN_STRATUM_CAPACITY)
          else
            (Some \<lparr>job_base_tip = take 32 base_tip, job_id = take 32 jid, job_target = take 32 target,
                   job_block = take block_length block, job_block_length = block_length,
                   job_height = height, job_active = True\<rparr>, STN_STRATUM_OK)
      | _ \<Rightarrow> (out, STN_STRATUM_ARGUMENT))"

definition stn_stratum_job_refresh ::
  "stratum_job option \<Rightarrow> 'u stratum_chain option \<Rightarrow>
   stratum_job option \<times> 'u stratum_chain option \<times> stn_stratum_status" where
  "stn_stratum_job_refresh job chain =
     (case (job, chain) of
        (Some job, Some chain) \<Rightarrow>
          (case chain_template_get chain of
             None \<Rightarrow> (Some job, Some chain, STN_STRATUM_ARGUMENT)
           | Some template_get \<Rightarrow>
             (case template_get (chain_user chain) STN_STRATUM_BLOCK_CAPACITY of
                (u, status, base_tip, jid, target, height, block) \<Rightarrow>
                  (let chain = chain\<lparr>chain_user := u\<rparr> in
                   if status \<noteq> STN_STRATUM_OK then
                     (Some job, Some chain,
                      if status = STN_STRATUM_CAPACITY then STN_STRATUM_CAPACITY else STN_STRATUM_PROVIDER)
                   else
                     (case stn_stratum_job_set (Some job) (Some base_tip) (Some jid) (Some target) height
                             (Some block) (length block) of
                        (job, status) \<Rightarrow> (job, Some chain, status)))))
      | _ \<Rightarrow> (job, chain, STN_STRATUM_ARGUMENT))"

definition stn_stratum_job_invalidate :: "stratum_job option \<Rightarrow> stratum_job option" where
  "stn_stratum_job_invalidate job =
     (case job of None \<Rightarrow> None | Some job \<Rightarrow> Some (job\<lparr>job_active := False\<rparr>))"

text \<open>The loop that looks for the nonce among the recorded ones.\<close>

fun submit_seen :: "u64 list \<Rightarrow> nat list \<Rightarrow> u64 \<Rightarrow> bool" where
  "submit_seen xs [] nonce = False"
| "submit_seen xs (i # is) nonce = (if xs ! i = nonce then True else submit_seen xs is nonce)"

definition stn_stratum_submit ::
  "stratum_session option \<Rightarrow> stratum_job option \<Rightarrow> u64 \<Rightarrow> 'u stratum_chain option \<Rightarrow>
   stratum_session option \<times> 'u stratum_chain option \<times> stn_stratum_status" where
  "stn_stratum_submit s j nonce chain =
     (case (s, j, chain) of
        (Some s, Some j, Some chain) \<Rightarrow>
          (case (chain_tip chain, chain_submit chain) of
             (Some tip_get, Some submit) \<Rightarrow>
               if \<not> subscribed s \<or> \<not> job_active j then (Some s, Some chain, STN_STRATUM_NO_JOB)
               else if \<not> identity_registered s then (Some s, Some chain, STN_STRATUM_STRUCTURE)
               else
                 (case tip_get (chain_user chain) of
                    (u, status, tip) \<Rightarrow>
                      (let chain = chain\<lparr>chain_user := u\<rparr> in
                       if status \<noteq> STN_STRATUM_OK then (Some s, Some chain, STN_STRATUM_PROVIDER)
                       else if \<not> mem_eq (job_base_tip j) tip 32 then (Some s, Some chain, STN_STRATUM_STALE)
                       else if submit_seen (submitted s) [0..<submitted_count s] nonce
                       then (Some s, Some chain, STN_STRATUM_DUPLICATE)
                       else if submitted_count s = STN_STRATUM_DUPLICATE_CAPACITY
                       then (Some s, Some chain, STN_STRATUM_CAPACITY)
                       else
                         (let s = s\<lparr>submitted := (submitted s)[submitted_count s := nonce],
                                    submitted_count := submitted_count s + 1\<rparr>
                          in case submit (chain_user chain) (job_base_tip j) (job_id j) (job_block j)
                                   (job_block_length j) (miner_identity s) nonce of
                               (u, status) \<Rightarrow>
                                 (Some s, Some (chain\<lparr>chain_user := u\<rparr>),
                                  if status = STN_STRATUM_OK \<or> status = STN_STRATUM_STALE \<or>
                                     status = STN_STRATUM_REJECTED
                                  then status else STN_STRATUM_PROVIDER))))
           | _ \<Rightarrow> (Some s, Some chain, STN_STRATUM_ARGUMENT))
      | _ \<Rightarrow> (s, chain, STN_STRATUM_ARGUMENT))"

section \<open>The record of submitted nonces\<close>

lemma submit_seen_iff: "submit_seen xs is nonce \<longleftrightarrow> (\<exists>i \<in> set is. xs ! i = nonce)"
  by (induction "is") auto

lemma submit_seen_take: "n \<le> length xs \<Longrightarrow> submit_seen xs [0..<n] nonce \<longleftrightarrow> nonce \<in> set (take n xs)"
  by (auto simp: submit_seen_iff in_set_conv_nth)

definition session_ok :: "stratum_session \<Rightarrow> bool" where
  "session_ok s \<longleftrightarrow> length (submitted s) = 64 \<and> submitted_count s \<le> 64 \<and>
     distinct (take (submitted_count s) (submitted s)) \<and> length (miner_identity s) = 69"

abbreviation recorded :: "stratum_session \<Rightarrow> u64 list" where
  "recorded s \<equiv> take (submitted_count s) (submitted s)"

lemma session_ok_init: "session_ok (stn_stratum_session_init sid)"
  by (simp add: session_ok_def stn_stratum_session_init_def)

lemma session_ok_subscribe:
  "stn_stratum_subscribe (Some s) v = (Some s', st) \<Longrightarrow> session_ok s \<Longrightarrow> session_ok s'"
  by (auto simp: session_ok_def stn_stratum_subscribe_def split: if_splits)

lemma session_ok_register:
  "stn_stratum_register_identity (Some s) (Some p) = (Some s', st) \<Longrightarrow> 69 \<le> length p \<Longrightarrow>
   session_ok s \<Longrightarrow> session_ok s'"
  by (auto simp: session_ok_def stn_stratum_register_identity_def split: if_splits)

text \<open>The nonce is recorded in the next free slot.\<close>

lemma recorded_append:
  "session_ok s \<Longrightarrow> submitted_count s \<noteq> 64 \<Longrightarrow>
   take (Suc (submitted_count s)) ((submitted s)[submitted_count s := nonce]) = recorded s @ [nonce]"
  by (simp add: session_ok_def take_Suc_conv_app_nth)

text \<open>What a submission does: either nothing was forwarded, or all guards passed.\<close>

lemma submit_cases:
  assumes "stn_stratum_submit (Some s) (Some j) nonce (Some c) = (s', c', st)" and "session_ok s"
  obtains (kept) "s' = Some s" "st \<noteq> STN_STRATUM_OK"
      "c' = Some c \<or> (\<exists>tip_get. chain_tip c = Some tip_get \<and>
         c' = Some (c\<lparr>chain_user := fst (tip_get (chain_user c))\<rparr>))"
    | (forwarded) tip_get submit u tip v ps t where
      "chain_tip c = Some tip_get" "chain_submit c = Some submit"
      "tip_get (chain_user c) = (u, STN_STRATUM_OK, tip)" "mem_eq (job_base_tip j) tip 32"
      "subscribed s" "identity_registered s" "job_active j"
      "nonce \<notin> set (recorded s)" "submitted_count s < 64"
      "submit u (job_base_tip j) (job_id j) (job_block j) (job_block_length j) (miner_identity s) nonce = (v, ps)"
      "s' = Some t" "t = s\<lparr>submitted := (submitted s)[submitted_count s := nonce],
         submitted_count := submitted_count s + 1\<rparr>"
      "c' = Some (c\<lparr>chain_user := v\<rparr>)"
      "st = (if ps \<in> {STN_STRATUM_OK, STN_STRATUM_STALE, STN_STRATUM_REJECTED} then ps else STN_STRATUM_PROVIDER)"
proof (cases "chain_tip c = None \<or> chain_submit c = None \<or> \<not> subscribed s \<or> \<not> job_active j \<or> \<not> identity_registered s")
  case True
  then show ?thesis
    using assms(1) by (intro kept) (auto simp: stn_stratum_submit_def split: option.splits if_splits)
next
  case False
  then obtain tip_get submit where fns: "chain_tip c = Some tip_get" "chain_submit c = Some submit"
    and guards: "subscribed s" "job_active j" "identity_registered s" by auto
  obtain u ts tip where tip: "tip_get (chain_user c) = (u, ts, tip)" by (cases "tip_get (chain_user c)")
  have seen: "submit_seen (submitted s) [0..<submitted_count s] nonce \<longleftrightarrow> nonce \<in> set (recorded s)"
    using assms(2) by (intro submit_seen_take) (simp add: session_ok_def)
  show ?thesis
  proof (cases "ts \<noteq> STN_STRATUM_OK \<or> \<not> mem_eq (job_base_tip j) tip 32 \<or> nonce \<in> set (recorded s) \<or> submitted_count s = 64")
    case True
    then show ?thesis
      using assms(1) fns guards tip
      by (intro kept) (auto simp: stn_stratum_submit_def Let_def seen split: if_splits)
  next
    case False
    then have count: "submitted_count s < 64" using assms(2) by (simp add: session_ok_def)
    obtain v ps where ps: "submit u (job_base_tip j) (job_id j) (job_block j) (job_block_length j)
        (miner_identity s) nonce = (v, ps)" by fastforce
    have tip': "tip_get (chain_user c) = (u, STN_STRATUM_OK, tip)" using tip False by simp
    show ?thesis
    proof (rule forwarded [OF fns tip' _ guards(1,3,2) _ count ps])
      show "s' = Some (s\<lparr>submitted := (submitted s)[submitted_count s := nonce],
          submitted_count := submitted_count s + 1\<rparr>)"
        "c' = Some (c\<lparr>chain_user := v\<rparr>)"
        "st = (if ps \<in> {STN_STRATUM_OK, STN_STRATUM_STALE, STN_STRATUM_REJECTED} then ps else STN_STRATUM_PROVIDER)"
        using assms(1) fns guards tip' ps False
        by (auto simp: stn_stratum_submit_def Let_def seen split: if_splits)
    qed (use False in auto)
  qed
qed

lemma submit_session_ok:
  assumes "stn_stratum_submit (Some s) (Some j) nonce (Some c) = (Some s', c', st)" "session_ok s"
  shows "session_ok s'"
  using assms(1) assms(2)
  by (rule submit_cases)
    (use assms(2) recorded_append [OF assms(2), of nonce] in \<open>auto simp: session_ok_def\<close>)

text \<open>
  C19. The core reports success for a nonce only when the session is subscribed
  and has an identity, the job is active and built on the tip the provider reported just before,
  the nonce was never submitted through this session, fewer than 64 were, and the provider
  accepted exactly this job, identity and nonce; the nonce is then recorded.
\<close>

theorem core_submit_ok:
  assumes "stn_stratum_submit (Some s) (Some j) nonce (Some c) = (s', c', STN_STRATUM_OK)" "session_ok s"
  shows "\<exists>tip_get submit u tip v. chain_tip c = Some tip_get \<and> chain_submit c = Some submit \<and>
    tip_get (chain_user c) = (u, STN_STRATUM_OK, tip) \<and> take 32 (job_base_tip j) = take 32 tip \<and>
    submit u (job_base_tip j) (job_id j) (job_block j) (job_block_length j) (miner_identity s) nonce =
      (v, STN_STRATUM_OK) \<and>
    subscribed s \<and> identity_registered s \<and> job_active j \<and>
    nonce \<notin> set (recorded s) \<and> length (recorded s) < 64 \<and>
    (\<exists>t. s' = Some t \<and> recorded t = recorded s @ [nonce])"
  using assms
proof (cases rule: submit_cases)
  case (forwarded tip_get submit u tip v ps t)
  moreover from this have "ps = STN_STRATUM_OK" by (simp split: if_splits)
  ultimately show ?thesis
    using recorded_append [OF assms(2), of nonce] assms(2)
    by (auto simp: mem_eq_def session_ok_def)
qed simp

text \<open>A provider that records the nonces it is given, in front of any provider.\<close>

definition logged :: "'u stratum_chain \<Rightarrow> u64 list \<Rightarrow> ('u \<times> u64 list) stratum_chain" where
  "logged c log =
     \<lparr>chain_user = (chain_user c, log),
      chain_tip = map_option (\<lambda>f (u, log). case f u of (u, r) \<Rightarrow> ((u, log), r)) (chain_tip c),
      chain_template_get =
        map_option (\<lambda>f (u, log) cap. case f u cap of (u, r) \<Rightarrow> ((u, log), r)) (chain_template_get c),
      chain_submit =
        map_option (\<lambda>f (u, log) b i blk n m nonce.
          case f u b i blk n m nonce of (u, r) \<Rightarrow> ((u, log @ [nonce]), r)) (chain_submit c)\<rparr>"

text \<open>Any sequence of submissions, for any jobs.\<close>

fun submit_all :: "stratum_session option \<Rightarrow> 'u stratum_chain option \<Rightarrow> (stratum_job \<times> u64) list \<Rightarrow>
    stratum_session option \<times> 'u stratum_chain option" where
  "submit_all s c [] = (s, c)"
| "submit_all s c ((j, nonce) # xs) =
     (case stn_stratum_submit s (Some j) nonce c of (s, c, st) \<Rightarrow> submit_all s c xs)"

lemma logged_user: "(logged c log)\<lparr>chain_user := (u, log')\<rparr> = logged (c\<lparr>chain_user := u\<rparr>) log'"
  by (simp add: logged_def)

lemma submit_logged:
  assumes "stn_stratum_submit (Some s) (Some j) nonce (Some (logged c (recorded s))) = (s', c', st)" "session_ok s"
  shows "\<exists>t d. s' = Some t \<and> session_ok t \<and> c' = Some (logged d (recorded t))"
  using assms
proof (cases rule: submit_cases)
  case kept
  have "\<exists>d. c' = Some (logged d (recorded s))"
    using kept(3)
  proof (elim disjE exE conjE)
    fix tip_get
    assume tip: "chain_tip (logged c (recorded s)) = Some tip_get"
      and c': "c' = Some ((logged c (recorded s))\<lparr>chain_user := fst (tip_get (chain_user (logged c (recorded s))))\<rparr>)"
    from tip have "snd (fst (tip_get (chain_user (logged c (recorded s))))) = recorded s"
      by (auto simp: logged_def split: prod.splits)
    then have "fst (tip_get (chain_user (logged c (recorded s)))) =
        (fst (fst (tip_get (chain_user (logged c (recorded s))))), recorded s)" by (simp add: prod_eq_iff)
    with c' show ?thesis by (metis logged_user)
  qed auto
  then show ?thesis using kept assms(2) by blast
next
  case (forwarded tip_get submit u tip v ps t)
  have "session_ok t"
    using submit_session_ok assms forwarded(11) by blast
  moreover have "snd u = recorded s" "snd v = snd u @ [nonce]"
    using forwarded(1,2,3,10) by (auto simp: logged_def split: prod.splits)
  moreover have "recorded t = recorded s @ [nonce]"
    using forwarded recorded_append [OF assms(2), of nonce] by simp
  ultimately have "c' = Some (logged (c\<lparr>chain_user := fst v\<rparr>) (recorded t))"
    using forwarded(13) logged_user [where c = c and log = "recorded s" and u = "fst v" and log' = "snd v"]
    by (cases v) simp
  then show ?thesis using \<open>session_ok t\<close> forwarded(11) by blast
qed

lemma submit_all_logged:
  "session_ok s \<Longrightarrow> submit_all (Some s) (Some (logged c (recorded s))) xs = (s', c') \<Longrightarrow>
   \<exists>t d. s' = Some t \<and> session_ok t \<and> c' = Some (logged d (recorded t))"
proof (induction xs arbitrary: s c)
  case (Cons x xs)
  obtain j nonce where x: "x = (j, nonce)" by (cases x)
  obtain s1 c1 st where step: "stn_stratum_submit (Some s) (Some j) nonce (Some (logged c (recorded s))) = (s1, c1, st)"
    by (cases "stn_stratum_submit (Some s) (Some j) nonce (Some (logged c (recorded s)))") auto
  from submit_logged [OF step Cons.prems(1)] obtain t d where
    "s1 = Some t" "session_ok t" "c1 = Some (logged d (recorded t))" by blast
  then show ?case using Cons step x by simp
qed auto

text \<open>
  C20. Over any sequence of submissions through one session, for any jobs and
  against any provider, the provider is given each nonce at most once, and at most 64 nonces in
  all; they are exactly the nonces the session has recorded.
\<close>

theorem core_no_replay:
  assumes "session_ok s" and "submitted_count s = 0"
    and "submit_all (Some s) (Some (logged c [])) xs = (Some s', Some c')"
  shows "distinct (snd (chain_user c')) \<and> length (snd (chain_user c')) \<le> 64 \<and>
    snd (chain_user c') = recorded s'"
proof -
  obtain t d where "s' = t" "session_ok t" "c' = logged d (recorded t)"
    using submit_all_logged [OF assms(1), of c xs] assms(2,3) by auto
  then show ?thesis by (simp add: logged_def session_ok_def)
qed

section \<open>The contract of a provider\<close>

text \<open>A job that the rest of the program can use.\<close>

definition job_ok :: "stratum_job \<Rightarrow> bool" where
  "job_ok j \<longleftrightarrow> length (job_base_tip j) = 32 \<and> length (job_id j) = 32 \<and>
     168 \<le> job_block_length j \<and> job_block_length j \<le> STN_STRATUM_BLOCK_CAPACITY \<and>
     length (job_block j) = job_block_length j \<and> job_target j = bytes_at 120 32 (job_block j) \<and>
     unat (job_height j) = be_nat (bytes_at 72 8 (job_block j)) \<and> job_active j"

text \<open>
  What a provider promises: fields of their fixed sizes, a block that fits the caller's buffer
  and has a full header, and the target and height of that very header.
\<close>

locale chain_provider =
  fixes tip_get :: "'u tip_fn"
    and template_get :: "'u template_fn"
  assumes tip_length: "tip_get u = (u', STN_STRATUM_OK, tip) \<Longrightarrow> length tip = 32"
    and template_sizes: "template_get u cap = (u', STN_STRATUM_OK, base, jid, target, height, block) \<Longrightarrow>
      length base = 32 \<and> length jid = 32 \<and> 168 \<le> length block \<and> length block \<le> cap"
    and template_header: "template_get u cap = (u', STN_STRATUM_OK, base, jid, target, height, block) \<Longrightarrow>
      target = bytes_at 120 32 block \<and> unat height = be_nat (bytes_at 72 8 block)"
begin

lemma refresh_job:
  assumes "chain_template_get c = Some template_get"
    and "stn_stratum_job_refresh (Some j) (Some c) = (j', c', st)"
  shows "if st = STN_STRATUM_OK then \<exists>k. j' = Some k \<and> job_ok k else j' = Some j"
proof -
  obtain u ts base jid target height block where t:
      "template_get (chain_user c) STN_STRATUM_BLOCK_CAPACITY = (u, ts, base, jid, target, height, block)"
    by (cases "template_get (chain_user c) STN_STRATUM_BLOCK_CAPACITY") auto
  show ?thesis
  proof (cases "ts = STN_STRATUM_OK")
    case True
    from template_sizes [OF t [unfolded True]] template_header [OF t [unfolded True]] show ?thesis
      using assms t True
      by (auto simp: stn_stratum_job_refresh_def stn_stratum_job_set_def Let_def job_ok_def
          split: if_splits prod.splits)
  next
    case False
    then show ?thesis
      using assms t by (auto simp: stn_stratum_job_refresh_def Let_def split: if_splits)
  qed
qed

text \<open>A tip that the provider reports differs from the job's base as a whole, or is it.\<close>

lemma stale_compare:
  "tip_get u = (u', STN_STRATUM_OK, tip) \<Longrightarrow> job_ok j \<Longrightarrow> mem_eq (job_base_tip j) tip 32 \<longleftrightarrow> job_base_tip j = tip"
  by (simp add: mem_eq_exact tip_length job_ok_def)

end

text \<open>A provider over its own log, for the witnesses: it accepts everything.\<close>

definition sample_chain :: "unit stratum_chain" where
  "sample_chain =
     \<lparr>chain_user = (), chain_tip = Some (\<lambda>u. (u, STN_STRATUM_OK, replicate 32 1)),
      chain_template_get = None, chain_submit = Some (\<lambda>u b i blk n m nonce. (u, STN_STRATUM_OK))\<rparr>"

definition sample_job :: stratum_job where
  "sample_job =
     \<lparr>job_base_tip = replicate 32 1, job_id = replicate 32 2, job_target = bytes_at 120 32 example_block,
      job_block = example_block, job_block_length = 168, job_height = 0, job_active = True\<rparr>"

definition sample_session :: stratum_session where
  "sample_session = (stn_stratum_session_init 1)\<lparr>identity_registered := True, subscribed := True\<rparr>"

lemma sample_session_ok: "session_ok sample_session"
  by (simp add: sample_session_def session_ok_def stn_stratum_session_init_def)

theorem core_submit_ok_witness:
  "(5 :: u64) \<notin> set (recorded sample_session)"
proof -
  obtain s' c' where "stn_stratum_submit (Some sample_session) (Some sample_job) 5 (Some sample_chain) =
      (s', c', STN_STRATUM_OK)"
    by (simp add: stn_stratum_submit_def sample_session_def sample_job_def sample_chain_def
        stn_stratum_session_init_def Let_def)
  from core_submit_ok [OF this sample_session_ok] show ?thesis by blast
qed

theorem core_no_replay_witness:
  "\<exists>s' c'. submit_all (Some sample_session) (Some (logged sample_chain []))
     [(sample_job, 5), (sample_job, 6), (sample_job, 5)] = (Some s', Some c') \<and>
     snd (chain_user c') = recorded s' \<and> recorded s' = [5, 6]"
proof -
  obtain s' c' where run: "submit_all (Some sample_session) (Some (logged sample_chain []))
      [(sample_job, 5), (sample_job, 6), (sample_job, 5)] = (Some s', Some c')" "recorded s' = [5, 6]"
    by (simp add: stn_stratum_submit_def sample_session_def sample_job_def sample_chain_def logged_def
        stn_stratum_session_init_def Let_def upt_rec) (simp add: numeral_eq_Suc)
  moreover have "submitted_count sample_session = 0"
    by (simp add: sample_session_def stn_stratum_session_init_def)
  ultimately show ?thesis
    using core_no_replay [OF sample_session_ok _ run(1)] by blast
qed

end
