(* ===== verification/Chain_Adapter.thy ===== *)
theory Chain_Adapter
  imports Rpc_Client Stratum_Core
begin

text \<open>
  \<^verbatim>\<open>src/stn_chain_rpc_adapter.c\<close>: the Chain provider of the Stratum core over the RPC client.
  The provider's state is the adapter: the client, or \<open>None\<close> for an adapter or a client that is
  NULL. The adapter interprets the core's contract \<open>chain_provider\<close>.
\<close>

section \<open>Operations\<close>

definition map_rpc :: "stn_rpc_client_code \<Rightarrow> stn_stratum_status" where
  "map_rpc code =
     (case code of
        STN_RPC_CLIENT_OK \<Rightarrow> STN_STRATUM_OK
      | STN_RPC_CLIENT_REJECTED \<Rightarrow> STN_STRATUM_REJECTED
      | STN_RPC_CLIENT_STALE \<Rightarrow> STN_STRATUM_STALE
      | STN_RPC_CLIENT_CAPACITY \<Rightarrow> STN_STRATUM_CAPACITY
      | _ \<Rightarrow> STN_STRATUM_PROVIDER)"

type_synonym 'u adapter = "'u rpc_client option"

definition rpc_tip :: "'u adapter tip_fn" where
  "rpc_tip a =
     (case a of
        None \<Rightarrow> (None, STN_STRATUM_ARGUMENT, [])
      | Some client \<Rightarrow>
        (case stn_rpc_client_mining_template client STN_RPC_CLIENT_MAX_PAYLOAD of
           (client, code, payload) \<Rightarrow>
             (let written = length payload in
              if code \<noteq> STN_RPC_CLIENT_OK then (Some client, map_rpc code, [])
              else if written < 68 + STN_RPC_CLIENT_BLOCK_HEADER_SIZE \<or>
                      read32be payload 64 \<noteq> of_nat (written - 68)
              then (Some client, STN_STRATUM_STRUCTURE, [])
              else (Some client, STN_STRATUM_OK, take 32 payload))))"

definition no_template :: template_out where
  "no_template = ([], [], [], 0, [])"

definition rpc_template :: "'u adapter template_fn" where
  "rpc_template a capacity =
     (case a of
        None \<Rightarrow> (None, STN_STRATUM_ARGUMENT, no_template)
      | Some client \<Rightarrow>
        (case stn_rpc_client_mining_template client STN_RPC_CLIENT_MAX_PAYLOAD of
           (client, code, payload) \<Rightarrow>
             (let n = length payload in
              if code \<noteq> STN_RPC_CLIENT_OK then (Some client, map_rpc code, no_template)
              else if n < 68 + STN_RPC_CLIENT_BLOCK_HEADER_SIZE
              then (Some client, STN_STRATUM_STRUCTURE, no_template)
              else
                (let block_length = read32be payload 64 in
                 if unat block_length \<noteq> n - 68 then (Some client, STN_STRATUM_STRUCTURE, no_template)
                 else if unat block_length < STN_RPC_CLIENT_BLOCK_HEADER_SIZE
                 then (Some client, STN_STRATUM_STRUCTURE, no_template)
                 else if unat block_length > capacity then (Some client, STN_STRATUM_CAPACITY, no_template)
                 else
                   (Some client, STN_STRATUM_OK,
                    bytes_at 0 32 payload, bytes_at 32 32 payload, bytes_at (68 + 120) 32 payload,
                    read64be payload (68 + 72), bytes_at 68 (unat block_length) payload)))))"

text \<open>The SUBMIT\_WORK payload: the first \<open>137 + block_length\<close> bytes of the C array.\<close>

definition rpc_submit_payload :: "bytes \<Rightarrow> bytes \<Rightarrow> bytes \<Rightarrow> nat \<Rightarrow> bytes \<Rightarrow> u64 \<Rightarrow> bytes" where
  "rpc_submit_payload base_tip jid block block_length identity nonce =
     (let payload = replicate (68 + STN_STRATUM_MINER_IDENTITY_SIZE + block_length) 0;
          payload = blit 0 (take 32 base_tip) payload;
          payload = blit 32 (take 32 jid) payload;
          payload = payload[64 := of_nat (block_length div 2 ^ 24), 65 := of_nat (block_length div 2 ^ 16),
                            66 := of_nat (block_length div 2 ^ 8), 67 := of_nat block_length];
          payload = blit 68 (take STN_STRATUM_MINER_IDENTITY_SIZE identity) payload;
          payload = blit (68 + STN_STRATUM_MINER_IDENTITY_SIZE) (take block_length block) payload
      in write64be payload (68 + STN_STRATUM_MINER_IDENTITY_SIZE + 152) nonce)"

definition rpc_submit :: "'u adapter submit_fn" where
  "rpc_submit a base_tip jid block block_length identity nonce =
     (case a of
        None \<Rightarrow> (None, STN_STRATUM_ARGUMENT)
      | Some client \<Rightarrow>
        if block_length < STN_RPC_CLIENT_BLOCK_HEADER_SIZE \<or>
           block_length > STN_RPC_CLIENT_MAX_PAYLOAD - 68 - STN_STRATUM_MINER_IDENTITY_SIZE
        then (Some client, STN_STRATUM_ARGUMENT)
        else
          (case stn_rpc_client_submit_work client
                  (Some (rpc_submit_payload base_tip jid block block_length identity nonce))
                  (68 + STN_STRATUM_MINER_IDENTITY_SIZE + block_length) 80 of
             (client, code, response) \<Rightarrow>
               if code \<noteq> STN_RPC_CLIENT_OK then (Some client, map_rpc code)
               else if length response \<noteq> 80 then (Some client, STN_STRATUM_STRUCTURE)
               else (Some client, STN_STRATUM_OK)))"

definition stn_chain_rpc_adapter_init :: "'u rpc_client option \<Rightarrow> 'u adapter" where
  "stn_chain_rpc_adapter_init client = client"

definition stn_chain_rpc_adapter_bind :: "'u adapter \<Rightarrow> 'u adapter stratum_chain" where
  "stn_chain_rpc_adapter_bind a =
     \<lparr>chain_user = a, chain_tip = Some rpc_tip, chain_template_get = Some rpc_template,
      chain_submit = Some rpc_submit\<rparr>"

section \<open>The adapter is a provider\<close>

lemma map_rpc_OK [simp]: "map_rpc code = STN_STRATUM_OK \<longleftrightarrow> code = STN_RPC_CLIENT_OK"
  by (cases code) (simp_all add: map_rpc_def)

lemma rpc_tip_OK:
  "rpc_tip a = (a', STN_STRATUM_OK, tip) \<Longrightarrow> length tip = 32"
  by (auto simp: rpc_tip_def Let_def split: option.splits prod.splits if_splits)

lemma rpc_template_OK:
  assumes "rpc_template a cap = (a', STN_STRATUM_OK, base, jid, target, height, block)"
  obtains c c' p where "a = Some c" "a' = Some c'"
    "stn_rpc_client_mining_template c STN_RPC_CLIENT_MAX_PAYLOAD = (c', STN_RPC_CLIENT_OK, p)"
    "236 \<le> length p" "length p - 68 \<le> cap" "be_nat (bytes_at 64 4 p) = length p - 68"
    "base = bytes_at 0 32 p" "jid = bytes_at 32 32 p" "target = bytes_at 188 32 p"
    "height = read64be p 140" "block = drop 68 p"
proof -
  from assms obtain c where a: "a = Some c" by (auto simp: rpc_template_def split: option.splits)
  obtain c' code p where call: "stn_rpc_client_mining_template c STN_RPC_CLIENT_MAX_PAYLOAD = (c', code, p)"
    by (cases "stn_rpc_client_mining_template c STN_RPC_CLIENT_MAX_PAYLOAD") auto
  have facts: "code = STN_RPC_CLIENT_OK" "236 \<le> length p" "unat (read32be p 64) = length p - 68"
    "length p - 68 \<le> cap" "a' = Some c'" "base = bytes_at 0 32 p" "jid = bytes_at 32 32 p"
    "target = bytes_at 188 32 p" "height = read64be p 140" "block = bytes_at 68 (length p - 68) p"
    using assms call by (auto simp: a rpc_template_def Let_def split: if_splits)
  show ?thesis
    using that [OF a facts(5) call [unfolded facts(1)] facts(2,4) _ facts(6-9)] facts(2,3,10)
    by (simp add: srv32.get_value) (simp add: bytes_at_def)
qed

lemma rpc_template_sizes:
  assumes "rpc_template a cap = (a', STN_STRATUM_OK, base, jid, target, height, block)"
  shows "length base = 32 \<and> length jid = 32 \<and> 168 \<le> length block \<and> length block \<le> cap"
    and "target = bytes_at 120 32 block \<and> unat height = be_nat (bytes_at 72 8 block)"
  using assms by (auto elim!: rpc_template_OK simp: srv64.get_value buf_simps)

interpretation adapter: chain_provider rpc_tip rpc_template
  by unfold_locales (use rpc_tip_OK rpc_template_sizes in blast)+

text \<open>
  C18. Refreshing a job through the adapter either installs a complete job
  (base and work id of 32 bytes, a block of 168 to 1,048,576 bytes, and the target and height read
  from that block's header) and reports OK, or leaves the old job exactly as it was.
\<close>

theorem adapter_refresh_job:
  assumes "stn_stratum_job_refresh (Some j) (Some (stn_chain_rpc_adapter_bind a)) = (j', c', st)"
  shows "if st = STN_STRATUM_OK then \<exists>k. j' = Some k \<and> job_ok k else j' = Some j"
  using adapter.refresh_job [OF _ assms] by (simp add: stn_chain_rpc_adapter_bind_def)

theorem adapter_refresh_job_witness:
  "\<exists>k. fst (stn_stratum_job_refresh (Some sample_job) (Some (stn_chain_rpc_adapter_bind
      (Some (stn_rpc_client_init [] () (Some (sample_exchange 0x2002 0 example_template))))))) = Some k \<and> job_ok k"
proof -
  let ?a = "Some (stn_rpc_client_init [] () (Some (sample_exchange 0x2002 0 example_template)))"
  have "stn_rpc_client_mining_template (the ?a) STN_RPC_CLIENT_MAX_PAYLOAD =
      ((the ?a)\<lparr>next_request_id := 2\<rparr>, STN_RPC_CLIENT_OK, example_template)"
    by (simp add: stn_rpc_client_mining_template_def rpc_call_def stn_rpc_client_init_def
        rpc_take_id_def sample_exchange_def rpc_check_frame rpc_payload_ok_def
        example_template_fields STNB_def)
  moreover have "unat (read32be example_template 64) = 168"
    by (simp add: srv32.get_value example_template_fields)
  moreover have "bytes_at 68 168 example_template = example_block" "example_block \<noteq> []"
    using example_template_fields(8) length_example_block by (auto simp: bytes_at_def simp del: length_example_block)
  ultimately obtain j' c' where run:
      "stn_stratum_job_refresh (Some sample_job) (Some (stn_chain_rpc_adapter_bind ?a)) = (j', c', STN_STRATUM_OK)"
    by (auto simp: stn_stratum_job_refresh_def stn_chain_rpc_adapter_bind_def rpc_template_def Let_def
        stn_stratum_job_set_def)
  from adapter_refresh_job [OF run] show ?thesis by (simp add: run)
qed

section \<open>The submitted work\<close>

lemma be_fields_write32be:
  assumes "n < 2 ^ 32"
  shows "p[k := of_nat (n div 2 ^ 24), k + 1 := of_nat (n div 2 ^ 16), k + 2 := of_nat (n div 2 ^ 8), k + 3 := of_nat n] =
    write32be p k (of_nat n)"
proof -
  have "of_nat (n div 2 ^ j) = (ucast (drop_bit j (of_nat n :: u32)) :: byte)" for j
    using assms
    by (simp add: word_unat_eq_iff unat_ucast_byte unsigned_drop_bit_eq)
      (simp add: unat_of_nat take_bit_eq_mod drop_bit_eq_div)
  from this [of 24] this [of 16] this [of 8] this [of 0] show ?thesis
    by (simp add: write32be_def)
qed

lemma submit_payload_layout:
  assumes len: "length base = 32" "length jid = 32" "length identity = 69"
    and n: "length block = n" "168 \<le> n" "n < 2 ^ 32"
  shows "rpc_submit_payload base jid block n identity nonce =
    base @ jid @ be_bytes 4 (of_nat n :: u32) @ identity @ take 152 block @ be_bytes 8 nonce @ drop 160 block"
proof -
  have z: "replicate (137 + n) (0 :: byte) = [] @ replicate (137 + n) 0" by simp
  have f: "p[64 := of_nat (n div 2 ^ 24), 65 := of_nat (n div 2 ^ 16), 66 := of_nat (n div 2 ^ 8), 67 := of_nat n] =
      write32be p 64 (of_nat n)" for p
    using be_fields_write32be [OF n(3), of p 64] by simp
  have a: "blit 0 base (replicate (137 + n) 0) = base @ replicate (105 + n) 0"
    using len by (simp add: blit_def)
  have b: "blit 32 jid (base @ replicate (105 + n) 0) = (base @ jid) @ replicate (73 + n) 0"
    using len by (simp add: blit_fill)
  have c: "write32be ((base @ jid) @ replicate (73 + n) 0) 64 (of_nat n) =
      (base @ jid @ be_bytes 4 (of_nat n :: u32)) @ replicate (69 + n) 0"
    using len by (simp add: write32be_blit blit_fill del: append_assoc)
  have d: "blit 68 identity ((base @ jid @ be_bytes 4 (of_nat n :: u32)) @ replicate (69 + n) 0) =
      (base @ jid @ be_bytes 4 (of_nat n :: u32) @ identity) @ replicate n 0"
    using len by (simp add: blit_fill del: append_assoc)
  have e: "blit 137 block ((base @ jid @ be_bytes 4 (of_nat n :: u32) @ identity) @ replicate n 0) =
      (base @ jid @ be_bytes 4 (of_nat n :: u32) @ identity) @ block"
    using len n by (simp add: blit_fill del: append_assoc)
  have g: "write64be ((base @ jid @ be_bytes 4 (of_nat n :: u32) @ identity) @ block) 289 nonce =
      (base @ jid @ be_bytes 4 (of_nat n :: u32) @ identity) @ take 152 block @ be_bytes 8 nonce @ drop 160 block"
    using len n by (simp add: srv64.put_blit blit_def)
  have t: "take 32 base = base" "take 32 jid = jid" "take 69 identity = identity" "take n block = block"
    using len n by simp_all
  have o:
    "137 + 152 = (289 :: nat)" "68 + STN_STRATUM_MINER_IDENTITY_SIZE = 137" by simp_all
  show ?thesis
    unfolding rpc_submit_payload_def Let_def t o f a b c d e g by simp
qed

text \<open>The template with the miner's identity before the block and the nonce in its field.\<close>

definition work_with_nonce :: "bytes \<Rightarrow> bytes \<Rightarrow> u64 \<Rightarrow> bytes" where
  "work_with_nonce template identity nonce =
     take 68 template @ identity @ bytes_at 68 152 template @ be_bytes 8 nonce @ drop 228 template"

lemma template_prefix:
  assumes "236 \<le> length p" "be_nat (bytes_at 64 4 p) = length p - 68"
  shows "bytes_at 0 32 p @ bytes_at 32 32 p @ be_bytes 4 (of_nat (length p - 68) :: u32) = take 68 p"
proof -
  have "be_nat (bytes_at 64 4 p) < 2 ^ 32"
    using be_nat_bound [of "bytes_at 64 4 p"] assms(1) by simp
  then have small: "length p - 68 < 2 ^ 32" using assms(2) by simp
  have "be_nat (be_bytes 4 (of_nat (length p - 68) :: u32)) = length p - 68"
    using small by (simp only: be_nat_be_bytes unat_of_nat_u32 mod_less) simp
  then have "be_bytes 4 (of_nat (length p - 68) :: u32) = bytes_at 64 4 p"
    using assms by (subst be_nat_inject [symmetric]) simp_all
  then show ?thesis
    using take_add [of 64 4 p] take_add [of 32 32 p] by (simp add: bytes_at_def)
qed

lemma template_round_trip:
  assumes "236 \<le> length p" "be_nat (bytes_at 64 4 p) = length p - 68" "length identity = 69"
  shows "rpc_submit_payload (bytes_at 0 32 p) (bytes_at 32 32 p) (drop 68 p) (length p - 68) identity nonce =
    work_with_nonce p identity nonce"
proof -
  have "length p - 68 < 2 ^ 32"
    using be_nat_bound [of "bytes_at 64 4 p"] assms(1,2) by simp
  then have "rpc_submit_payload (bytes_at 0 32 p) (bytes_at 32 32 p) (drop 68 p) (length p - 68) identity nonce =
      (bytes_at 0 32 p @ bytes_at 32 32 p @ be_bytes 4 (of_nat (length p - 68) :: u32)) @ identity @
        take 152 (drop 68 p) @ be_bytes 8 nonce @ drop 160 (drop 68 p)"
    using assms by (subst submit_payload_layout) simp_all
  then show ?thesis
    unfolding template_prefix [OF assms(1,2)] by (simp add: work_with_nonce_def bytes_at_def)
qed

lemma rpc_submit_OK:
  assumes "rpc_submit (Some d) base jid block n identity nonce = (a', STN_STRATUM_OK)"
    "length (rpc_submit_payload base jid block n identity nonce) = 137 + n"
  shows "\<exists>d' ex i q. a' = Some d' \<and> rc_exchange d = Some ex \<and> i \<noteq> 0 \<and> length q = 80 \<and>
    ex (transport_user d)
      (rpc_frame 1 STN_RPC_CLIENT_SUBMIT_WORK 0 i (rpc_submit_payload base jid block n identity nonce)) 104 =
    (transport_user d', Some (rpc_frame 2 STN_RPC_CLIENT_SUBMIT_WORK 0 i q))"
proof -
  let ?p = "rpc_submit_payload base jid block n identity nonce"
  obtain d' q where call: "rpc_call d STN_RPC_CLIENT_SUBMIT_WORK (Some ?p) (137 + n) 80 = (d', STN_RPC_CLIENT_OK, q)"
    and a': "a' = Some d'"
    using assms(1)
    by (auto simp: rpc_submit_def stn_rpc_client_submit_work_def Let_def split: if_splits prod.splits)
  from call obtain ex i r where "rc_exchange d = Some ex" "i \<noteq> 0"
    "ex (transport_user d) (rpc_request STN_RPC_CLIENT_SUBMIT_WORK i ?p (137 + n)) (24 + 80) = (transport_user d', Some r)"
    "rpc_check_response STN_RPC_CLIENT_SUBMIT_WORK i 80 r = (STN_RPC_CLIENT_OK, q)"
    by (rule rpc_call_outcome) auto
  then show ?thesis
    using a' assms(2) by (auto simp: rpc_request_frame rpc_check_OK rpc_payload_ok_def)
qed

text \<open>
  C17. Work goes back to the Chain as it came, with only the miner's data
  added: when a job's fields come from a template, a submission that succeeds has sent one
  SUBMIT\_WORK frame whose payload is that template, byte for byte, with the 69 byte identity
  inserted before the block and the nonce in the block's nonce field, and has received the 80
  byte answer to that very request.
\<close>

theorem adapter_round_trip:
  assumes "stn_rpc_client_mining_template c STN_RPC_CLIENT_MAX_PAYLOAD = (c', STN_RPC_CLIENT_OK, p)"
    and "rpc_template (Some c) cap = (Some c', STN_STRATUM_OK, base, jid, target, height, block)"
    and "length identity = 69"
    and "rpc_submit (Some d) base jid block (length block) identity nonce = (a', STN_STRATUM_OK)"
  shows "\<exists>d' ex i q. a' = Some d' \<and> rc_exchange d = Some ex \<and> i \<noteq> 0 \<and> length q = 80 \<and>
    ex (transport_user d)
      (rpc_frame 1 STN_RPC_CLIENT_SUBMIT_WORK 0 i (work_with_nonce p identity nonce)) 104 =
    (transport_user d', Some (rpc_frame 2 STN_RPC_CLIENT_SUBMIT_WORK 0 i q))"
proof -
  have p: "236 \<le> length p" "be_nat (bytes_at 64 4 p) = length p - 68"
    "base = bytes_at 0 32 p" "jid = bytes_at 32 32 p" "block = drop 68 p"
    using assms(2) by (rule rpc_template_OK; use assms(1) in auto)+
  have pay: "rpc_submit_payload base jid block (length block) identity nonce = work_with_nonce p identity nonce"
    using template_round_trip [OF p(1,2) assms(3), of nonce] by (simp add: p(3-5))
  have "length (work_with_nonce p identity nonce) = 137 + length block"
    using p assms(3) by (simp add: work_with_nonce_def)
  then show ?thesis
    using rpc_submit_OK [OF assms(4)] by (simp add: pay)
qed

theorem adapter_round_trip_witness:
  "\<exists>i q. sample_exchange 0x2003 0 (replicate 80 9) ()
      (rpc_frame 1 0x2003 0 i (work_with_nonce example_template (replicate 69 1) 5)) 104 =
    ((), Some (rpc_frame 2 0x2003 0 i q))"
proof -
  let ?c = "stn_rpc_client_init [] () (Some (sample_exchange 0x2002 0 example_template))"
  let ?d = "stn_rpc_client_init [] () (Some (sample_exchange 0x2003 0 (replicate 80 9)))"
  let ?block = "bytes_at 68 168 example_template"
  have c: "stn_rpc_client_mining_template ?c STN_RPC_CLIENT_MAX_PAYLOAD =
      (?c\<lparr>next_request_id := 2\<rparr>, STN_RPC_CLIENT_OK, example_template)"
    by (simp add: stn_rpc_client_mining_template_def rpc_call_def stn_rpc_client_init_def
        rpc_take_id_def sample_exchange_def rpc_check_frame rpc_payload_ok_def
        example_template_fields STNB_def)
  have "unat (read32be example_template 64) = 168"
    by (simp add: srv32.get_value example_template_fields)
  then have t: "rpc_template (Some ?c) 168 = (Some (?c\<lparr>next_request_id := 2\<rparr>), STN_STRATUM_OK,
      bytes_at 0 32 example_template, bytes_at 32 32 example_template, bytes_at 188 32 example_template,
      read64be example_template 140, ?block)"
    using c by (simp add: rpc_template_def Let_def)
  have n: "length ?block = 168" by simp
  have s: "rpc_submit (Some ?d) (bytes_at 0 32 example_template) (bytes_at 32 32 example_template)
      ?block (length ?block) (replicate 69 1) 5 = (Some (?d\<lparr>next_request_id := 2\<rparr>), STN_STRATUM_OK)"
    unfolding n
    by (simp add: rpc_submit_def stn_rpc_client_submit_work_def rpc_call_def stn_rpc_client_init_def
        rpc_take_id_def sample_exchange_def rpc_check_frame rpc_payload_ok_def)
  show ?thesis
    using adapter_round_trip [OF c t _ s] by (simp add: stn_rpc_client_init_def) metis
qed

end
