(* ===== verification/Chain_Config.thy ===== *)
theory Chain_Config
  imports Stn_Prelude
begin

text \<open>
  The configuration of the Chain servers (\<^verbatim>\<open>src/stn_chain_config.c\<close>): reading the file, the parser,
  releasing. A \<^verbatim>\<open>const char *\<close> into the text is the rest of the text from there on, so that \<open>[]\<close> is
  the pointer at the terminating NUL; a C string that was allocated is its bytes without the NUL.

  The allocator is a script of outcomes with a count of the live blocks, and the count of open
  files is kept too, so that leaks are visible. \<^verbatim>\<open>isspace\<close> and \<^verbatim>\<open>isdigit\<close> are those of the C locale,
  which the program never changes.
\<close>

section \<open>State\<close>

record config_entry =
  cfg_host :: bytes
  cfg_port :: u16

record cmem =
  cm_script :: "bool list"
  cm_live :: int
  cm_files :: int

definition cm_malloc :: "cmem \<Rightarrow> bool \<times> cmem" where
  "cm_malloc m =
     (case alloc_next (cm_script m) of
        (got, script) \<Rightarrow> (got, m\<lparr>cm_script := script, cm_live := cm_live m + (if got then 1 else 0)\<rparr>))"

text \<open>\<open>free\<close> of a pointer that may be NULL.\<close>

definition cm_free :: "bytes option \<Rightarrow> cmem \<Rightarrow> cmem" where
  "cm_free p m = (if p = None then m else m\<lparr>cm_live := cm_live m - 1\<rparr>)"

section \<open>Scanning\<close>

definition isspace :: "byte \<Rightarrow> bool" where
  "isspace c \<longleftrightarrow> c = 32 \<or> (9 \<le> c \<and> c \<le> 13)"

definition isdigit :: "byte \<Rightarrow> bool" where
  "isdigit c \<longleftrightarrow> 48 \<le> c \<and> c \<le> 57"

fun skip_space :: "bytes \<Rightarrow> bytes" where
  "skip_space [] = []"
| "skip_space (c # cs) = (if isspace c then skip_space cs else c # cs)"

text \<open>
  The first loop of \<open>parse_string\<close>, up to the closing quote: the number of characters, the text
  between the quotes, and the rest after the quote.
\<close>

fun scan_string :: "bytes \<Rightarrow> (nat \<times> bytes \<times> bytes) option" where
  "scan_string [] = None"
| "scan_string (c # cs) =
     (if c = 0x22 then Some (0, [], cs)
      else if c = 0x5c then
        (case cs of
           [] \<Rightarrow> None
         | d # ds \<Rightarrow> map_option (\<lambda>(n, raw, rest). (n + 1, c # d # raw, rest)) (scan_string ds))
      else map_option (\<lambda>(n, raw, rest). (n + 1, c # raw, rest)) (scan_string cs))"

definition escape_value :: "byte \<Rightarrow> byte option" where
  "escape_value c =
     (if c = 0x22 then Some 0x22
      else if c = 0x5c then Some 0x5c
      else if c = 0x2f then Some 0x2f
      else if c = 0x62 then Some 8
      else if c = 0x66 then Some 12
      else if c = 0x6e then Some 10
      else if c = 0x72 then Some 13
      else if c = 0x74 then Some 9
      else None)"

text \<open>The second loop; a backslash that is the last character would escape the closing quote.\<close>

fun copy_string :: "bytes \<Rightarrow> bytes option" where
  "copy_string [] = Some []"
| "copy_string (c # cs) =
     (if c = 0x5c then
        (case cs of
           [] \<Rightarrow> Some [0x22]
         | d # ds \<Rightarrow>
           (case escape_value d of
              None \<Rightarrow> None
            | Some v \<Rightarrow> map_option ((#) v) (copy_string ds)))
      else map_option ((#) c) (copy_string cs))"

text \<open>The string and the rest of the text, or the failure of the parse.\<close>

definition parse_string :: "bytes \<Rightarrow> cmem \<Rightarrow> (bytes \<times> bytes) option \<times> cmem" where
  "parse_string p m =
     (case skip_space p of
        [] \<Rightarrow> (None, m)
      | c # start \<Rightarrow>
        if c \<noteq> 0x22 then (None, m)
        else
          (case scan_string start of
             None \<Rightarrow> (None, m)
           | Some (n, raw, rest) \<Rightarrow>
             (case cm_malloc m of
                (got, m) \<Rightarrow>
                  if \<not> got then (None, m)
                  else
                    (case copy_string raw of
                       None \<Rightarrow> (None, cm_free (Some raw) m)
                     | Some v \<Rightarrow> (Some (v, rest), m)))))"

text \<open>
  The loop over the digits; the value stays below 65536, so that \<^verbatim>\<open>unsigned long\<close> does not wrap.
\<close>

fun parse_digits :: "nat \<Rightarrow> bool \<Rightarrow> bytes \<Rightarrow> (nat \<times> bool \<times> bytes) option" where
  "parse_digits v have_digit [] = Some (v, have_digit, [])"
| "parse_digits v have_digit (c # cs) =
     (if isdigit c then
        (let digit = unat (c - 48) in
         if v > 6553 \<or> (v = 6553 \<and> digit > 5) then None
         else parse_digits (v * 10 + digit) True cs)
      else Some (v, have_digit, c # cs))"

definition parse_port :: "bytes \<Rightarrow> (u16 \<times> bytes) option" where
  "parse_port p =
     (case parse_digits 0 False (skip_space p) of
        None \<Rightarrow> None
      | Some (v, have_digit, rest) \<Rightarrow> if \<not> have_digit \<or> v = 0 then None else Some (of_nat v, rest))"

definition expect :: "bytes \<Rightarrow> byte \<Rightarrow> bytes option" where
  "expect p value =
     (case skip_space p of
        [] \<Rightarrow> None
      | c # cs \<Rightarrow> if c \<noteq> value then None else Some cs)"

lemma length_skip_space: "length (skip_space p) \<le> length p"
  by (induction p) auto

lemma skip_space_Cons: "skip_space p = c # cs \<Longrightarrow> length cs < length p"
  using length_skip_space [of p] by simp

lemma scan_string_shorter: "scan_string p = Some (n, raw, rest) \<Longrightarrow> length rest < length p"
proof (induction p arbitrary: n raw rest rule: scan_string.induct)
  case (2 c cs)
  then show ?case by (fastforce split: if_splits list.splits)
qed simp

lemma parse_string_shorter: "parse_string p m = (Some (v, rest), m') \<Longrightarrow> length rest < length p"
  using length_skip_space [of p]
  by (auto simp: parse_string_def split: list.splits if_splits option.splits prod.splits
      dest: scan_string_shorter)

lemma parse_digits_shorter: "parse_digits v b p = Some (w, b', rest) \<Longrightarrow> length rest \<le> length p"
  by (induction v b p rule: parse_digits.induct) (auto simp: Let_def split: if_splits)

lemma parse_port_shorter: "parse_port p = Some (w, rest) \<Longrightarrow> length rest \<le> length p"
  using length_skip_space [of p]
  by (auto simp: parse_port_def split: option.splits prod.splits if_splits dest!: parse_digits_shorter)

lemma expect_shorter: "expect p c = Some rest \<Longrightarrow> length rest < length p"
  using length_skip_space [of p]
  by (auto simp: expect_def split: list.splits if_splits)

section \<open>The parser\<close>

definition host_key :: bytes where "host_key = [0x68, 0x6f, 0x73, 0x74]"
definition port_key :: bytes where "port_key = [0x70, 0x6f, 0x72, 0x74]"
definition servers_key :: bytes where
  "servers_key = [0x63, 0x68, 0x61, 0x69, 0x6e, 0x5f, 0x73, 0x65, 0x72, 0x76, 0x65, 0x72, 0x73]"

text \<open>The local variables of \<open>parse_server\<close>; the host is NULL until it was read.\<close>

record server_vars =
  sv_host :: "bytes option"
  sv_port :: u16
  sv_have_host :: bool
  sv_have_port :: bool

text \<open>
  One member: the rest of the text and the variables, with the key released again; on a failure,
  \<open>None\<close> for the rest.
\<close>

definition server_member :: "bytes \<Rightarrow> server_vars \<Rightarrow> cmem \<Rightarrow> bytes option \<times> server_vars \<times> cmem" where
  "server_member p e m =
     (case parse_string p m of
        (None, m) \<Rightarrow> (None, e, m)
      | (Some (key, p), m) \<Rightarrow>
        (case expect p 0x3a of
           None \<Rightarrow> (None, e, cm_free (Some key) m)
         | Some p \<Rightarrow>
           if key = host_key then
             (if sv_have_host e then (None, e, cm_free (Some key) m)
              else
                (case parse_string p m of
                   (None, m) \<Rightarrow> (None, e, cm_free (Some key) m)
                 | (Some (host, p), m) \<Rightarrow>
                   (let e = e\<lparr>sv_host := Some host\<rparr> in
                    if host = [] then (None, e, cm_free (Some key) m)
                    else (Some p, e\<lparr>sv_have_host := True\<rparr>, cm_free (Some key) m))))
           else if key = port_key then
             (if sv_have_port e then (None, e, cm_free (Some key) m)
              else
                (case parse_port p of
                   None \<Rightarrow> (None, e, cm_free (Some key) m)
                 | Some (port, p) \<Rightarrow>
                   (Some p, e\<lparr>sv_port := port, sv_have_port := True\<rparr>, cm_free (Some key) m)))
           else (None, e, cm_free (Some key) m)))"

text \<open>After the closing brace.\<close>

definition server_finish ::
  "bytes \<Rightarrow> server_vars \<Rightarrow> cmem \<Rightarrow> (config_entry \<times> bytes) option \<times> cmem" where
  "server_finish p e m =
     (if \<not> sv_have_host e \<or> \<not> sv_have_port e then (None, cm_free (sv_host e) m)
      else (Some (\<lparr>cfg_host = the (sv_host e), cfg_port = sv_port e\<rparr>, p), m))"

text \<open>The loop over the members, after the opening brace.\<close>

lemma server_member_shorter: "server_member p e m = (Some p', e', m') \<Longrightarrow> length p' < length p"
  by (auto simp: server_member_def Let_def split: prod.splits option.splits if_splits
      dest!: parse_string_shorter expect_shorter parse_port_shorter)

function server_members ::
  "bytes \<Rightarrow> server_vars \<Rightarrow> cmem \<Rightarrow> (config_entry \<times> bytes) option \<times> cmem" where
  "server_members p e m =
     (let p = skip_space p in
      if p \<noteq> [] \<and> hd p = 0x7d then server_finish (tl p) e m
      else
        (case server_member p e m of
           (None, e, m) \<Rightarrow> (None, cm_free (sv_host e) m)
         | (Some p, e, m) \<Rightarrow>
           (case skip_space p of
              [] \<Rightarrow> (None, cm_free (sv_host e) m)
            | c # cs \<Rightarrow>
              if c = 0x2c then server_members cs e m
              else if c = 0x7d then server_finish cs e m
              else (None, cm_free (sv_host e) m))))"
  by pat_completeness auto
termination
proof (relation "measure (\<lambda>(p, e, m). length p)", goal_cases)
  case (2 p e m q x y p' e' m' c cs)
  then have "length p' < length q" using server_member_shorter by metis
  moreover have "length cs < length p'" using 2 length_skip_space [of p'] by simp
  ultimately show ?case using 2 length_skip_space [of p] by simp
qed simp

declare server_members.simps [simp del]

definition parse_server :: "bytes \<Rightarrow> cmem \<Rightarrow> (config_entry \<times> bytes) option \<times> cmem" where
  "parse_server p m =
     (case expect p 0x7b of
        None \<Rightarrow> (None, m)
      | Some p \<Rightarrow>
        server_members p \<lparr>sv_host = None, sv_port = 0, sv_have_host = False, sv_have_port = False\<rparr> m)"

text \<open>
  Growing the array by one entry. \<^verbatim>\<open>realloc\<close> of a NULL array makes a new block, otherwise it
  replaces the block. An entry has 16 bytes.
\<close>

definition append_server ::
  "config_entry list \<Rightarrow> config_entry \<Rightarrow> cmem \<Rightarrow> bool \<times> config_entry list \<times> cmem" where
  "append_server servers entry m =
     (if length servers = (2 ^ 64 - 1) div 16 then (False, servers, m)
      else
        (case alloc_next (cm_script m) of
           (got, script) \<Rightarrow>
             (let m = m\<lparr>cm_script := script\<rparr> in
              if \<not> got then (False, servers, m)
              else (True, servers @ [entry], m\<lparr>cm_live := cm_live m + (if servers = [] then 1 else 0)\<rparr>))))"

lemma server_members_shorter:
  "server_members p e m = (Some (entry, p'), m') \<Longrightarrow> length p' < length p"
proof (induction p e m rule: server_members.induct)
  case (1 p e m)
  have skip: "length (skip_space p) \<le> length p" by (rule length_skip_space)
  show ?case
  proof (cases "skip_space p \<noteq> [] \<and> hd (skip_space p) = 0x7d")
    case True
    then show ?thesis
      using "1.prems" skip
      by (cases "skip_space p")
        (auto simp: server_members.simps [of p] Let_def server_finish_def split: if_splits)
  next
    case False
    obtain r e' n where mem: "server_member (skip_space p) e m = (r, e', n)" by (rule prod_cases3)
    show ?thesis
    proof (cases r)
      case None
      then show ?thesis using "1.prems" False mem by (auto simp: server_members.simps [of p] Let_def)
    next
      case (Some q)
      note q = server_member_shorter [OF mem [unfolded Some]]
      show ?thesis
        using "1.prems" False mem Some q skip length_skip_space [of q]
          "1.IH" [OF refl False mem [unfolded Some, symmetric] refl refl]
        by (fastforce simp: server_members.simps [of p] Let_def server_finish_def split: list.splits if_splits)
    qed
  qed
qed

lemma parse_server_shorter: "parse_server p m = (Some (entry, p'), m') \<Longrightarrow> length p' < length p"
  by (auto simp: parse_server_def split: option.splits dest!: expect_shorter server_members_shorter)

text \<open>The loop of \<open>parse_servers\<close>; the array keeps what was read before a failure.\<close>

function servers_loop :: "bytes \<Rightarrow> config_entry list \<Rightarrow> cmem \<Rightarrow> bytes option \<times> config_entry list \<times> cmem" where
  "servers_loop p servers m =
     (case parse_server p m of
        (None, m) \<Rightarrow> (None, servers, m)
      | (Some (entry, p), m) \<Rightarrow>
        (case append_server servers entry m of
           (ok, servers, m) \<Rightarrow>
             if \<not> ok then (None, servers, cm_free (Some (cfg_host entry)) m)
             else
               (case skip_space p of
                  [] \<Rightarrow> (None, servers, m)
                | c # cs \<Rightarrow>
                  if c = 0x2c then servers_loop cs servers m
                  else if c = 0x5d then (Some cs, servers, m)
                  else (None, servers, m))))"
  by pat_completeness auto
termination
  by (relation "measure (\<lambda>(p, servers, m). length p)")
    (auto dest!: skip_space_Cons parse_server_shorter [OF sym])

declare servers_loop.simps [simp del]

definition parse_servers :: "bytes \<Rightarrow> config_entry list \<Rightarrow> cmem \<Rightarrow> bytes option \<times> config_entry list \<times> cmem" where
  "parse_servers p servers m =
     (case expect p 0x5b of
        None \<Rightarrow> (None, servers, m)
      | Some p \<Rightarrow>
        (let p = skip_space p in
         if p \<noteq> [] \<and> hd p = 0x5d then (None, servers, m) else servers_loop p servers m))"

lemma servers_loop_shorter: "servers_loop p servers m = (Some p', servers', m') \<Longrightarrow> length p' < length p"
proof (induction p servers m rule: servers_loop.induct)
  case (1 p servers m)
  obtain r n where ps: "parse_server p m = (r, n)" by fastforce
  show ?case
  proof (cases r)
    case None
    then show ?thesis using "1.prems" ps by (simp add: servers_loop.simps [of p])
  next
    case (Some x)
    obtain entry q where x: "x = (entry, q)" by fastforce
    obtain ok servers2 k where app: "append_server servers entry n = (ok, servers2, k)" by (rule prod_cases3)
    note q = parse_server_shorter [OF ps [unfolded Some x]]
    show ?thesis
      using "1.prems" ps Some x app q length_skip_space [of q]
        "1.IH" [OF ps [symmetric] Some x [symmetric] app [symmetric] refl]
      by (fastforce simp: servers_loop.simps [of p] split: list.splits if_splits)
  qed
qed

lemma parse_servers_shorter: "parse_servers p servers m = (Some p', servers', m') \<Longrightarrow> length p' < length p"
  by (auto simp: parse_servers_def Let_def split: option.splits if_splits
      dest!: expect_shorter servers_loop_shorter intro: less_trans less_le_trans [OF _ length_skip_space])

text \<open>One member of the top level object; as with \<open>server_member\<close>, the key is released again.\<close>

definition config_member ::
  "bytes \<Rightarrow> bool \<Rightarrow> config_entry list \<Rightarrow> cmem \<Rightarrow> bytes option \<times> config_entry list \<times> cmem" where
  "config_member p have_servers servers m =
     (case parse_string p m of
        (None, m) \<Rightarrow> (None, servers, m)
      | (Some (key, p), m) \<Rightarrow>
        (case expect p 0x3a of
           None \<Rightarrow> (None, servers, cm_free (Some key) m)
         | Some p \<Rightarrow>
           if key = servers_key then
             (if have_servers then (None, servers, cm_free (Some key) m)
              else
                (case parse_servers p servers m of
                   (r, servers, m) \<Rightarrow> (r, servers, cm_free (Some key) m)))
           else (None, servers, cm_free (Some key) m)))"

definition config_finish :: "bytes \<Rightarrow> bool \<Rightarrow> config_entry list \<Rightarrow> bool" where
  "config_finish p have_servers servers \<longleftrightarrow> \<not> (skip_space p \<noteq> [] \<or> \<not> have_servers \<or> length servers = 0)"

lemma config_member_shorter:
  "config_member p h servers m = (Some p', servers', m') \<Longrightarrow> length p' < length p"
  by (auto simp: config_member_def split: prod.splits option.splits if_splits
      dest!: parse_string_shorter expect_shorter parse_servers_shorter)

function config_members ::
  "bytes \<Rightarrow> bool \<Rightarrow> config_entry list \<Rightarrow> cmem \<Rightarrow> bool \<times> config_entry list \<times> cmem" where
  "config_members p have_servers servers m =
     (let p = skip_space p in
      if p \<noteq> [] \<and> hd p = 0x7d then (config_finish (tl p) have_servers servers, servers, m)
      else
        (case config_member p have_servers servers m of
           (None, servers, m) \<Rightarrow> (False, servers, m)
         | (Some p, servers, m) \<Rightarrow>
           (case skip_space p of
              [] \<Rightarrow> (False, servers, m)
            | c # cs \<Rightarrow>
              if c = 0x2c then config_members cs True servers m
              else if c = 0x7d then (config_finish cs True servers, servers, m)
              else (False, servers, m))))"
  by pat_completeness auto
termination
  by (relation "measure (\<lambda>(p, h, servers, m). length p)")
    (auto dest!: skip_space_Cons config_member_shorter [OF sym] intro: less_le_trans [OF _ length_skip_space])

declare config_members.simps [simp del]

definition parse_config :: "bytes \<Rightarrow> config_entry list \<Rightarrow> cmem \<Rightarrow> bool \<times> config_entry list \<times> cmem" where
  "parse_config p servers m =
     (case expect p 0x7b of
        None \<Rightarrow> (False, servers, m)
      | Some p \<Rightarrow> config_members p False servers m)"

section \<open>Reading, loading and closing\<close>

text \<open>
  What the calls on the file will return: whether it opens, whether the two seeks succeed, the
  position that \<^verbatim>\<open>ftell\<close> reports, the bytes of the file.
\<close>

record file_env =
  fe_open :: bool
  fe_seek_end :: bool
  fe_tell :: int
  fe_seek_set :: bool
  fe_data :: bytes

definition cm_fopen :: "cmem \<Rightarrow> cmem" where "cm_fopen m = m\<lparr>cm_files := cm_files m + 1\<rparr>"
definition cm_fclose :: "cmem \<Rightarrow> cmem" where "cm_fclose m = m\<lparr>cm_files := cm_files m - 1\<rparr>"

definition read_file :: "file_env \<Rightarrow> cmem \<Rightarrow> bytes option \<times> cmem" where
  "read_file e m =
     (if \<not> fe_open e then (None, m)
      else
        (let m = cm_fopen m in
         if \<not> fe_seek_end e then (None, cm_fclose m)
         else if fe_tell e < 0 then (None, cm_fclose m)
         else if \<not> fe_seek_set e then (None, cm_fclose m)
         else if fe_tell e \<ge> 2 ^ 64 - 1 then (None, cm_fclose m)
         else
           (case cm_malloc m of
              (got, m) \<Rightarrow>
                if \<not> got then (None, cm_fclose m)
                else
                  (let text = take (nat (fe_tell e)) (fe_data e) in
                   if length text \<noteq> nat (fe_tell e) then (None, cm_fclose (cm_free (Some text) m))
                   else (Some text, cm_fclose m)))))"

text \<open>Releasing the hosts one by one, then the array, which is NULL when it is empty.\<close>

definition stn_chain_config_close :: "config_entry list \<Rightarrow> cmem \<Rightarrow> config_entry list \<times> cmem" where
  "stn_chain_config_close servers m =
     (let m = fold (\<lambda>entry. cm_free (Some (cfg_host entry))) servers m in
      ([], cm_free (if servers = [] then None else Some []) m))"

text \<open>The text that the parser sees ends at the first NUL of the file.\<close>

definition c_text :: "bytes \<Rightarrow> bytes" where
  "c_text text = takeWhile (\<lambda>c. c \<noteq> 0) text"

definition stn_chain_config_load ::
  "config_entry list option \<Rightarrow> file_env option \<Rightarrow> cmem \<Rightarrow> bool \<times> config_entry list option \<times> cmem" where
  "stn_chain_config_load config path m =
     (case (config, path) of
        (Some config, Some e) \<Rightarrow>
          (case read_file e m of
             (None, m) \<Rightarrow> (False, Some config, m)
           | (Some text, m) \<Rightarrow>
             (case parse_config (c_text text) [] m of
                (ok, loaded, m) \<Rightarrow>
                  if \<not> ok then
                    (False, Some config, snd (stn_chain_config_close loaded (cm_free (Some text) m)))
                  else
                    (let m = cm_free (Some text) m in
                     (True, Some loaded, snd (stn_chain_config_close config m)))))
      | _ \<Rightarrow> (False, config, m))"

end
