(* ===== verification/Server_State.thy ===== *)
theory Server_State
  imports Rpc_Client Sessions Miner_Job Chain_Config
begin

text \<open>
  The state of the mining server (\<^verbatim>\<open>includes/stn_stratum_server.h\<close>) and the operations of
  \<^verbatim>\<open>src/stn_stratum_server.c\<close> on its list of clients, in the branch for Linux: removal, sending
  a job, sending a result, accepting.

  The linked list of clients is a list in list order; a pointer to a client is its \<open>sess_id\<close>.
  A function that is given a pointer looks the client up: if it is not in the list, it has been
  freed, and reading it is recorded in \<open>fault\<close>. Log output is left out. The platform's transport
  is the record \<open>transport_ops\<close> of its three operations.
\<close>

section \<open>State\<close>

record 'u transport_ops =
  op_init :: "'u \<Rightarrow> bytes option \<Rightarrow> u16 \<Rightarrow> 'u"
  op_close :: "'u \<Rightarrow> 'u"
  op_exchange :: "'u exchange"

text \<open>
  \<open>active_template\<close> is the template buffer up to the last byte ever written; it is zero beyond.
  \<open>pool_accepts\<close>, \<open>solo_accepts\<close> and \<open>srv_mem\<close> are what \<open>accept\<close> on the two listeners and the
  allocator will do. The last four fields are bookkeeping for the theorems: the identity of the
  next client, the clients freed, the descriptors closed, and the fault flag.
\<close>

record 'u server =
  ops :: "'u transport_ops"
  chain_config :: "config_entry list"
  active_chain_server :: nat
  chain_rpc :: "'u rpc_client"
  active_base :: bytes
  active_job_id :: bytes
  active_template :: bytes
  active_template_length :: nat
  have_work :: bool
  pool_listener :: listener
  solo_listener :: listener
  clients :: "session list"
  client_count :: nat
  running :: bool
  chain_available :: bool
  loop_count :: u64
  chain_poll_count :: u64
  pool_accepts :: "accept_event list"
  solo_accepts :: "accept_event list"
  srv_mem :: "bool list"
  next_cid :: nat
  released :: "session list"
  closed_fds :: "int list"
  fault :: bool

section \<open>The list of clients\<close>

definition client_of :: "'u server \<Rightarrow> nat \<Rightarrow> session option" where
  "client_of s cid = find (\<lambda>c. sess_id c = cid) (clients s)"

definition upd_client :: "nat \<Rightarrow> session \<Rightarrow> 'u server \<Rightarrow> 'u server" where
  "upd_client cid c' s = s\<lparr>clients := map (\<lambda>c. if sess_id c = cid then c' else c) (clients s)\<rparr>"

text \<open>The walk to the link that points at the client, and its removal.\<close>

fun unlink :: "nat \<Rightarrow> session list \<Rightarrow> session list" where
  "unlink cid [] = []"
| "unlink cid (c # cs) = (if sess_id c = cid then cs else c # unlink cid cs)"

definition client_remove :: "'u server \<Rightarrow> nat \<Rightarrow> 'u server" where
  "client_remove s cid =
     (case client_of s cid of
        None \<Rightarrow> s
      | Some c \<Rightarrow>
        (case stn_session_acceptor_release c of
           (c, closed) \<Rightarrow>
             s\<lparr>clients := unlink cid (clients s),
               client_count := (if client_count s \<noteq> 0 then client_count s - 1 else client_count s),
               released := c # released s,
               closed_fds := closed_fds s @ closed\<rparr>))"

section \<open>Sending\<close>

definition sess_send :: "session \<Rightarrow> bytes \<Rightarrow> bool \<times> session" where
  "sess_send c p =
     (case send_all (sess_sends c) p of
        (ok, sends, out) \<Rightarrow> (ok, c\<lparr>sess_sends := sends, sess_out := sess_out c @ out\<rparr>))"

definition client_send_job :: "'u server \<Rightarrow> nat \<Rightarrow> bool \<times> 'u server" where
  "client_send_job s cid =
     (if \<not> have_work s then (True, s)
      else
        (case client_of s cid of
           None \<Rightarrow> (False, s\<lparr>fault := True\<rparr>)
         | Some c \<Rightarrow>
           if sess_socket c = STN_INVALID_SOCKET then (False, s)
           else
             (case stn_miner_job_build (Some (active_template s)) (active_template_length s) of
                None \<Rightarrow> (False, s)
              | Some (header, block_length) \<Rightarrow>
                (case sess_send c header of
                   (ok, c) \<Rightarrow>
                     (case (if ok then sess_send c (bytes_at 68 (unat block_length) (active_template s))
                            else (False, c)) of
                        (ok, c) \<Rightarrow>
                          if \<not> ok then (False, client_remove (upd_client cid c s) cid)
                          else (True, upd_client cid
                                        (c\<lparr>sent_job_id := active_job_id s, has_job := True\<rparr>) s))))))"

definition submit_result_code :: "stn_rpc_client_code \<Rightarrow> u32" where
  "submit_result_code code =
     (case code of
        STN_RPC_CLIENT_OK \<Rightarrow> STN_MINER_RESULT_ACCEPTED
      | STN_RPC_CLIENT_STALE \<Rightarrow> STN_MINER_RESULT_STALE
      | STN_RPC_CLIENT_REJECTED \<Rightarrow> STN_MINER_RESULT_REJECTED
      | STN_RPC_CLIENT_INVALID \<Rightarrow> STN_MINER_RESULT_PROTOCOL
      | STN_RPC_CLIENT_VERSION_ERROR \<Rightarrow> STN_MINER_RESULT_PROTOCOL
      | _ \<Rightarrow> STN_MINER_RESULT_PROVIDER)"

definition result_frame :: "stn_rpc_client_code \<Rightarrow> bytes" where
  "result_frame code =
     (let response = replicate STN_MINER_RESULT_SIZE 0;
          response = blit 0 STN_MINER_MAGIC response;
          response = response[4 := STN_MINER_VERSION, 5 := STN_MINER_RESULT]
      in write32be response 8 (submit_result_code code))"

definition client_send_result :: "'u server \<Rightarrow> nat \<Rightarrow> stn_rpc_client_code \<Rightarrow> 'u server" where
  "client_send_result s cid code =
     (case client_of s cid of
        None \<Rightarrow> s\<lparr>fault := True\<rparr>
      | Some c \<Rightarrow>
        if sess_socket c = STN_INVALID_SOCKET then s
        else
          (case sess_send c (result_frame code) of
             (ok, c) \<Rightarrow>
               if \<not> ok then client_remove (upd_client cid c s) cid else upd_client cid c s))"

section \<open>Accepting\<close>

text \<open>The new client goes to the front of the list.\<close>

definition link_client :: "'u server \<Rightarrow> session \<Rightarrow> 'u server" where
  "link_client s c =
     s\<lparr>clients := c # clients s, client_count := client_count s + 1, next_cid := next_cid s + 1\<rparr>"

lemma conn_fds_append: "conn_fds (es @ es') = conn_fds es @ conn_fds es'"
  by (induction es rule: conn_fds.induct) auto

lemma acceptor_progress:
  "stn_session_acceptor_accept l es mem cid = (r, Some c, es', mem', closed) \<Longrightarrow> length es' < length es"
  using acceptor_accounted by (force simp: accounted_def)

function accept_from_listener ::
  "listener \<Rightarrow> accept_event list \<Rightarrow> 'u server \<Rightarrow> accept_event list \<times> 'u server" where
  "accept_from_listener l es s =
     (case stn_session_acceptor_accept l es (srv_mem s) (next_cid s) of
        (result, client, es', mem, closed) \<Rightarrow>
          (let s = s\<lparr>srv_mem := mem, closed_fds := closed_fds s @ closed\<rparr> in
           case client of
             None \<Rightarrow> (es', s)
           | Some c \<Rightarrow> accept_from_listener l es' (link_client s c)))"
  by pat_completeness auto
termination
  by (relation "measure (\<lambda>(l, es, s). length es)") (auto dest!: acceptor_progress [OF sym])

declare accept_from_listener.simps [simp del]

definition accept_clients :: "'u server \<Rightarrow> 'u server" where
  "accept_clients s =
     (case accept_from_listener (pool_listener s) (pool_accepts s) s of
        (es, s) \<Rightarrow>
          (let s = s\<lparr>pool_accepts := es\<rparr> in
           case accept_from_listener (solo_listener s) (solo_accepts s) s of
             (es, s) \<Rightarrow> s\<lparr>solo_accepts := es\<rparr>))"

end
