(* ===== verification/Server_Work.thy ===== *)
theory Server_Work
  imports Server_State
begin

text \<open>
  The mining work of the server and its Chain connection (\<^verbatim>\<open>src/stn_stratum_server.c\<close>, the
  branch for Linux): discarding work, selecting a Chain server, offering the work to the
  clients, refreshing it. A loop over the clients that saves the next pointer before its body
  is \<open>for_clients\<close>.
\<close>

section \<open>Loops over the clients\<close>

text \<open>The client after \<open>cid\<close> in the list.\<close>

fun succ_id :: "nat \<Rightarrow> session list \<Rightarrow> nat option" where
  "succ_id cid [] = None"
| "succ_id cid (c # cs) =
     (if sess_id c = cid then (case cs of [] \<Rightarrow> None | d # _ \<Rightarrow> Some (sess_id d)) else succ_id cid cs)"

text \<open>
  The loop from a client on. Reading a client that is gone is a fault; so is a loop that runs
  longer than the list was when it began, so that the absence of faults includes termination.
\<close>

fun walk_clients ::
  "('u server \<Rightarrow> nat \<Rightarrow> 'u server) \<Rightarrow> nat \<Rightarrow> nat option \<Rightarrow> 'u server \<Rightarrow> 'u server" where
  "walk_clients body n None s = s"
| "walk_clients body 0 (Some cid) s = s\<lparr>fault := True\<rparr>"
| "walk_clients body (Suc n) (Some cid) s =
     (case client_of s cid of
        None \<Rightarrow> s\<lparr>fault := True\<rparr>
      | Some c \<Rightarrow>
        (let nxt = succ_id cid (clients s) in walk_clients body n nxt (body s cid)))"

definition for_clients :: "('u server \<Rightarrow> nat \<Rightarrow> 'u server) \<Rightarrow> 'u server \<Rightarrow> 'u server" where
  "for_clients body s =
     walk_clients body (length (clients s))
       (case clients s of [] \<Rightarrow> None | c # _ \<Rightarrow> Some (sess_id c)) s"

section \<open>Discarding work\<close>

definition clear_client_jobs :: "'u server \<Rightarrow> 'u server" where
  "clear_client_jobs s =
     s\<lparr>clients := map (\<lambda>c. c\<lparr>has_job := False, hashrate := 0, sent_job_id := replicate 32 0\<rparr>) (clients s)\<rparr>"

definition clear_work :: "'u server \<Rightarrow> 'u server" where
  "clear_work s =
     clear_client_jobs
       (s\<lparr>active_base := replicate 32 0, active_job_id := replicate 32 0,
          active_template_length := 0, have_work := False\<rparr>)"

section \<open>The Chain server\<close>

definition active_chain :: "'u server \<Rightarrow> config_entry option" where
  "active_chain s =
     (if length (chain_config s) = 0 \<or> active_chain_server s \<ge> length (chain_config s) then None
      else Some (chain_config s ! active_chain_server s))"

definition chain_transport_select :: "'u server \<Rightarrow> nat \<Rightarrow> bool \<times> 'u server" where
  "chain_transport_select s index =
     (if index \<ge> length (chain_config s) then (False, s)
      else
        (let s = clear_work s;
             s = s\<lparr>chain_available := False\<rparr>;
             u = op_close (ops s) (transport_user (chain_rpc s));
             s = s\<lparr>active_chain_server := index\<rparr>;
             entry = chain_config s ! index;
             u = op_init (ops s) u (Some (cfg_host entry)) (cfg_port entry)
         in (True, s\<lparr>chain_rpc := stn_rpc_client_init (rc_mem (chain_rpc s)) u (Some (op_exchange (ops s)))\<rparr>)))"

definition chain_transport_next :: "'u server \<Rightarrow> bool \<times> 'u server" where
  "chain_transport_next s =
     (if length (chain_config s) = 0 then (False, s)
      else
        (let next = active_chain_server s + 1;
             next = (if next \<ge> length (chain_config s) then 0 else next)
         in chain_transport_select s next))"

section \<open>Offering and refreshing work\<close>

definition send_pending_job :: "'u server \<Rightarrow> nat \<Rightarrow> 'u server" where
  "send_pending_job s cid =
     (case client_of s cid of
        None \<Rightarrow> s\<lparr>fault := True\<rparr>
      | Some c \<Rightarrow>
        if have_work s \<and> address_registered c \<and>
           (\<not> has_job c \<or> \<not> mem_eq (sent_job_id c) (active_job_id s) 32)
        then snd (client_send_job s cid)
        else s)"

definition send_pending_jobs :: "'u server \<Rightarrow> 'u server" where
  "send_pending_jobs s = for_clients send_pending_job s"

text \<open>A template is written over the front of the buffer.\<close>

definition store_template :: "bytes \<Rightarrow> bytes \<Rightarrow> bytes" where
  "store_template p buffer = p @ drop (length p) buffer"

definition refresh_work :: "'u server \<Rightarrow> 'u server" where
  "refresh_work s =
     (case stn_rpc_client_mining_template (chain_rpc s) STN_RPC_CLIENT_MAX_PAYLOAD of
        (rpc, code, payload) \<Rightarrow>
          (let written = length payload;
               s = s\<lparr>chain_rpc := rpc, active_template := store_template payload (active_template s)\<rparr>;
               s = s\<lparr>chain_poll_count := chain_poll_count s + 1\<rparr>
           in if code \<noteq> STN_RPC_CLIENT_OK then
                (if code = STN_RPC_CLIENT_STALE then clear_work (s\<lparr>chain_available := True\<rparr>)
                 else if code = STN_RPC_CLIENT_CAPACITY then clear_work (s\<lparr>chain_available := True\<rparr>)
                 else if code = STN_RPC_CLIENT_UNAVAILABLE then s\<lparr>chain_available := True\<rparr>
                 else if code = STN_RPC_CLIENT_TRANSPORT
                 then snd (chain_transport_next (clear_work (s\<lparr>chain_available := False\<rparr>)))
                 else clear_work (s\<lparr>chain_available := True\<rparr>))
              else if written < 68 then clear_work (s\<lparr>chain_available := False\<rparr>)
              else
                (let block_length = read32be (active_template s) 64 in
                 if unat block_length \<noteq> written - 68 then clear_work (s\<lparr>chain_available := False\<rparr>)
                 else
                   (let s = s\<lparr>chain_available := True\<rparr>;
                        changed = (\<not> have_work s \<or>
                                   \<not> mem_eq (active_base s) (active_template s) 32 \<or>
                                   \<not> mem_eq (active_job_id s) (drop 32 (active_template s)) 32);
                        s = s\<lparr>active_template_length := written\<rparr>
                    in if changed then
                         (let s = s\<lparr>active_base := take 32 (active_template s),
                                    active_job_id := bytes_at 32 32 (active_template s),
                                    have_work := True\<rparr>
                          in send_pending_jobs s)
                       else s))))"

end
