(* ===== verification/Server_Miner.thy ===== *)
theory Server_Miner
  imports Server_Work Share_Verify
begin

text \<open>
  The miner protocol of the server (\<^verbatim>\<open>src/stn_stratum_server.c\<close>, the branch for Linux): the
  handlers of the ADDRESS, SUBMIT and HASH\_PROGRESS frames, reading a client's socket, and the
  main loop.
\<close>

section \<open>SUBMIT\<close>

text \<open>The two requests to the Chain that a submission can lead to.\<close>

definition share_payload :: "bytes \<Rightarrow> bytes \<Rightarrow> u64 \<Rightarrow> bytes \<Rightarrow> bytes" where
  "share_payload jid addr nonce template =
     (let p = replicate STN_RPC_CLIENT_SHARE_SIZE 0;
          p = blit 0 (take 32 jid) p;
          p = blit 32 (take STN_MINER_ADDRESS_LENGTH addr) p;
          p = write64be p 101 nonce
      in blit STN_RPC_CLIENT_SHARE_PREFIX_SIZE (bytes_at 68 STN_MINER_CHAIN_HEADER_SIZE template) p)"

definition work_payload :: "bytes \<Rightarrow> nat \<Rightarrow> bytes \<Rightarrow> u64 \<Rightarrow> bytes" where
  "work_payload template len addr nonce =
     (let p = replicate (len + STN_MINER_ADDRESS_LENGTH) 0;
          p = blit 0 (take 68 template) p;
          p = blit 68 (take STN_MINER_ADDRESS_LENGTH addr) p;
          p = blit (68 + STN_MINER_ADDRESS_LENGTH) (bytes_at 68 (len - 68) template) p
      in write64be p (68 + STN_MINER_ADDRESS_LENGTH + STN_MINER_CHAIN_NONCE_OFFSET) nonce)"

definition submit_share_result :: "'u server \<Rightarrow> nat \<Rightarrow> session \<Rightarrow> u64 \<Rightarrow> 'u server" where
  "submit_share_result s cid c nonce =
     (case stn_rpc_client_submit_share (chain_rpc s)
             (Some (share_payload (active_job_id s) (address c) nonce (active_template s)))
             STN_RPC_CLIENT_SHARE_SIZE of
        (rpc, share_code, share_id) \<Rightarrow>
          (let s = client_send_result (s\<lparr>chain_rpc := rpc\<rparr>) cid share_code in
           if share_code = STN_RPC_CLIENT_STALE \<or>
              share_code = STN_RPC_CLIENT_TRANSPORT \<or>
              share_code = STN_RPC_CLIENT_UNAVAILABLE \<or>
              share_code = STN_RPC_CLIENT_PROVIDER \<or>
              share_code = STN_RPC_CLIENT_INVALID
           then clear_work s else s))"

definition submit_work_result :: "'u server \<Rightarrow> nat \<Rightarrow> session \<Rightarrow> u64 \<Rightarrow> 'u server" where
  "submit_work_result s cid c nonce =
     (case alloc_next (srv_mem s) of
        (got, mem) \<Rightarrow>
          (let s = s\<lparr>srv_mem := mem\<rparr> in
           if \<not> got then client_send_result s cid STN_RPC_CLIENT_PROVIDER
           else
             (case stn_rpc_client_submit_work (chain_rpc s)
                     (Some (work_payload (active_template s) (active_template_length s) (address c) nonce))
                     (active_template_length s + STN_MINER_ADDRESS_LENGTH) 80 of
                (rpc, code, response) \<Rightarrow>
                  (let s = client_send_result (s\<lparr>chain_rpc := rpc\<rparr>) cid code;
                       s = (if code = STN_RPC_CLIENT_OK \<or>
                               code = STN_RPC_CLIENT_STALE \<or>
                               code = STN_RPC_CLIENT_TRANSPORT \<or>
                               code = STN_RPC_CLIENT_UNAVAILABLE \<or>
                               code = STN_RPC_CLIENT_PROVIDER \<or>
                               code = STN_RPC_CLIENT_INVALID
                            then clear_work s else s)
                   in if code = STN_RPC_CLIENT_TRANSPORT \<or> code = STN_RPC_CLIENT_UNAVAILABLE
                      then snd (chain_transport_next s) else s))))"

definition process_submission :: "'u server \<Rightarrow> nat \<Rightarrow> 'u server" where
  "process_submission s cid =
     (case client_of s cid of
        None \<Rightarrow> s\<lparr>fault := True\<rparr>
      | Some c \<Rightarrow>
        if \<not> address_registered c then client_remove s cid
        else
          (let p = rx c in
           if \<not> mem_eq p STN_MINER_MAGIC 4 \<or> p ! 4 \<noteq> STN_MINER_VERSION \<or>
              p ! 5 \<noteq> STN_MINER_SUBMIT \<or> p ! 6 \<noteq> 0 \<or> p ! 7 \<noteq> 0
           then client_send_result s cid STN_RPC_CLIENT_INVALID
           else if \<not> have_work s \<or> \<not> mem_eq (drop 8 p) (active_job_id s) 32
           then client_send_result s cid STN_RPC_CLIENT_STALE
           else if active_template_length s < 68
           then client_send_result s cid STN_RPC_CLIENT_INVALID
           else
             (let block_length = read32be (active_template s) 64 in
              if unat block_length \<noteq> active_template_length s - 68 \<or>
                 unat block_length < STN_MINER_CHAIN_HEADER_SIZE
              then client_send_result s cid STN_RPC_CLIENT_INVALID
              else
                (let nonce = read64be p 40;
                     chain_target = bytes_at (68 + STN_MINER_CHAIN_TARGET_OFFSET) 32 (active_template s)
                 in case server_share_target_from_chain chain_target of
                      None \<Rightarrow> client_send_result s cid STN_RPC_CLIENT_INVALID
                    | Some share_target \<Rightarrow>
                      (case fst (stn_share_classify (Some (drop 68 (active_template s))) (unat block_length)
                                   nonce (Some share_target) (Some chain_target)) of
                         STN_SHARE_INVALID \<Rightarrow> client_send_result s cid STN_RPC_CLIENT_REJECTED
                       | STN_SHARE_QUALIFYING \<Rightarrow> submit_share_result s cid c nonce
                       | STN_SHARE_BLOCK \<Rightarrow> submit_work_result s cid c nonce)))))"

section \<open>ADDRESS\<close>

definition stn0_text :: bytes where "stn0_text = [0x73, 0x74, 0x6e, 0x30, 0x5f]"

text \<open>The loop over the hexadecimal digits of the address.\<close>

definition hex_lower :: "byte \<Rightarrow> bool" where
  "hex_lower b \<longleftrightarrow> (0x30 \<le> b \<and> b \<le> 0x39) \<or> (0x61 \<le> b \<and> b \<le> 0x66)"

definition address_valid :: "bytes \<Rightarrow> bool" where
  "address_valid p \<longleftrightarrow>
     \<not> (\<not> mem_eq p STN_MINER_MAGIC 4 \<or> p ! 4 \<noteq> STN_MINER_VERSION \<or>
        p ! 5 \<noteq> STN_MINER_ADDRESS \<or> p ! 6 \<noteq> 0 \<or> p ! 7 \<noteq> 0) \<and>
     mem_eq (drop 8 p) stn0_text 5 \<and>
     list_all (\<lambda>i. hex_lower (p ! i)) [13..<8 + STN_MINER_ADDRESS_LENGTH]"

definition process_address :: "'u server \<Rightarrow> nat \<Rightarrow> 'u server" where
  "process_address s cid =
     (case client_of s cid of
        None \<Rightarrow> s\<lparr>fault := True\<rparr>
      | Some c \<Rightarrow>
        if address_registered c then client_remove s cid
        else if \<not> address_valid (rx c) then client_remove s cid
        else
          (let c = c\<lparr>address := bytes_at 8 STN_MINER_ADDRESS_LENGTH (rx c) @ [0], address_registered := True\<rparr>;
               s = upd_client cid c s
           in if have_work s then snd (client_send_job s cid) else s))"

section \<open>HASH\_PROGRESS\<close>

text \<open>Hashes per second from a count and a time in milliseconds.\<close>

definition hash_rate :: "u64 \<Rightarrow> u64 \<Rightarrow> u64" where
  "hash_rate hashes elapsed_ms =
     (let quotient = hashes div elapsed_ms; remainder = hashes mod elapsed_ms in
      if quotient > UINT64_MAX div 1000 then UINT64_MAX
      else
        (let rate = quotient * 1000;
             extra = (if remainder \<le> UINT64_MAX div 1000 then (remainder * 1000) div elapsed_ms
                      else
                        (let scaled_divisor = elapsed_ms div 1000 + 1;
                             extra = remainder div scaled_divisor
                         in if extra > 999 then 999 else extra))
         in if UINT64_MAX - rate < extra then UINT64_MAX else rate + extra))"

definition process_hash_progress :: "'u server \<Rightarrow> nat \<Rightarrow> 'u server" where
  "process_hash_progress s cid =
     (case client_of s cid of
        None \<Rightarrow> s\<lparr>fault := True\<rparr>
      | Some c \<Rightarrow>
        if \<not> address_registered c then client_remove s cid
        else
          (let p = rx c in
           if \<not> mem_eq p STN_MINER_MAGIC 4 \<or> p ! 4 \<noteq> STN_MINER_VERSION \<or>
              p ! 5 \<noteq> STN_MINER_HASH_PROGRESS \<or> p ! 6 \<noteq> 0 \<or> p ! 7 \<noteq> 0
           then s
           else if \<not> have_work s \<or> \<not> has_job c \<or>
                   \<not> mem_eq (drop 8 p) (active_job_id s) 32 \<or>
                   \<not> mem_eq (drop 8 p) (sent_job_id c) 32
           then upd_client cid (c\<lparr>hashrate := 0\<rparr>) s
           else
             (let hashes = read64be p 40; elapsed_ms = read64be p 48 in
              if elapsed_ms = 0 then upd_client cid (c\<lparr>hashrate := 0\<rparr>) s
              else upd_client cid (c\<lparr>hashrate := hash_rate hashes elapsed_ms\<rparr>) s)))"

section \<open>Reading a client\<close>

text \<open>
  The receive loop up to \<open>want\<close> bytes: the buffer is full that far, or nothing is waiting, or the
  connection is over.
\<close>

datatype fill = Filled | Waiting | Gone

function rx_fill :: "nat \<Rightarrow> session \<Rightarrow> fill \<times> session" where
  "rx_fill want c =
     (if rx_used c < want then
        (case sock_recv (want - rx_used c) (sess_in c) of
           (r, es) \<Rightarrow>
             (let c' = c\<lparr>sess_in := es\<rparr> in
              case r of
                Got d \<Rightarrow> rx_fill want (c'\<lparr>rx := blit (rx_used c) d (rx c), rx_used := rx_used c + length d\<rparr>)
              | Got_Eintr \<Rightarrow> rx_fill want c'
              | Got_Again \<Rightarrow> (Waiting, c')
              | Got_Eof \<Rightarrow> (Gone, c')
              | Got_Error \<Rightarrow> (Gone, c')))
      else (Filled, c))"
  by pat_completeness auto
termination
  by (relation "measure (\<lambda>(want, c). pending (sess_in c))")
    (auto dest!: sock_recv_Got [OF sym] sock_recv_Eintr [OF sym])

declare rx_fill.simps [simp del]

definition frame_header_ok :: "bytes \<Rightarrow> bool" where
  "frame_header_ok p \<longleftrightarrow>
     \<not> (\<not> mem_eq p STN_MINER_MAGIC 4 \<or> p ! 4 \<noteq> STN_MINER_VERSION \<or> p ! 6 \<noteq> 0 \<or> p ! 7 \<noteq> 0)"

definition frame_size_of :: "byte \<Rightarrow> nat option" where
  "frame_size_of t =
     (if t = STN_MINER_ADDRESS then Some STN_MINER_ADDRESS_FRAME_SIZE
      else if t = STN_MINER_SUBMIT then Some STN_MINER_SUBMIT_SIZE
      else if t = STN_MINER_HASH_PROGRESS then Some STN_MINER_HASH_PROGRESS_SIZE
      else None)"

definition process_frame :: "'u server \<Rightarrow> nat \<Rightarrow> byte \<Rightarrow> 'u server" where
  "process_frame s cid t =
     (if t = STN_MINER_ADDRESS then process_address s cid
      else if t = STN_MINER_SUBMIT then process_submission s cid
      else process_hash_progress s cid)"

text \<open>
  One pass of the frame loop: the server, and whether the loop goes on. The pass ends the loop
  when the client waits or is removed.
\<close>

definition service_pass :: "'u server \<Rightarrow> nat \<Rightarrow> bool \<times> 'u server" where
  "service_pass s cid =
     (case client_of s cid of
        None \<Rightarrow> (False, s\<lparr>fault := True\<rparr>)
      | Some c \<Rightarrow>
        (case rx_fill 8 c of
           (r, c) \<Rightarrow>
             (let s = upd_client cid c s in
              if r = Gone then (False, client_remove s cid)
              else if r = Waiting then (False, s)
              else if \<not> frame_header_ok (rx c) then (False, client_remove s cid)
              else
                (case frame_size_of (rx c ! 5) of
                   None \<Rightarrow> (False, client_remove s cid)
                 | Some frame_size \<Rightarrow>
                   (case rx_fill frame_size c of
                      (r, c) \<Rightarrow>
                        (let s = upd_client cid c s in
                         if r = Gone then (False, client_remove s cid)
                         else if r = Waiting then (False, s)
                         else
                           (let s = process_frame s cid (rx c ! 5) in
                            case client_of s cid of
                              None \<Rightarrow> (False, s)
                            | Some c \<Rightarrow> (True, upd_client cid (c\<lparr>rx_used := 0\<rparr>) s))))))))"

text \<open>
  The frame loop. A pass after the first takes at least 8 bytes from the socket, so the number of
  passes is bounded by what the socket holds; running longer is recorded as a fault.
\<close>

fun service_loop :: "nat \<Rightarrow> 'u server \<Rightarrow> nat \<Rightarrow> 'u server" where
  "service_loop 0 s cid = s\<lparr>fault := True\<rparr>"
| "service_loop (Suc n) s cid =
     (case service_pass s cid of (again, s) \<Rightarrow> if again then service_loop n s cid else s)"

definition service_client :: "'u server \<Rightarrow> nat \<Rightarrow> 'u server" where
  "service_client s cid =
     (case client_of s cid of
        None \<Rightarrow> s\<lparr>fault := True\<rparr>
      | Some c \<Rightarrow>
        if sess_socket c = STN_INVALID_SOCKET then s
        else service_loop (pending (sess_in c) + 2) s cid)"

definition service_clients :: "'u server \<Rightarrow> 'u server" where
  "service_clients s = for_clients service_client s"

section \<open>The server\<close>

abbreviation (input) "STN_STRATUM_CHAIN_POLL_TICKS \<equiv> (4 :: u64)"

definition stn_stratum_server_init ::
  "'u transport_ops \<Rightarrow> 'u \<Rightarrow> bool list \<Rightarrow> bool list \<Rightarrow> accept_event list \<Rightarrow> accept_event list \<Rightarrow> 'u server" where
  "stn_stratum_server_init tops u rmem mem pool solo =
     \<lparr>ops = tops, chain_config = [], active_chain_server = 0,
      chain_rpc = \<lparr>transport_user = u, rc_exchange = None, next_request_id = 0, rc_mem = rmem\<rparr>,
      active_base = replicate 32 0, active_job_id = replicate 32 0, active_template = [],
      active_template_length = 0, have_work = False,
      pool_listener = stn_mining_listener_init STN_SERVICE_MODE_POOL,
      solo_listener = stn_mining_listener_init STN_SERVICE_MODE_SOLO,
      clients = [], client_count = 0, running = True, chain_available = False,
      loop_count = 0, chain_poll_count = 0,
      pool_accepts = pool, solo_accepts = solo, srv_mem = mem, next_cid = 0,
      released = [], closed_fds = [], fault = False\<rparr>"

text \<open>Opening both listeners; the environments are those of the two calls.\<close>

definition listeners_open :: "open_env \<Rightarrow> open_env \<Rightarrow> 'u server \<Rightarrow> bool \<times> 'u server" where
  "listeners_open e1 e2 s =
     (let s = s\<lparr>pool_listener := stn_mining_listener_init STN_SERVICE_MODE_POOL,
                solo_listener := stn_mining_listener_init STN_SERVICE_MODE_SOLO\<rparr>
      in case stn_mining_listener_open e1 (pool_listener s) of
           (ok, l, closed) \<Rightarrow>
             (let s = s\<lparr>pool_listener := l, closed_fds := closed_fds s @ closed\<rparr> in
              if \<not> ok then (False, s)
              else
                (case stn_mining_listener_open e2 (solo_listener s) of
                   (ok, l, closed) \<Rightarrow>
                     (let s = s\<lparr>solo_listener := l, closed_fds := closed_fds s @ closed\<rparr> in
                      if \<not> ok then
                        (case stn_mining_listener_close (pool_listener s) of
                           (l, closed) \<Rightarrow>
                             (False, s\<lparr>pool_listener := l, closed_fds := closed_fds s @ closed\<rparr>))
                      else (True, s)))))"

definition listeners_close :: "'u server \<Rightarrow> 'u server" where
  "listeners_close s =
     (case stn_mining_listener_close (solo_listener s) of
        (l, closed) \<Rightarrow>
          (let s = s\<lparr>solo_listener := l, closed_fds := closed_fds s @ closed\<rparr> in
           case stn_mining_listener_close (pool_listener s) of
             (l, closed) \<Rightarrow> s\<lparr>pool_listener := l, closed_fds := closed_fds s @ closed\<rparr>))"

text \<open>
  The start of \<open>stn_stratum_server_run\<close>, up to its loop: whether the log opens, the loaded
  configuration or the failure to load it, the listeners, the telemetry listener.
\<close>

definition server_start ::
  "bool \<Rightarrow> config_entry list option \<Rightarrow> open_env \<Rightarrow> open_env \<Rightarrow> bool \<Rightarrow> 'u server \<Rightarrow> bool \<times> 'u server" where
  "server_start log_ok loaded e1 e2 telemetry_ok s =
     (if \<not> log_ok then (False, s)
      else
        (case loaded of
           None \<Rightarrow> (False, s)
         | Some cfg \<Rightarrow>
           (let s = s\<lparr>chain_config := cfg\<rparr> in
            if length cfg = 0 then (False, s)
            else
              (let s = s\<lparr>active_chain_server := 0\<rparr> in
               case chain_transport_select s 0 of
                 (ok, s) \<Rightarrow>
                   if \<not> ok then (False, s)
                   else if active_chain s = None then (False, s)
                   else
                     (case listeners_open e1 e2 s of
                        (ok, s) \<Rightarrow>
                          if \<not> ok then (False, s)
                          else if \<not> telemetry_ok then (False, listeners_close s)
                          else (True, s))))))"

text \<open>One iteration of the loop; publishing telemetry and sleeping do not change this state.\<close>

definition server_tick :: "'u server \<Rightarrow> 'u server" where
  "server_tick s =
     (let s = accept_clients s;
          s = service_clients s;
          s = (if loop_count s mod STN_STRATUM_CHAIN_POLL_TICKS = 0 then refresh_work s else s);
          s = send_pending_jobs s
      in s\<lparr>loop_count := loop_count s + 1\<rparr>)"

definition stn_stratum_server_stop :: "'u server \<Rightarrow> 'u server" where
  "stn_stratum_server_stop s = s\<lparr>running := False\<rparr>"

fun remove_all :: "nat \<Rightarrow> 'u server \<Rightarrow> 'u server" where
  "remove_all 0 s = (if clients s \<noteq> [] then s\<lparr>fault := True\<rparr> else s)"
| "remove_all (Suc n) s =
     (case clients s of [] \<Rightarrow> s | c # _ \<Rightarrow> remove_all n (client_remove s (sess_id c)))"

definition stn_stratum_server_close :: "'u server \<Rightarrow> 'u server" where
  "stn_stratum_server_close s =
     (let s = remove_all (length (clients s)) s;
          s = listeners_close s;
          s = s\<lparr>chain_rpc := (chain_rpc s)\<lparr>transport_user := op_close (ops s) (transport_user (chain_rpc s))\<rparr>\<rparr>;
          s = (clear_work s)\<lparr>chain_available := False\<rparr>
      in s\<lparr>chain_config := []\<rparr>)"

text \<open>The loop and the signal handler, which may run between any two iterations.\<close>

inductive server_step :: "'u server \<Rightarrow> 'u server \<Rightarrow> bool" where
  Tick: "running s \<Longrightarrow> server_step s (server_tick s)"
| Stop: "server_step s (stn_stratum_server_stop s)"

end
