(* ===== verification/Server_Inv.thy ===== *)
theory Server_Inv
  imports Server_Miner
begin

text \<open>
  The invariant of the server: the list of clients has no duplicate, its length is the counter,
  every session is well-formed, the work is a complete template or there is none, the selected
  Chain server exists, and nothing freed was ever read. Every operation keeps it. The locale
  \<open>client_loop\<close> states what a loop over the clients needs of its body.
\<close>

section \<open>Lists of clients\<close>

abbreviation ids :: "'u server \<Rightarrow> nat list" where
  "ids s \<equiv> map sess_id (clients s)"

lemma client_of_Some: "client_of s cid = Some c \<Longrightarrow> c \<in> set (clients s) \<and> sess_id c = cid"
  by (auto simp: client_of_def find_Some_iff in_set_conv_nth)

lemma client_of_None: "client_of s cid = None \<longleftrightarrow> cid \<notin> set (ids s)"
  by (auto simp: client_of_def find_None_iff)

lemma client_of_ex: "cid \<in> set (ids s) \<Longrightarrow> \<exists>c. client_of s cid = Some c"
  using client_of_None [of s cid] by (cases "client_of s cid") auto

lemma client_of_unique:
  "distinct (ids s) \<Longrightarrow> c \<in> set (clients s) \<Longrightarrow> sess_id c = cid \<Longrightarrow> client_of s cid = Some c"
  by (metis client_of_Some client_of_ex distinct_map image_eqI inj_on_def list.set_map)

lemma client_of_cong: "clients s = clients t \<Longrightarrow> client_of s cid = client_of t cid"
  by (simp add: client_of_def)

lemma ids_upd [simp]: "sess_id c' = cid \<Longrightarrow> ids (upd_client cid c' s) = ids s"
  by (auto simp: upd_client_def)

lemma client_of_upd:
  "sess_id c' = cid \<Longrightarrow> client_of (upd_client cid c' s) k =
     (if k = cid \<and> cid \<in> set (ids s) then Some c' else client_of s k)"
proof -
  assume c': "sess_id c' = cid"
  have "find (\<lambda>c. sess_id c = k) (map (\<lambda>c. if sess_id c = cid then c' else c) cs) =
      (if k = cid \<and> cid \<in> sess_id ` set cs then Some c' else find (\<lambda>c. sess_id c = k) cs)" for cs
    using c' by (induction cs) auto
  then show ?thesis by (simp add: client_of_def upd_client_def)
qed

lemma upd_client_simps [simp]:
  "ops (upd_client cid c s) = ops s" "chain_config (upd_client cid c s) = chain_config s"
  "active_chain_server (upd_client cid c s) = active_chain_server s"
  "chain_rpc (upd_client cid c s) = chain_rpc s" "active_base (upd_client cid c s) = active_base s"
  "active_job_id (upd_client cid c s) = active_job_id s"
  "active_template (upd_client cid c s) = active_template s"
  "active_template_length (upd_client cid c s) = active_template_length s"
  "have_work (upd_client cid c s) = have_work s" "client_count (upd_client cid c s) = client_count s"
  "next_cid (upd_client cid c s) = next_cid s" "fault (upd_client cid c s) = fault s"
  "running (upd_client cid c s) = running s" "released (upd_client cid c s) = released s"
  "closed_fds (upd_client cid c s) = closed_fds s" "srv_mem (upd_client cid c s) = srv_mem s"
  "length (clients (upd_client cid c s)) = length (clients s)"
  by (simp_all add: upd_client_def)

lemma set_clients_upd: "x \<in> set (clients (upd_client cid c s)) \<Longrightarrow> x = c \<or> x \<in> set (clients s)"
  by (auto simp: upd_client_def split: if_splits)

lemma unlink_ids: "map sess_id (unlink cid cs) = remove1 cid (map sess_id cs)"
  by (induction cs) auto

lemma set_unlink: "set (unlink cid cs) \<subseteq> set cs"
  by (induction cs) auto

lemma length_unlink: "cid \<in> sess_id ` set cs \<Longrightarrow> length (unlink cid cs) = length cs - 1"
proof (induction cs)
  case (Cons c cs)
  then show ?case by (cases cs) auto
qed simp

lemma client_remove_simps [simp]:
  "ops (client_remove s cid) = ops s" "chain_config (client_remove s cid) = chain_config s"
  "active_chain_server (client_remove s cid) = active_chain_server s"
  "chain_rpc (client_remove s cid) = chain_rpc s" "active_base (client_remove s cid) = active_base s"
  "active_job_id (client_remove s cid) = active_job_id s"
  "active_template (client_remove s cid) = active_template s"
  "active_template_length (client_remove s cid) = active_template_length s"
  "have_work (client_remove s cid) = have_work s"
  "next_cid (client_remove s cid) = next_cid s" "fault (client_remove s cid) = fault s"
  "running (client_remove s cid) = running s" "srv_mem (client_remove s cid) = srv_mem s"
  by (simp_all add: client_remove_def split: option.splits prod.splits)

lemma unlink_absent: "cid \<notin> sess_id ` set cs \<Longrightarrow> unlink cid cs = cs"
  by (induction cs) auto

lemma unlink_upd:
  "sess_id c' = cid \<Longrightarrow> distinct (map sess_id cs) \<Longrightarrow>
   unlink cid (map (\<lambda>c. if sess_id c = cid then c' else c) cs) = unlink cid cs"
  by (induction cs) (auto intro!: map_idI simp: image_iff)

lemma clients_remove: "clients (client_remove s cid) = unlink cid (clients s)"
proof (cases "client_of s cid")
  case None
  then have "unlink cid (clients s) = clients s"
    by (simp add: client_of_None unlink_absent)
  then show ?thesis using None by (simp add: client_remove_def)
qed (simp add: client_remove_def split: prod.splits)

lemma ids_remove [simp]: "ids (client_remove s cid) = remove1 cid (ids s)"
  by (simp add: clients_remove unlink_ids)

section \<open>The invariant\<close>

text \<open>An address as a miner registers it: the text \<open>stn0_\<close>, 64 lower-case digits, a NUL.\<close>

definition address_ok :: "bytes \<Rightarrow> bool" where
  "address_ok a \<longleftrightarrow> length a = 70 \<and> take 5 a = stn0_text \<and> (\<forall>i \<in> {5..<69}. hex_lower (a ! i)) \<and> a ! 69 = 0"

definition sess_ok :: "'u server \<Rightarrow> session \<Rightarrow> bool" where
  "sess_ok s c \<longleftrightarrow>
     length (rx c) = 77 \<and> rx_used c \<le> 77 \<and> length (sent_job_id c) = 32 \<and> length (address c) = 70 \<and>
     0 \<le> sess_socket c \<and> sess_id c < next_cid s \<and>
     (has_job c \<longrightarrow> have_work s \<and> address_registered c) \<and> (hashrate c \<noteq> 0 \<longrightarrow> has_job c) \<and>
     (address_registered c \<longrightarrow> address_ok (address c)) \<and> stn_client_mode_valid (Some (sess_mode c))"

definition work_ok :: "'u server \<Rightarrow> bool" where
  "work_ok s \<longleftrightarrow> length (active_base s) = 32 \<and> length (active_job_id s) = 32 \<and>
     (if have_work s then
        236 \<le> active_template_length s \<and> active_template_length s \<le> length (active_template s) \<and>
        active_template_length s \<le> STN_RPC_CLIENT_MAX_PAYLOAD \<and>
        be_nat (bytes_at 64 4 (active_template s)) = active_template_length s - 68 \<and>
        active_base s = take 32 (active_template s) \<and>
        active_job_id s = bytes_at 32 32 (active_template s)
      else active_template_length s = 0)"

definition chain_ok :: "'u server \<Rightarrow> bool" where
  "chain_ok s \<longleftrightarrow> active_chain_server s < length (chain_config s) \<and>
     rc_exchange (chain_rpc s) = Some (op_exchange (ops s))"

definition srv_ok :: "'u server \<Rightarrow> bool" where
  "srv_ok s \<longleftrightarrow> distinct (ids s) \<and> client_count s = length (clients s) \<and>
     (\<forall>c \<in> set (clients s). sess_ok s c) \<and> work_ok s \<and> chain_ok s \<and> \<not> fault s"

lemma srv_ok_client:
  "srv_ok s \<Longrightarrow> client_of s cid = Some c \<Longrightarrow> sess_ok s c \<and> sess_id c = cid \<and> cid \<in> set (ids s)"
  using client_of_Some by (fastforce simp: srv_ok_def)

section \<open>The primitive updates\<close>

lemma sess_ok_cong:
  "next_cid s = next_cid t \<Longrightarrow> have_work s = have_work t \<Longrightarrow> sess_ok s c \<longleftrightarrow> sess_ok t c"
  by (simp add: sess_ok_def)

lemma srv_ok_upd:
  assumes "srv_ok s" "sess_ok s c'" "sess_id c' = cid"
  shows "srv_ok (upd_client cid c' s)"
  using assms set_clients_upd [of _ cid c' s]
  by (auto simp: srv_ok_def sess_ok_cong [of "upd_client cid c' s" s] work_ok_def chain_ok_def
      simp del: map_map)

lemma srv_ok_remove:
  assumes "srv_ok s"
  shows "srv_ok (client_remove s cid)"
proof -
  have "client_count (client_remove s cid) = length (clients (client_remove s cid))"
  proof (cases "client_of s cid")
    case None
    then show ?thesis using assms by (simp add: client_remove_def srv_ok_def)
  next
    case (Some c)
    then have "cid \<in> sess_id ` set (clients s)" using client_of_Some by fastforce
    then show ?thesis
      using assms Some length_unlink [of cid "clients s"]
      by (auto simp: client_remove_def srv_ok_def split: prod.splits)
  qed
  moreover have "\<forall>c \<in> set (clients (client_remove s cid)). sess_ok (client_remove s cid) c"
    using assms set_unlink [of cid "clients s"]
    by (auto simp: srv_ok_def clients_remove sess_ok_cong [of "client_remove s cid" s])
  ultimately show ?thesis
    using assms by (auto simp: srv_ok_def work_ok_def chain_ok_def distinct_remove1)
qed

lemma srv_ok_rpc:
  "srv_ok s \<Longrightarrow> rc_exchange rpc = rc_exchange (chain_rpc s) \<Longrightarrow> srv_ok (s\<lparr>chain_rpc := rpc\<rparr>)"
  by (simp add: srv_ok_def work_ok_def chain_ok_def sess_ok_def)

lemma srv_ok_mem: "srv_ok s \<Longrightarrow> srv_ok (s\<lparr>srv_mem := mem\<rparr>)"
  by (simp add: srv_ok_def work_ok_def chain_ok_def sess_ok_def)

lemma clear_work_simps [simp]:
  "ops (clear_work s) = ops s" "chain_config (clear_work s) = chain_config s"
  "active_chain_server (clear_work s) = active_chain_server s" "chain_rpc (clear_work s) = chain_rpc s"
  "next_cid (clear_work s) = next_cid s" "fault (clear_work s) = fault s" "have_work (clear_work s) = False"
  "client_count (clear_work s) = client_count s" "active_template (clear_work s) = active_template s"
  "ids (clear_work s) = ids s" "srv_mem (clear_work s) = srv_mem s" "running (clear_work s) = running s"
  "chain_available (clear_work s) = chain_available s"
  by (simp_all add: clear_work_def clear_client_jobs_def comp_def)

lemma srv_ok_clear: "srv_ok s \<Longrightarrow> srv_ok (clear_work s)"
  by (auto simp: srv_ok_def work_ok_def chain_ok_def sess_ok_def clear_work_def clear_client_jobs_def comp_def)

lemma select_ids [simp]: "ids (snd (chain_transport_select s i)) = ids s"
  by (simp add: chain_transport_select_def Let_def)

lemma srv_ok_select:
  assumes "srv_ok s" "i < length (chain_config s)"
  shows "srv_ok (snd (chain_transport_select s i))"
  using srv_ok_clear [OF assms(1)] assms(2)
  by (auto simp: chain_transport_select_def Let_def srv_ok_def work_ok_def chain_ok_def sess_ok_def
      stn_rpc_client_init_def)

lemma srv_ok_next: "srv_ok s \<Longrightarrow> srv_ok (snd (chain_transport_next s))"
  using srv_ok_select [of s 0] srv_ok_select [of s "active_chain_server s + 1"]
  by (auto simp: chain_transport_next_def Let_def not_le)

lemma next_ids [simp]: "ids (snd (chain_transport_next s)) = ids s"
  by (simp add: chain_transport_next_def Let_def)

section \<open>What a handler may do\<close>

text \<open>
  A handler for client \<open>cid\<close> keeps the invariant, removes at most that client, and leaves what
  its socket still holds alone.
\<close>

definition handled :: "'u server \<Rightarrow> nat \<Rightarrow> 'u server \<Rightarrow> bool" where
  "handled s cid t \<longleftrightarrow> srv_ok t \<and> (ids t = ids s \<or> ids t = remove1 cid (ids s)) \<and>
     (\<forall>c'. client_of t cid = Some c' \<longrightarrow> (\<exists>c. client_of s cid = Some c \<and> sess_in c' = sess_in c))"

named_theorems handlers \<open>a handler or a primitive update is handled\<close>

lemma handled_refl [handlers]: "srv_ok s \<Longrightarrow> handled s cid s"
  by (auto simp: handled_def)

lemma handled_ok: "handled s cid t \<Longrightarrow> srv_ok t"
  by (simp add: handled_def)

lemma handled_trans:
  assumes "handled s cid t" "handled t cid u" "srv_ok s"
  shows "handled s cid u"
proof -
  have "remove1 cid (remove1 cid (ids s)) = remove1 cid (ids s)"
    using assms(3) by (intro remove1_idem) (auto simp: srv_ok_def)
  then show ?thesis
    using assms(1,2) unfolding handled_def by metis
qed

lemma handled_upd [handlers]:
  assumes "srv_ok s" "client_of s cid = Some c" "sess_ok s c'" "sess_id c' = cid" "sess_in c' = sess_in c"
  shows "handled s cid (upd_client cid c' s)"
  using assms srv_ok_upd [OF assms(1,3,4)] by (auto simp: handled_def client_of_upd)

lemma handled_remove [handlers]: "srv_ok s \<Longrightarrow> handled s cid (client_remove s cid)"
proof -
  assume ok: "srv_ok s"
  then have "cid \<notin> set (remove1 cid (ids s))" by (auto simp: srv_ok_def)
  then have "client_of (client_remove s cid) cid = None" by (simp only: client_of_None ids_remove) simp
  then show ?thesis using srv_ok_remove [OF ok] by (simp add: handled_def)
qed

lemma client_of_clear:
  "client_of (clear_work s) cid = Some c' \<Longrightarrow> \<exists>c. client_of s cid = Some c \<and> sess_in c' = sess_in c"
proof -
  have eq: "find (\<lambda>c. sess_id c = cid)
      (map (\<lambda>c. c\<lparr>has_job := False, hashrate := 0, sent_job_id := replicate 32 0\<rparr>) cs) =
    map_option (\<lambda>c. c\<lparr>has_job := False, hashrate := 0, sent_job_id := replicate 32 0\<rparr>)
      (find (\<lambda>c. sess_id c = cid) cs)" for cs
    by (induction cs) auto
  show "client_of (clear_work s) cid = Some c' \<Longrightarrow> ?thesis"
    by (auto simp: client_of_def clear_work_def clear_client_jobs_def eq)
qed

lemma handled_clear [handlers]: "srv_ok s \<Longrightarrow> handled s cid (clear_work s)"
  using client_of_clear by (auto simp: handled_def srv_ok_clear)

lemma handled_rpc:
  assumes "handled s cid t" "clients u = clients t" "srv_ok u"
  shows "handled s cid u"
  using assms client_of_cong [of u t] by (auto simp: handled_def)

lemma select_clients:
  "i < length (chain_config s) \<Longrightarrow> clients (snd (chain_transport_select s i)) = clients (clear_work s)"
  by (simp add: chain_transport_select_def Let_def)

lemma handled_next [handlers]:
  assumes "srv_ok s"
  shows "handled s cid (snd (chain_transport_next s))"
proof -
  have "clients (snd (chain_transport_next s)) = clients (clear_work s)"
    using assms by (auto simp: chain_transport_next_def Let_def srv_ok_def chain_ok_def select_clients not_le)
  then show ?thesis
    using handled_rpc [OF handled_clear [OF assms] _ srv_ok_next [OF assms]] by simp
qed

section \<open>Sending\<close>

lemma sess_send_fields:
  assumes "sess_send c p = (ok, c')"
  shows "c' = c\<lparr>sess_sends := sess_sends c', sess_out := sess_out c'\<rparr>"
    and "ok \<Longrightarrow> sess_out c' = sess_out c @ p"
    and "\<exists>q. sess_out c' = sess_out c @ q \<and> (\<exists>r. p = q @ r)"
  using assms
  by (auto simp: sess_send_def split: prod.splits dest: send_all_ok send_all_prefix)

lemma sess_send_simps:
  assumes "sess_send c p = (ok, c')"
  shows "sess_ok s c' = sess_ok s c" "sess_id c' = sess_id c" "sess_in c' = sess_in c"
    "address_registered c' = address_registered c" "sess_socket c' = sess_socket c"
    "address c' = address c" "has_job c' = has_job c" "rx c' = rx c" "sent_job_id c' = sent_job_id c"
  by (subst sess_send_fields(1) [OF assms], simp add: sess_ok_def)+

lemma result_config [simp]: "chain_config (client_send_result s cid code) = chain_config s"
  by (simp add: client_send_result_def Let_def split: option.splits prod.splits)

lemma client_send_result_handled [handlers]:
  assumes "srv_ok s" "cid \<in> set (ids s)"
  shows "handled s cid (client_send_result s cid code)"
proof -
  from client_of_ex [OF assms(2)] obtain c where c: "client_of s cid = Some c" by blast
  obtain ok c' where snd: "sess_send c (result_frame code) = (ok, c')" by fastforce
  have upd: "handled s cid (upd_client cid c' s)"
    using assms(1) c srv_ok_client [OF assms(1) c] sess_send_simps [OF snd]
    by (intro handled_upd) auto
  then show ?thesis
    using handled_trans [OF upd handled_remove [OF handled_ok [OF upd]] assms(1)] assms(1) c snd
    by (simp add: client_send_result_def handled_refl)
qed

lemma client_send_job_handled [handlers]:
  assumes "srv_ok s" "client_of s cid = Some c" "address_registered c"
  shows "handled s cid (snd (client_send_job s cid))"
proof (cases "have_work s \<and> sess_socket c \<noteq> STN_INVALID_SOCKET")
  case False
  then show ?thesis using assms by (auto simp: client_send_job_def handled_refl)
next
  case work: True
  show ?thesis
  proof (cases "stn_miner_job_build (Some (active_template s)) (active_template_length s)")
    case None
    then show ?thesis using work assms by (simp add: client_send_job_def handled_refl)
  next
    case (Some job)
    obtain header n where job: "job = (header, n)" by fastforce
    obtain ok1 c1 where s1: "sess_send c header = (ok1, c1)" by fastforce
    obtain ok2 c2 where s2: "(if ok1 then sess_send c1 (bytes_at 68 (unat n) (active_template s))
        else (False, c1)) = (ok2, c2)" by fastforce
    have c2: "sess_ok s c2" "sess_id c2 = cid" "sess_in c2 = sess_in c" "address_registered c2"
      using s1 s2 srv_ok_client [OF assms(1,2)] assms(3)
      by (auto simp: sess_send_simps [OF s1] sess_send_simps split: if_splits)
    have upd: "handled s cid (upd_client cid c2 s)"
      using assms(1,2) c2 by (intro handled_upd) auto
    have "length (active_job_id s) = 32"
      using assms(1) by (auto simp: srv_ok_def work_ok_def)
    then have "sess_ok s (c2\<lparr>sent_job_id := active_job_id s, has_job := True\<rparr>)"
      using c2 work by (simp add: sess_ok_def)
    then have sent: "handled s cid (upd_client cid (c2\<lparr>sent_job_id := active_job_id s, has_job := True\<rparr>) s)"
      using assms(1,2) c2 by (intro handled_upd) auto
    show ?thesis
      using work assms Some job s1 s2 sent handled_trans [OF upd handled_remove [OF handled_ok [OF upd]] assms(1)]
      by (simp add: client_send_job_def split: prod.splits)
  qed
qed

section \<open>The handlers\<close>

lemma after_rpc:
  assumes "srv_ok s" "rc_exchange rpc = rc_exchange (chain_rpc s)" "cid \<in> set (ids s)"
  shows "handled s cid (client_send_result (s\<lparr>chain_rpc := rpc\<rparr>) cid code)"
proof -
  have ok: "srv_ok (s\<lparr>chain_rpc := rpc\<rparr>)" using assms(1,2) by (rule srv_ok_rpc)
  then have "handled s cid (s\<lparr>chain_rpc := rpc\<rparr>)"
    by (intro handled_rpc [OF handled_refl [OF assms(1)]]) simp_all
  moreover have "handled (s\<lparr>chain_rpc := rpc\<rparr>) cid (client_send_result (s\<lparr>chain_rpc := rpc\<rparr>) cid code)"
    using assms(3) by (intro client_send_result_handled [OF ok]) simp
  ultimately show ?thesis using assms(1) by (rule handled_trans)
qed

lemma handled_then_clear: "srv_ok s \<Longrightarrow> handled s cid t \<Longrightarrow> handled s cid (clear_work t)"
  using handled_trans handled_clear handled_ok by blast

lemma handled_then_next: "srv_ok s \<Longrightarrow> handled s cid t \<Longrightarrow> handled s cid (snd (chain_transport_next t))"
  using handled_trans handled_next handled_ok by blast

lemma submit_share_handled:
  assumes "srv_ok s" "cid \<in> set (ids s)"
  shows "handled s cid (submit_share_result s cid c nonce)"
proof -
  obtain rpc code q where share: "stn_rpc_client_submit_share (chain_rpc s)
      (Some (share_payload (active_job_id s) (address c) nonce (active_template s)))
      STN_RPC_CLIENT_SHARE_SIZE = (rpc, code, q)" by (rule prod_cases3)
  have "handled s cid (client_send_result (s\<lparr>chain_rpc := rpc\<rparr>) cid code)"
    using assms rpc_exchange_kept(3) [OF share] by (intro after_rpc)
  then show ?thesis
    using handled_then_clear [OF assms(1)] by (auto simp: submit_share_result_def share Let_def)
qed

lemma submit_work_handled:
  assumes "srv_ok s" "cid \<in> set (ids s)"
  shows "handled s cid (submit_work_result s cid c nonce)"
proof -
  obtain got mem where mem: "alloc_next (srv_mem s) = (got, mem)" by fastforce
  let ?s = "s\<lparr>srv_mem := mem\<rparr>"
  have ok: "srv_ok ?s" and cid: "cid \<in> set (ids ?s)" using assms srv_ok_mem by auto
  have h: "handled s cid ?s"
    by (rule handled_rpc [OF handled_refl [OF assms(1)] _ ok]) simp
  obtain rpc code q where work: "stn_rpc_client_submit_work (chain_rpc ?s)
      (Some (work_payload (active_template ?s) (active_template_length ?s) (address c) nonce))
      (active_template_length ?s + STN_MINER_ADDRESS_LENGTH) 80 = (rpc, code, q)" by (rule prod_cases3)
  have "handled ?s cid (client_send_result (?s\<lparr>chain_rpc := rpc\<rparr>) cid code)"
    using ok cid rpc_exchange_kept(2) [OF work] by (intro after_rpc)
  moreover have "handled ?s cid (client_send_result ?s cid code)" for code
    using ok cid by (rule client_send_result_handled)
  ultimately have "handled s cid (client_send_result (?s\<lparr>chain_rpc := rpc\<rparr>) cid code)"
      "handled s cid (client_send_result ?s cid code)" for code
    using handled_trans [OF h _ assms(1)] after_rpc [OF ok rpc_exchange_kept(2) [OF work] cid] by blast+
  then show ?thesis
    using handled_then_clear [OF assms(1)] handled_then_next [OF assms(1)] work
    by (simp add: submit_work_result_def mem Let_def)
qed

lemma process_submission_handled [handlers]:
  assumes "srv_ok s" "cid \<in> set (ids s)"
  shows "handled s cid (process_submission s cid)"
proof -
  from client_of_ex [OF assms(2)] obtain c where c: "client_of s cid = Some c" by blast
  show ?thesis
    using client_send_result_handled [OF assms] handled_remove [OF assms(1)]
      submit_share_handled [OF assms] submit_work_handled [OF assms]
    by (simp add: process_submission_def c Let_def split: option.splits stn_share_class.splits)
qed

lemma list_all_upt: "list_all P [a..<b] \<longleftrightarrow> (\<forall>i \<in> {a..<b}. P i)"
  by (auto simp: list_all_iff)

lemma address_valid_ok:
  assumes "address_valid p" "length p = 77"
  shows "address_ok (bytes_at 8 69 p @ [0])"
proof -
  have "take 5 (bytes_at 8 69 p) = take 5 (drop 8 p)"
    by (simp add: bytes_at_def)
  moreover have "\<forall>i \<in> {13..<77}. hex_lower (p ! i)"
    using assms(1) unfolding address_valid_def list_all_upt by simp
  then have "\<forall>i \<in> {5..<69}. hex_lower ((bytes_at 8 69 p @ [0]) ! i)"
    using assms(2) by (simp add: nth_append)
  moreover have "mem_eq (drop 8 p) stn0_text 5"
    using assms(1) unfolding address_valid_def by blast
  ultimately show ?thesis
    using assms(2) by (simp add: address_ok_def mem_eq_def stn0_text_def nth_append)
qed

lemma process_address_handled [handlers]:
  assumes "srv_ok s" "cid \<in> set (ids s)"
  shows "handled s cid (process_address s cid)"
proof -
  from client_of_ex [OF assms(2)] obtain c where c: "client_of s cid = Some c" by blast
  note ok = srv_ok_client [OF assms(1) c]
  show ?thesis
  proof (cases "address_registered c \<or> \<not> address_valid (rx c)")
    case True
    then show ?thesis using handled_remove [OF assms(1)] by (auto simp: process_address_def c)
  next
    case False
    let ?c = "c\<lparr>address := bytes_at 8 69 (rx c) @ [0], address_registered := True\<rparr>"
    have "sess_ok s ?c"
      using ok False address_valid_ok [of "rx c"] by (auto simp: sess_ok_def)
    then have upd: "handled s cid (upd_client cid ?c s)"
      using assms(1) c ok by (intro handled_upd) auto
    have "client_of (upd_client cid ?c s) cid = Some ?c"
      using ok by (subst client_of_upd) auto
    from client_send_job_handled [OF handled_ok [OF upd] this]
    have "handled (upd_client cid ?c s) cid (snd (client_send_job (upd_client cid ?c s) cid))"
      by simp
    then show ?thesis
      using False upd handled_trans [OF upd _ assms(1)] by (simp add: process_address_def c Let_def)
  qed
qed

lemma process_hash_progress_handled [handlers]:
  assumes "srv_ok s" "cid \<in> set (ids s)"
  shows "handled s cid (process_hash_progress s cid)"
proof -
  from client_of_ex [OF assms(2)] obtain c where c: "client_of s cid = Some c" by blast
  note ok = srv_ok_client [OF assms(1) c]
  have rate: "handled s cid (upd_client cid (c\<lparr>hashrate := r\<rparr>) s)" if "r = 0 \<or> has_job c" for r
    using that assms(1) c ok by (intro handled_upd) (auto simp: sess_ok_def)
  show ?thesis
    using rate [of 0] rate handled_remove [OF assms(1)] handled_refl [OF assms(1)]
    by (auto simp: process_hash_progress_def c Let_def)
qed

lemma process_frame_handled:
  "srv_ok s \<Longrightarrow> cid \<in> set (ids s) \<Longrightarrow> handled s cid (process_frame s cid t)"
  by (simp add: process_frame_def handlers)

section \<open>Reading a client\<close>

lemma sock_recv_Got_pending: "sock_recv n es = (Got d, es') \<Longrightarrow> pending es' + length d \<le> pending es"
  by (induction n es rule: sock_recv.induct) (auto split: if_splits)

lemma rx_fill_spec:
  assumes "rx_fill want c = (r, c')" "length (rx c) = 77" "want \<le> 77"
  shows "c' = c\<lparr>rx := rx c', rx_used := rx_used c', sess_in := sess_in c'\<rparr> \<and> length (rx c') = 77 \<and>
    rx_used c' \<le> max (rx_used c) want \<and> (r = Filled \<longrightarrow> want \<le> rx_used c') \<and>
    pending (sess_in c') + rx_used c' \<le> pending (sess_in c) + rx_used c"
  using assms
proof (induction want c rule: rx_fill.induct)
  case (1 want c)
  show ?case
  proof (cases "rx_used c < want")
    case False
    then show ?thesis using "1.prems" by (simp add: rx_fill.simps [of want c])
  next
    case True
    obtain x es where recv: "sock_recv (want - rx_used c) (sess_in c) = (x, es)" by fastforce
    note unfold = rx_fill.simps [of want c]
    show ?thesis
    proof (cases x)
      case (Got d)
      let ?c = "c\<lparr>sess_in := es, rx := blit (rx_used c) d (rx c), rx_used := rx_used c + length d\<rparr>"
      have d: "length d \<le> want - rx_used c" "pending es + length d \<le> pending (sess_in c)"
        using sock_recv_Got [OF recv [unfolded Got]] sock_recv_Got_pending [OF recv [unfolded Got]] True by auto
      have run: "rx_fill want ?c = (r, c')"
        using "1.prems"(1) True recv Got by (simp add: unfold)
      have len: "length (rx ?c) = 77" using d True "1.prems"(2,3) by simp
      from "1.IH"(1) [OF True recv [symmetric] refl Got] run len "1.prems"(3)
      have "c' = ?c\<lparr>rx := rx c', rx_used := rx_used c', sess_in := sess_in c'\<rparr> \<and> length (rx c') = 77 \<and>
          rx_used c' \<le> max (rx_used ?c) want \<and> (r = Filled \<longrightarrow> want \<le> rx_used c') \<and>
          pending (sess_in c') + rx_used c' \<le> pending (sess_in ?c) + rx_used ?c" by simp
      moreover have "rx_used c + length d \<le> want" using d True by linarith
      ultimately show ?thesis using d True by (auto simp: max_def)
    next
      case Got_Eintr
      have run: "rx_fill want (c\<lparr>sess_in := es\<rparr>) = (r, c')"
        using "1.prems"(1) True recv Got_Eintr by (simp add: unfold)
      have "pending es \<le> pending (sess_in c)" using sock_recv_pending [OF recv] .
      then show ?thesis
        using "1.IH"(2) [OF True recv [symmetric] refl Got_Eintr run] "1.prems"(2,3) by simp
    qed (use "1.prems" True recv sock_recv_pending [OF recv] in \<open>auto simp: unfold\<close>)
  qed
qed

lemma rx_fill_sess_ok:
  assumes "rx_fill want c = (r, c')" "sess_ok s c" "want \<le> 77"
  shows "sess_ok s c'" "sess_id c' = sess_id c" "length (rx c') = 77"
proof -
  have len: "length (rx c) = 77" using assms(2) by (simp add: sess_ok_def)
  have c': "c' = c\<lparr>rx := rx c', rx_used := rx_used c', sess_in := sess_in c'\<rparr>"
    and facts: "length (rx c') = 77" "rx_used c' \<le> max (rx_used c) want"
    using rx_fill_spec [OF assms(1) len assms(3)] by blast+
  have "rx_used c' \<le> 77" using facts(2) assms(2,3) by (auto simp: sess_ok_def)
  then have "sess_ok s (c\<lparr>rx := rx c', rx_used := rx_used c', sess_in := sess_in c'\<rparr>)"
    using assms(2) facts(1) by (simp add: sess_ok_def)
  then show "sess_ok s c'" by (subst c')
  show "sess_id c' = sess_id c" by (subst c') simp
  show "length (rx c') = 77" by (rule facts(1))
qed

text \<open>What a whole turn of a client may do: like \<open>handled\<close>, but the socket is read.\<close>

definition turn :: "'u server \<Rightarrow> nat \<Rightarrow> 'u server \<Rightarrow> bool" where
  "turn s cid t \<longleftrightarrow> srv_ok t \<and> (ids t = ids s \<or> ids t = remove1 cid (ids s))"

lemma handled_turn: "handled s cid t \<Longrightarrow> turn s cid t"
  by (auto simp: handled_def turn_def)

lemma turn_refl: "srv_ok s \<Longrightarrow> turn s cid s"
  by (simp add: turn_def)

lemma turn_trans:
  assumes "turn s cid t" "turn t cid u" "srv_ok s"
  shows "turn s cid u"
proof -
  have "remove1 cid (remove1 cid (ids s)) = remove1 cid (ids s)"
    using assms(3) by (intro remove1_idem) (auto simp: srv_ok_def)
  then show ?thesis using assms(1,2) unfolding turn_def by metis
qed

lemma turn_ok: "turn s cid t \<Longrightarrow> srv_ok t"
  by (simp add: turn_def)

text \<open>The bytes a client still has to offer, in its buffer or in its socket.\<close>

definition backlog :: "session \<Rightarrow> nat" where
  "backlog c = pending (sess_in c) + rx_used c"

lemma frame_size_bounds: "frame_size_of t = Some n \<Longrightarrow> 48 \<le> n \<and> n \<le> 77"
  by (auto simp: frame_size_of_def split: if_splits)

lemma frame_passed:
  assumes ok: "srv_ok s" and c: "client_of s cid = Some c" and b: "sess_ok s b" "sess_id b = cid"
    and s': "process_frame (upd_client cid b s) cid t = s'"
  shows "case client_of s' cid of
      None \<Rightarrow> turn s cid s'
    | Some d \<Rightarrow> turn s cid (upd_client cid (d\<lparr>rx_used := 0\<rparr>) s') \<and>
        client_of (upd_client cid (d\<lparr>rx_used := 0\<rparr>) s') cid = Some (d\<lparr>rx_used := 0\<rparr>) \<and>
        sess_in d = sess_in b"
proof -
  have in_ids: "cid \<in> set (ids s)" using srv_ok_client [OF ok c] by simp
  have upd: "turn s cid (upd_client cid b s)"
    using srv_ok_upd [OF ok b] b(2) by (simp add: turn_def)
  have at: "client_of (upd_client cid b s) cid = Some b"
    using b(2) in_ids by (simp add: client_of_upd)
  have h: "handled (upd_client cid b s) cid s'"
    unfolding s' [symmetric] using turn_ok [OF upd] in_ids b(2) by (intro process_frame_handled) simp_all
  have t: "turn s cid s'" using turn_trans [OF upd handled_turn [OF h] ok] .
  show ?thesis
  proof (cases "client_of s' cid")
    case None
    then show ?thesis using t by simp
  next
    case (Some d)
    note d = srv_ok_client [OF turn_ok [OF t] Some]
    have z: "sess_ok s' (d\<lparr>rx_used := 0\<rparr>)" "sess_id (d\<lparr>rx_used := 0\<rparr>) = cid"
      using d by (simp_all add: sess_ok_def)
    have "turn s' cid (upd_client cid (d\<lparr>rx_used := 0\<rparr>) s')"
      using srv_ok_upd [OF turn_ok [OF t] z] z(2) by (simp add: turn_def)
    then have "turn s cid (upd_client cid (d\<lparr>rx_used := 0\<rparr>) s')"
      using t ok turn_trans by blast
    moreover have "client_of (upd_client cid (d\<lparr>rx_used := 0\<rparr>) s') cid = Some (d\<lparr>rx_used := 0\<rparr>)"
      using z(2) d by (simp add: client_of_upd)
    moreover have "sess_in d = sess_in b"
      using h Some at by (auto simp: handled_def)
    ultimately show ?thesis using Some by simp
  qed
qed

lemma service_pass_turn:
  assumes ok: "srv_ok s" and c: "client_of s cid = Some c" and p: "service_pass s cid = (again, s')"
  shows "turn s cid s' \<and>
    (again \<longrightarrow> (\<exists>d. client_of s' cid = Some d \<and> rx_used d = 0 \<and> backlog d + 48 \<le> backlog c))"
proof -
  note cok = srv_ok_client [OF ok c]
  then have len: "length (rx c) = 77" by (simp add: sess_ok_def)
  obtain r a where a: "rx_fill 8 c = (r, a)" by fastforce
  have a_ok: "sess_ok s a" "sess_id a = cid" "length (rx a) = 77"
    using rx_fill_sess_ok [OF a, of s] cok by auto
  have a_log: "backlog a \<le> backlog c"
    using rx_fill_spec [OF a len] by (simp add: backlog_def)
  have up: "turn s cid (upd_client cid x s)" "turn s cid (client_remove (upd_client cid x s) cid)"
    if "sess_ok s x" "sess_id x = cid" for x
  proof -
    show upd: "turn s cid (upd_client cid x s)"
      using srv_ok_upd [OF ok that] that by (simp add: turn_def)
    show "turn s cid (client_remove (upd_client cid x s) cid)"
      using turn_trans [OF upd handled_turn [OF handled_remove [OF turn_ok [OF upd]]] ok] .
  qed
  show ?thesis
  proof (cases "r = Filled \<and> frame_header_ok (rx a) \<and> frame_size_of (rx a ! 5) \<noteq> None")
    case False
    then show ?thesis
      using p up [OF a_ok(1,2)] by (cases r) (auto simp: service_pass_def c a Let_def split: if_splits)
  next
    case True
    then obtain size where size: "frame_size_of (rx a ! 5) = Some size" by auto
    obtain r2 b where b: "rx_fill size a = (r2, b)" by fastforce
    have sz: "48 \<le> size" "size \<le> 77" using frame_size_bounds [OF size] by auto
    have b_ok: "sess_ok s b" "sess_id b = cid"
      using rx_fill_sess_ok [OF b a_ok(1) sz(2)] a_ok(2) by auto
    have b_log: "backlog b \<le> backlog a" "r2 = Filled \<longrightarrow> size \<le> rx_used b"
      using rx_fill_spec [OF b a_ok(3) sz(2)] by (simp_all add: backlog_def)
    have twice: "upd_client cid b (upd_client cid a s) = upd_client cid b s"
      using a_ok(2) by (auto simp: upd_client_def)
    show ?thesis
    proof (cases "r2 = Filled")
      case False
      then show ?thesis
        using p up [OF b_ok] True
        by (cases r2) (auto simp: service_pass_def c a b size twice Let_def)
    next
      case r2: True
      obtain t where t: "process_frame (upd_client cid b s) cid (rx b ! 5) = t" by blast
      from frame_passed [OF ok c b_ok t] show ?thesis
        using p True r2 b_log sz a_log
        by (cases "client_of t cid")
          (auto simp: service_pass_def c a b size twice t Let_def backlog_def)
    qed
  qed
qed

lemma service_loop_turn:
  "srv_ok s \<Longrightarrow> client_of s cid = Some c \<Longrightarrow> backlog c < 48 * n \<Longrightarrow> turn s cid (service_loop n s cid)"
proof (induction n arbitrary: s c)
  case (Suc n)
  obtain again s' where p: "service_pass s cid = (again, s')" by fastforce
  note pass = service_pass_turn [OF Suc.prems(1,2) p]
  show ?case
  proof (cases again)
    case True
    with pass obtain d where d: "client_of s' cid = Some d" "backlog d + 48 \<le> backlog c" by blast
    then have "turn s' cid (service_loop n s' cid)"
      using Suc.prems(3) pass by (intro Suc.IH [OF turn_ok]) auto
    then show ?thesis using p True pass turn_trans Suc.prems(1) by auto
  qed (use p pass in simp)
qed simp

lemma service_client_turn:
  assumes "srv_ok s" "cid \<in> set (ids s)"
  shows "turn s cid (service_client s cid)"
proof -
  from client_of_ex [OF assms(2)] obtain c where c: "client_of s cid = Some c" by blast
  have "rx_used c \<le> 77" using srv_ok_client [OF assms(1) c] by (simp add: sess_ok_def)
  then have "backlog c < 48 * (pending (sess_in c) + 2)" by (simp add: backlog_def)
  then show ?thesis
    using service_loop_turn [OF assms(1) c] turn_refl [OF assms(1)]
    by (simp add: service_client_def c del: service_loop.simps)
qed

text \<open>More fuel changes nothing: the loop has ended.\<close>

lemma service_loop_fuel:
  "srv_ok s \<Longrightarrow> client_of s cid = Some c \<Longrightarrow> backlog c < 48 * n \<Longrightarrow> n \<le> m \<Longrightarrow>
   service_loop m s cid = service_loop n s cid"
proof (induction n arbitrary: s c m)
  case (Suc n)
  then obtain m' where m: "m = Suc m'" "n \<le> m'" by (cases m) auto
  obtain again s' where p: "service_pass s cid = (again, s')" by fastforce
  note pass = service_pass_turn [OF Suc.prems(1,2) p]
  show ?case
  proof (cases again)
    case True
    with pass obtain d where d: "client_of s' cid = Some d" "backlog d + 48 \<le> backlog c" by blast
    then have "service_loop m' s' cid = service_loop n s' cid"
      using Suc.prems(3) pass m(2) by (intro Suc.IH [OF turn_ok]) auto
    then show ?thesis using p True m(1) by simp
  qed (use p m(1) in simp)
qed simp

section \<open>Loops over the clients\<close>

text \<open>
  What a loop that saves the next pointer needs of its body: it keeps the invariant and removes
  at most the client it is given. Then every client that was in the list is visited, no freed
  client is read, and the loop ends.
\<close>

locale client_loop =
  fixes body :: "'u server \<Rightarrow> nat \<Rightarrow> 'u server"
    and inv :: "'u server \<Rightarrow> bool"
  assumes inv_distinct: "inv s \<Longrightarrow> distinct (ids s)"
    and body_inv: "inv s \<Longrightarrow> cid \<in> set (ids s) \<Longrightarrow> inv (body s cid)"
    and body_ids: "inv s \<Longrightarrow> cid \<in> set (ids s) \<Longrightarrow>
      ids (body s cid) = ids s \<or> ids (body s cid) = remove1 cid (ids s)"
begin

lemma succ_id_split:
  "map sess_id cs = pre @ cid # post \<Longrightarrow> cid \<notin> set pre \<Longrightarrow>
   succ_id cid cs = (case post of [] \<Rightarrow> None | k # _ \<Rightarrow> Some k)"
proof (induction cs arbitrary: pre)
  case (Cons c cs)
  then show ?case by (cases pre) (auto split: list.splits)
qed simp

text \<open>The clients still to visit are a suffix of the list.\<close>

lemma walk_visits:
  assumes "inv s" "ids s = pre @ todo" "length todo \<le> n"
  shows "walk_clients body n (case todo of [] \<Rightarrow> None | k # _ \<Rightarrow> Some k) s = foldl body s todo \<and>
    inv (foldl body s todo)"
  using assms
proof (induction n arbitrary: s pre todo)
  case 0
  then show ?case by simp
next
  case (Suc n)
  show ?case
  proof (cases todo)
    case Nil
    then show ?thesis using Suc.prems by simp
  next
    case (Cons cid rest)
    have dist: "distinct (ids s)" using Suc.prems(1) by (rule inv_distinct)
    have cid: "cid \<in> set (ids s)" using Suc.prems(2) Cons by simp
    then obtain c where c: "client_of s cid = Some c" using client_of_ex by blast
    have succ: "succ_id cid (clients s) = (case rest of [] \<Rightarrow> None | k # _ \<Rightarrow> Some k)"
      using Suc.prems(2) Cons dist by (intro succ_id_split [of _ pre]) auto
    have "ids (body s cid) = (pre @ [cid]) @ rest \<or> ids (body s cid) = pre @ rest"
      using body_ids [OF Suc.prems(1) cid] Suc.prems(2) Cons dist by (auto simp: remove1_append)
    then obtain pre' where pre': "ids (body s cid) = pre' @ rest" by blast
    have "length rest \<le> n" using Suc.prems(3) Cons by simp
    from Suc.IH [OF body_inv [OF Suc.prems(1) cid] pre' this] show ?thesis
      using Cons c succ by simp
  qed
qed

lemma for_clients_foldl: "inv s \<Longrightarrow> for_clients body s = foldl body s (ids s)"
  using walk_visits [of s "[]" "ids s" "length (clients s)"]
  by (cases "clients s") (auto simp: for_clients_def)

lemma for_clients_inv: "inv s \<Longrightarrow> inv (for_clients body s)"
  using walk_visits [of s "[]" "ids s" "length (clients s)"]
  by (cases "clients s") (auto simp: for_clients_def)

end

end
