(* ===== verification/Server_Safe.thy ===== *)
theory Server_Safe
  imports Server_Inv
begin

text \<open>
  The invariant over the whole life of the server: the loops, refreshing work, accepting, one
  iteration of the main loop, and every reachable state.
\<close>

text \<open>The invariant reads only some of the fields.\<close>

lemma srv_ok_same:
  "srv_ok s \<Longrightarrow> clients t = clients s \<Longrightarrow> client_count t = client_count s \<Longrightarrow> next_cid t = next_cid s \<Longrightarrow>
   have_work t = have_work s \<Longrightarrow> active_base t = active_base s \<Longrightarrow> active_job_id t = active_job_id s \<Longrightarrow>
   active_template t = active_template s \<Longrightarrow> active_template_length t = active_template_length s \<Longrightarrow>
   chain_config t = chain_config s \<Longrightarrow> active_chain_server t = active_chain_server s \<Longrightarrow>
   rc_exchange (chain_rpc t) = rc_exchange (chain_rpc s) \<Longrightarrow> ops t = ops s \<Longrightarrow> fault t = fault s \<Longrightarrow> srv_ok t"
  by (simp add: srv_ok_def work_ok_def chain_ok_def sess_ok_def)

section \<open>The loops\<close>

lemma send_pending_job_turn:
  assumes "srv_ok s" "cid \<in> set (ids s)"
  shows "handled s cid (send_pending_job s cid)"
proof -
  from client_of_ex [OF assms(2)] obtain c where c: "client_of s cid = Some c" by blast
  show ?thesis
    using client_send_job_handled [OF assms(1) c] handled_refl [OF assms(1)]
    by (simp add: send_pending_job_def c)
qed

lemma srv_ok_distinct: "srv_ok s \<Longrightarrow> distinct (ids s)"
  by (simp add: srv_ok_def)

interpretation service: client_loop service_client srv_ok
  by unfold_locales (use service_client_turn in \<open>auto simp: turn_def srv_ok_distinct simp del: service_loop.simps\<close>)

interpretation pending_jobs: client_loop send_pending_job srv_ok
  by unfold_locales (use send_pending_job_turn in \<open>auto simp: handled_def srv_ok_distinct\<close>)

lemma service_clients_ok: "srv_ok s \<Longrightarrow> srv_ok (service_clients s)"
  unfolding service_clients_def by (rule service.for_clients_inv)

lemma send_pending_jobs_ok: "srv_ok s \<Longrightarrow> srv_ok (send_pending_jobs s)"
  unfolding send_pending_jobs_def by (rule pending_jobs.for_clients_inv)

section \<open>Refreshing work\<close>

lemma rpc_check_empty: "rpc_check_response m i cap r = (c, q) \<Longrightarrow> c \<noteq> STN_RPC_CLIENT_OK \<Longrightarrow> q = []"
  by (auto simp: rpc_check_response_def Let_def split: if_splits)

lemma mining_template_empty:
  "stn_rpc_client_mining_template c cap = (c', code, p) \<Longrightarrow> code \<noteq> STN_RPC_CLIENT_OK \<Longrightarrow> p = []"
  by (auto simp: stn_rpc_client_mining_template_def rpc_call_def Let_def
      split: prod.splits option.splits if_splits dest: rpc_check_empty)

lemma store_template_simps [simp]:
  "store_template [] b = b" "length p \<le> length (store_template p b)"
  by (simp_all add: store_template_def)

lemma store_template_front:
  "n \<le> length p \<Longrightarrow> take n (store_template p b) = take n p"
  "off + n \<le> length p \<Longrightarrow> bytes_at off n (store_template p b) = bytes_at off n p"
  by (simp_all add: store_template_def bytes_at_append_left)

text \<open>The state with a new template in place, before the jobs are sent.\<close>

definition with_template :: "'u server \<Rightarrow> bytes \<Rightarrow> 'u server" where
  "with_template s p =
     s\<lparr>active_template := store_template p (active_template s), active_template_length := length p,
       active_base := take 32 p, active_job_id := bytes_at 32 32 p, have_work := True,
       chain_available := True\<rparr>"

lemma srv_ok_with_template:
  assumes "srv_ok s" "236 \<le> length p" "length p \<le> STN_RPC_CLIENT_MAX_PAYLOAD"
    "be_nat (bytes_at 64 4 p) = length p - 68"
  shows "srv_ok (with_template s p)"
  using assms
  by (auto simp: srv_ok_def work_ok_def chain_ok_def sess_ok_def with_template_def store_template_front)

text \<open>
  The two outcomes of a poll: no template, and then the code alone decides; or a template, which is
  installed, and offered to the clients when the base or the work id is new.
\<close>

lemma refresh_work_cases:
  assumes "stn_rpc_client_mining_template (chain_rpc s) STN_RPC_CLIENT_MAX_PAYLOAD = (rpc, code, p)"
    and "srv_ok s"
  defines "t \<equiv> s\<lparr>chain_rpc := rpc, chain_poll_count := chain_poll_count s + 1\<rparr>"
  shows "refresh_work s =
    (if code = STN_RPC_CLIENT_OK then
       (if have_work s \<and> active_base s = take 32 p \<and> active_job_id s = bytes_at 32 32 p
        then with_template t p else send_pending_jobs (with_template t p))
     else if code = STN_RPC_CLIENT_UNAVAILABLE then t\<lparr>chain_available := True\<rparr>
     else if code = STN_RPC_CLIENT_TRANSPORT
     then snd (chain_transport_next (clear_work (t\<lparr>chain_available := False\<rparr>)))
     else clear_work (t\<lparr>chain_available := True\<rparr>))"
proof (cases "code = STN_RPC_CLIENT_OK")
  case False
  then have p: "p = []" using mining_template_empty [OF assms(1)] by simp
  have t': "s\<lparr>chain_rpc := rpc, active_template := store_template p (active_template s),
      chain_poll_count := chain_poll_count s + 1\<rparr> = t"
    by (simp add: t_def p)
  show ?thesis
    using False assms(1) mining_template_facts [OF assms(1)]
    by (simp add: refresh_work_def Let_def t_def p)
next
  case True
  from mining_template_facts [OF assms(1)] True have p: "236 \<le> length p" "length p \<le> STN_RPC_CLIENT_MAX_PAYLOAD"
    "be_nat (bytes_at 64 4 p) = length p - 68" by auto
  have len: "unat (read32be (store_template p (active_template s)) 64) = length p - 68"
    using p by (subst srv32.get_value) (simp_all add: store_template_front order_trans [OF _ store_template_simps(2)])
  have ids: "mem_eq (active_base s) (store_template p (active_template s)) 32 \<longleftrightarrow> active_base s = take 32 p"
    "mem_eq (active_job_id s) (drop 32 (store_template p (active_template s))) 32 \<longleftrightarrow> active_job_id s = bytes_at 32 32 p"
    using p assms(2) store_template_front(2) [of 32 32 p "active_template s"]
    by (auto simp: mem_eq_def store_template_front srv_ok_def work_ok_def bytes_at_def)
  have fields: "take 32 (store_template p (active_template s)) = take 32 p"
    "bytes_at 32 32 (store_template p (active_template s)) = bytes_at 32 32 p"
    using p by (simp_all add: store_template_front)
  have new: "s\<lparr>chain_rpc := rpc, active_template := store_template p (active_template s),
        chain_poll_count := chain_poll_count s + 1, chain_available := True, active_template_length := length p,
        active_base := take 32 p, active_job_id := bytes_at 32 32 p, have_work := True\<rparr> = with_template t p"
    by (simp add: with_template_def t_def)
  have same: "s\<lparr>chain_rpc := rpc, active_template := store_template p (active_template s),
        chain_poll_count := chain_poll_count s + 1, chain_available := True, active_template_length := length p\<rparr> =
      with_template t p"
    if "have_work s" "active_base s = take 32 p" "active_job_id s = bytes_at 32 32 p"
    using that by (simp add: with_template_def t_def)
  show ?thesis
    using True p assms(1) same by (simp add: refresh_work_def Let_def len ids fields not_less new)
qed

lemma refresh_work_ok:
  assumes "srv_ok s"
  shows "srv_ok (refresh_work s)"
proof -
  obtain rpc code p where call: "stn_rpc_client_mining_template (chain_rpc s) STN_RPC_CLIENT_MAX_PAYLOAD =
      (rpc, code, p)" by (rule prod_cases3)
  let ?t = "s\<lparr>chain_rpc := rpc, chain_poll_count := chain_poll_count s + 1\<rparr>"
  have "srv_ok (s\<lparr>chain_rpc := rpc\<rparr>)"
    using assms rpc_exchange_kept(1) [OF call] by (rule srv_ok_rpc)
  then have t: "srv_ok ?t" "srv_ok (?t\<lparr>chain_available := b\<rparr>)" for b
    by (rule srv_ok_same; simp)+
  have w: "code = STN_RPC_CLIENT_OK \<Longrightarrow> srv_ok (with_template ?t p)"
    using mining_template_facts [OF call] t(1) by (intro srv_ok_with_template) auto
  show ?thesis
    unfolding refresh_work_cases [OF call assms]
    using t w srv_ok_clear srv_ok_next send_pending_jobs_ok by (auto simp del: map_map)
qed

section \<open>Accepting\<close>

lemma srv_ok_link:
  assumes "srv_ok s" "stn_session_acceptor_accept l es mem (next_cid s) = (r, Some c, es', mem', closed)"
  shows "srv_ok (link_client (s\<lparr>srv_mem := mem', closed_fds := fds\<rparr>) c)"
proof -
  from acceptor_session [OF assms(2)] have c: "c = stn_client_session_init (next_cid s) (sess_in c) (sess_sends c)
      (sess_socket c) (stn_client_mode_init (ls_mode l))"
    and valid: "stn_client_mode_valid (Some (sess_mode c))" "0 \<le> sess_socket c" by auto
  let ?t = "link_client (s\<lparr>srv_mem := mem', closed_fds := fds\<rparr>) c"
  have id: "sess_id c = next_cid s" by (subst c) (simp add: stn_client_session_init_def)
  have "sess_ok ?t c"
    using valid by (subst c) (subst (asm) (1 2) c, simp add: sess_ok_def stn_client_session_init_def link_client_def)
  moreover have "sess_ok s d \<Longrightarrow> sess_ok ?t d" for d
    by (auto simp: sess_ok_def link_client_def)
  moreover have "next_cid s \<notin> set (ids s)"
    using assms(1) by (auto simp: srv_ok_def sess_ok_def)
  ultimately show ?thesis
    using assms(1) id by (auto simp: srv_ok_def work_ok_def chain_ok_def link_client_def)
qed

lemma accept_from_listener_ok:
  "srv_ok s \<Longrightarrow> srv_ok (snd (accept_from_listener l es s))"
proof (induction l es s rule: accept_from_listener.induct)
  case (1 l es s)
  obtain r c es' mem closed where acc: "stn_session_acceptor_accept l es (srv_mem s) (next_cid s) =
      (r, c, es', mem, closed)" by (rule prod_cases5)
  note unfold = accept_from_listener.simps [of l es s]
  show ?case
  proof (cases c)
    case None
    then show ?thesis
      using "1.prems" acc by (simp add: unfold Let_def) (rule srv_ok_same [of s]; simp)
  next
    case (Some d)
    then show ?thesis
      using "1.IH" [OF acc [symmetric] refl refl refl refl Some] srv_ok_link [OF "1.prems" acc [unfolded Some]]
      by (simp add: unfold acc Let_def)
  qed
qed

lemma srv_ok_accepts: "srv_ok s \<Longrightarrow> srv_ok (s\<lparr>pool_accepts := es\<rparr>)" "srv_ok s \<Longrightarrow> srv_ok (s\<lparr>solo_accepts := es\<rparr>)"
  by (rule srv_ok_same [of s]; simp)+

lemma accept_clients_ok: "srv_ok s \<Longrightarrow> srv_ok (accept_clients s)"
proof -
  assume ok: "srv_ok s"
  obtain es1 s1 where a: "accept_from_listener (pool_listener s) (pool_accepts s) s = (es1, s1)" by fastforce
  let ?s1 = "s1\<lparr>pool_accepts := es1\<rparr>"
  obtain es2 s2 where b: "accept_from_listener (solo_listener ?s1) (solo_accepts ?s1) ?s1 = (es2, s2)" by fastforce
  have "srv_ok ?s1"
    using accept_from_listener_ok [OF ok, of "pool_listener s" "pool_accepts s"] by (simp add: a srv_ok_accepts)
  from accept_from_listener_ok [OF this, of "solo_listener ?s1" "solo_accepts ?s1"] b
  show ?thesis by (simp add: accept_clients_def a Let_def srv_ok_accepts)
qed

section \<open>Every reachable state\<close>

lemma server_tick_ok: "srv_ok s \<Longrightarrow> srv_ok (server_tick s)"
proof -
  assume "srv_ok s"
  then have "srv_ok (service_clients (accept_clients s))"
    by (intro service_clients_ok accept_clients_ok)
  then have "srv_ok (send_pending_jobs
      (let s = service_clients (accept_clients s) in
       if loop_count s mod STN_STRATUM_CHAIN_POLL_TICKS = 0 then refresh_work s else s))"
    by (auto simp: Let_def intro: send_pending_jobs_ok refresh_work_ok)
  then show ?thesis
    unfolding server_tick_def Let_def by (rule srv_ok_same) simp_all
qed

inductive reachable :: "'u server \<Rightarrow> 'u server \<Rightarrow> bool" for s0 where
  start: "reachable s0 s0"
| step: "reachable s0 s \<Longrightarrow> server_step s t \<Longrightarrow> reachable s0 t"

inductive_cases server_stepE: "server_step s t"

lemma server_step_ok: "server_step s t \<Longrightarrow> srv_ok s \<Longrightarrow> srv_ok t"
  by (erule server_stepE)
    (auto simp: server_tick_ok stn_stratum_server_stop_def elim: srv_ok_same)

lemma reachable_ok: "reachable s0 s \<Longrightarrow> srv_ok s0 \<Longrightarrow> srv_ok s"
  by (induction rule: reachable.induct) (auto intro: server_step_ok)

end
