(* ===== verification/Server_Sample.thy ===== *)
theory Server_Sample
  imports Server_Inv
begin

text \<open>
  Concrete data for the witnesses: a Chain that answers every request with fixed bytes, a
  registered client, and a server with the example template as its work.
\<close>

definition sample_ops :: "bytes option \<Rightarrow> unit transport_ops" where
  "sample_ops reply = \<lparr>op_init = (\<lambda>u host port. ()), op_close = (\<lambda>u. ()), op_exchange = (\<lambda>u request cap. ((), reply))\<rparr>"

definition sample_config :: "config_entry list" where
  "sample_config = [\<lparr>cfg_host = [0x61], cfg_port = 1\<rparr>, \<lparr>cfg_host = [0x62], cfg_port = 2\<rparr>, \<lparr>cfg_host = [0x63], cfg_port = 3\<rparr>]"

text \<open>The address \<open>stn0_\<close> with 64 times the digit 0, and a SUBMIT frame in a full buffer.\<close>

definition sample_address :: bytes where
  "sample_address = stn0_text @ replicate 64 0x30"

definition sample_submit :: "bytes \<Rightarrow> u64 \<Rightarrow> bytes" where
  "sample_submit jid nonce = STN_MINER_MAGIC @ [1, 2, 0, 0] @ jid @ be_bytes 8 nonce @ replicate 29 0"

definition sample_client :: session where
  "sample_client =
     (stn_client_session_init 0 [] [] 5 (stn_client_mode_init STN_SERVICE_MODE_POOL))
       \<lparr>address := sample_address @ [0], address_registered := True, rx := sample_submit (replicate 32 2) 2\<rparr>"

definition sample_srv :: "'u transport_ops \<Rightarrow> 'u \<Rightarrow> 'u server" where
  "sample_srv tops u =
     (stn_stratum_server_init tops u [] [] [] [])
       \<lparr>chain_config := sample_config,
        chain_rpc := stn_rpc_client_init [] u (Some (op_exchange tops)),
        active_base := replicate 32 1, active_job_id := replicate 32 2,
        active_template := example_template, active_template_length := 236, have_work := True,
        clients := [sample_client], client_count := 1, next_cid := 1\<rparr>"

abbreviation sample_server :: "bytes option \<Rightarrow> unit server" where
  "sample_server reply \<equiv> sample_srv (sample_ops reply) ()"

lemma length_sample_submit: "length jid = 32 \<Longrightarrow> length (sample_submit jid nonce) = 77"
  by (simp add: sample_submit_def STN_MINER_MAGIC_def)

lemma sample_address_ok: "address_ok (sample_address @ [0])"
proof -
  have "\<forall>i \<in> {5..<69}. (sample_address @ [0]) ! i = 0x30"
    by (auto simp: sample_address_def stn0_text_def nth_append)
  then show ?thesis
    by (auto simp: address_ok_def hex_lower_def sample_address_def stn0_text_def nth_append)
qed

lemma sample_client_fields [simp]:
  "sess_id sample_client = 0" "sess_socket sample_client = 5" "rx sample_client = sample_submit (replicate 32 2) 2"
  "address_registered sample_client" "\<not> has_job sample_client" "address sample_client = sample_address @ [0]"
  "sess_in sample_client = []" "sess_sends sample_client = []" "sess_out sample_client = []"
  "rx_used sample_client = 0" "hashrate sample_client = 0" "sent_job_id sample_client = replicate 32 0"
  by (simp_all add: sample_client_def stn_client_session_init_def)

lemma sample_server_fields [simp]:
  "clients (sample_srv tops u) = [sample_client]" "client_of (sample_srv tops u) 0 = Some sample_client"
  "have_work (sample_srv tops u)" "active_job_id (sample_srv tops u) = replicate 32 2"
  "active_template (sample_srv tops u) = example_template" "active_template_length (sample_srv tops u) = 236"
  "active_chain_server (sample_srv tops u) = 0" "chain_config (sample_srv tops u) = sample_config"
  "ops (sample_srv tops u) = tops" "chain_rpc (sample_srv tops u) = stn_rpc_client_init [] u (Some (op_exchange tops))"
  by (simp_all add: sample_srv_def client_of_def stn_stratum_server_init_def)

lemma sample_server_ok: "srv_ok (sample_srv tops u)"
proof -
  have "sess_ok (sample_srv tops u) sample_client"
    using sample_address_ok length_sample_submit [of "replicate 32 2" 2]
    by (simp add: sess_ok_def)
      (simp add: sample_srv_def sample_client_def stn_client_session_init_def sample_address_def
        stn0_text_def stn_client_mode_init_def stn_client_mode_valid_def)
  then show ?thesis
    by (simp add: srv_ok_def work_ok_def chain_ok_def example_template_fields)
      (simp add: sample_srv_def sample_config_def stn_rpc_client_init_def stn_stratum_server_init_def
        example_template_fields flip: bytes_at_zero)
qed

definition sample_open :: open_env where
  "sample_open = \<lparr>oe_socket = 7, oe_setsockopt = True, oe_bind = True, oe_listen = True, oe_getfl = True, oe_setfl = True\<rparr>"

text \<open>A well-formed ADDRESS frame.\<close>

definition sample_address_frame :: bytes where
  "sample_address_frame = STN_MINER_MAGIC @ [1, 5, 0, 0] @ sample_address"

lemma sample_address_frame: "address_valid sample_address_frame" "length sample_address_frame = 77"
proof -
  have "sample_address_frame = [0x53, 0x54, 0x4e, 0x4d, 1, 5, 0, 0, 0x73, 0x74, 0x6e, 0x30, 0x5f] @ replicate 64 0x30"
    by (simp add: sample_address_frame_def STN_MINER_MAGIC_def sample_address_def stn0_text_def)
  moreover have "address_valid ([0x53, 0x54, 0x4e, 0x4d, 1, 5, 0, 0, 0x73, 0x74, 0x6e, 0x30, 0x5f] @ replicate 64 0x30)"
    unfolding address_valid_def list_all_upt
    by (auto simp: mem_eq_def STN_MINER_MAGIC_def stn0_text_def nth_append hex_lower_def)
  ultimately show "address_valid sample_address_frame" by simp
  show "length sample_address_frame = 77"
    by (simp add: sample_address_frame_def STN_MINER_MAGIC_def sample_address_def stn0_text_def)
qed

end
