(* ===== verification/Server_Life.thy ===== *)
theory Server_Life
  imports Server_Safe Server_Sample
begin

text \<open>
  The life of the work in the server: how a job is offered to the miners, what a poll of the Chain
  does with each answer, and how the server moves on to the next Chain server.
\<close>

section \<open>Offering a job\<close>

lemma find_unlink:
  "k \<noteq> cid \<Longrightarrow> find (\<lambda>c. sess_id c = k) (unlink cid cs) = find (\<lambda>c. sess_id c = k) cs"
  by (induction cs) auto

lemma client_of_remove: "k \<noteq> cid \<Longrightarrow> client_of (client_remove s cid) k = client_of s k"
  by (simp add: client_of_def clients_remove find_unlink)

lemma client_of_remove_same: "distinct (ids s) \<Longrightarrow> client_of (client_remove s cid) cid = None"
  by (simp only: client_of_None ids_remove) simp

text \<open>The fields that describe the work and the Chain.\<close>

definition same_work :: "'u server \<Rightarrow> 'u server \<Rightarrow> bool" where
  "same_work s t \<longleftrightarrow> have_work t = have_work s \<and> active_base t = active_base s \<and>
     active_job_id t = active_job_id s \<and> active_template t = active_template s \<and>
     active_template_length t = active_template_length s \<and> chain_rpc t = chain_rpc s \<and>
     chain_available t = chain_available s \<and> active_chain_server t = active_chain_server s \<and>
     chain_config t = chain_config s"

lemma same_work_refl [simp]: "same_work s s"
  by (simp add: same_work_def)

lemma same_work_trans: "same_work s t \<Longrightarrow> same_work t u \<Longrightarrow> same_work s u"
  by (simp add: same_work_def)

lemma same_work_prims:
  "same_work s (upd_client cid c s)" "same_work s (client_remove s cid)"
  "same_work s (client_remove (upd_client cid c s) cid)"
  by (simp_all add: same_work_def upd_client_def client_remove_def split: option.splits prod.splits)

text \<open>The bytes of a job: the header, then the whole block.\<close>

definition job_bytes :: "'u server \<Rightarrow> bytes" where
  "job_bytes s = job_header_spec (active_template s) (active_template_length s) @
     bytes_at 68 (active_template_length s - 68) (active_template s)"

lemma client_send_job_spec:
  assumes ok: "srv_ok s" and work: "have_work s" and c: "client_of s cid = Some c"
  shows "same_work s (snd (client_send_job s cid)) \<and>
    (\<forall>k. k \<noteq> cid \<longrightarrow> client_of (snd (client_send_job s cid)) k = client_of s k) \<and>
    (fst (client_send_job s cid) \<longrightarrow>
       (\<exists>c'. client_of (snd (client_send_job s cid)) cid = Some c' \<and> has_job c' \<and>
          sent_job_id c' = active_job_id s \<and> sess_out c' = sess_out c @ job_bytes s \<and>
          address_registered c' = address_registered c)) \<and>
    (\<not> fst (client_send_job s cid) \<longrightarrow> client_of (snd (client_send_job s cid)) cid = None)"
proof -
  let ?t = "active_template s" and ?n = "active_template_length s"
  note cok = srv_ok_client [OF ok c]
  have n: "236 \<le> ?n" "?n \<le> length ?t" "?n \<le> STN_RPC_CLIENT_MAX_PAYLOAD"
    using ok work by (auto simp: srv_ok_def work_ok_def)
  have job: "stn_miner_job_build (Some ?t) ?n = Some (job_header_spec ?t ?n, of_nat (?n - 68))"
    using job_build_aux [OF n(2)] n by simp
  have len: "unat (of_nat (?n - 68) :: u32) = ?n - 68"
    using n by (intro unat_of_nat_u32) simp
  have sock: "sess_socket c \<noteq> - 1" using cok by (simp add: sess_ok_def)
  obtain ok1 c1 where s1: "sess_send c (job_header_spec ?t ?n) = (ok1, c1)" by fastforce
  obtain ok2 c2 where s2: "(if ok1 then sess_send c1 (bytes_at 68 (?n - 68) ?t) else (False, c1)) = (ok2, c2)"
    by fastforce
  have id: "sess_id c2 = cid" "address_registered c2 = address_registered c"
    using s1 s2 cok by (auto simp: sess_send_simps [OF s1] sess_send_simps split: if_splits)
  have out: "ok2 \<Longrightarrow> sess_out c2 = sess_out c @ job_bytes s"
    using s1 s2 sess_send_fields(2) [of c _ ok1 c1] sess_send_fields(2) [of c1 _ ok2 c2]
    by (auto simp: job_bytes_def split: if_splits)
  have dist: "distinct (ids (upd_client cid c2 s))" using ok id by (simp add: srv_ok_def)
  have run: "client_send_job s cid =
      (if ok2 then (True, upd_client cid (c2\<lparr>sent_job_id := active_job_id s, has_job := True\<rparr>) s)
       else (False, client_remove (upd_client cid c2 s) cid))"
    using s1 s2 by (cases ok1) (simp_all add: client_send_job_def work c sock job len)
  show ?thesis
    using id out cok dist
    by (auto simp: run same_work_prims client_of_upd client_of_remove client_of_remove_same)
qed

lemma send_pending_job_spec:
  assumes "srv_ok s" "cid \<in> set (ids s)"
  shows "same_work s (send_pending_job s cid) \<and>
    (\<forall>k. k \<noteq> cid \<longrightarrow> client_of (send_pending_job s cid) k = client_of s k) \<and>
    (\<forall>c. client_of (send_pending_job s cid) cid = Some c \<longrightarrow> have_work s \<longrightarrow> address_registered c \<longrightarrow>
       has_job c \<and> sent_job_id c = active_job_id s)"
proof -
  from client_of_ex [OF assms(2)] obtain c where c: "client_of s cid = Some c" by blast
  have eq: "mem_eq (sent_job_id c) (active_job_id s) 32 \<longleftrightarrow> sent_job_id c = active_job_id s"
    using srv_ok_client [OF assms(1) c] assms(1) by (intro mem_eq_exact) (auto simp: sess_ok_def srv_ok_def work_ok_def)
  show ?thesis
  proof (cases "have_work s \<and> address_registered c \<and> (\<not> has_job c \<or> sent_job_id c \<noteq> active_job_id s)")
    case True
    then show ?thesis
      using client_send_job_spec [OF assms(1) _ c]
      by (cases "fst (client_send_job s cid)") (auto simp: send_pending_job_def c eq)
  next
    case False
    then show ?thesis using c by (auto simp: send_pending_job_def eq)
  qed
qed

text \<open>What holds while the loop runs: the clients served so far hold the current job.\<close>

lemma send_pending_fold:
  assumes "srv_ok s" "distinct todo" "set todo \<subseteq> set (ids s)"
  shows "same_work s (foldl send_pending_job s todo) \<and>
    (\<forall>k. k \<notin> set todo \<longrightarrow> client_of (foldl send_pending_job s todo) k = client_of s k) \<and>
    (\<forall>k \<in> set todo. \<forall>c. client_of (foldl send_pending_job s todo) k = Some c \<longrightarrow> have_work s \<longrightarrow>
       address_registered c \<longrightarrow> has_job c \<and> sent_job_id c = active_job_id s)"
  using assms
proof (induction todo arbitrary: s)
  case (Cons cid todo)
  have cid: "cid \<in> set (ids s)" using Cons.prems(3) by simp
  let ?t = "send_pending_job s cid"
  note spec = send_pending_job_spec [OF Cons.prems(1) cid]
  have h: "handled s cid ?t" by (rule send_pending_job_turn [OF Cons.prems(1) cid])
  then have "set todo \<subseteq> set (ids ?t)"
    using Cons.prems(2,3) set_remove1_eq [OF srv_ok_distinct [OF Cons.prems(1)]]
    by (auto simp: handled_def simp del: set_map)
  from Cons.IH [OF handled_ok [OF h] _ this] Cons.prems(2)
  have rest: "same_work ?t (foldl send_pending_job ?t todo)"
    "\<And>k. k \<notin> set todo \<Longrightarrow> client_of (foldl send_pending_job ?t todo) k = client_of ?t k"
    "\<And>k c. k \<in> set todo \<Longrightarrow> client_of (foldl send_pending_job ?t todo) k = Some c \<Longrightarrow> have_work ?t \<Longrightarrow>
       address_registered c \<Longrightarrow> has_job c \<and> sent_job_id c = active_job_id ?t" by auto
  have same: "have_work ?t = have_work s" "active_job_id ?t = active_job_id s"
    using spec by (simp_all add: same_work_def)
  have out: "cid \<notin> set todo" using Cons.prems(2) by simp
  show ?case
    using same_work_trans [OF conjunct1 [OF spec] rest(1)] rest(2,3) spec out
    by (auto simp: same)
qed simp

lemma send_pending_jobs_spec:
  assumes "srv_ok s"
  shows "same_work s (send_pending_jobs s) \<and>
    (\<forall>k c. client_of (send_pending_jobs s) k = Some c \<longrightarrow> have_work s \<longrightarrow>
       address_registered c \<longrightarrow> has_job c \<and> sent_job_id c = active_job_id s)"
proof -
  have loop: "send_pending_jobs s = foldl send_pending_job s (ids s)"
    unfolding send_pending_jobs_def by (rule pending_jobs.for_clients_foldl [OF assms])
  note spec = send_pending_fold [OF assms srv_ok_distinct [OF assms] order_refl, folded loop]
  have "k \<in> set (ids s)" if "client_of (send_pending_jobs s) k = Some c" for k c
  proof (rule ccontr)
    assume "k \<notin> set (ids s)"
    then show False
      using spec that client_of_None [of s k] by auto
  qed
  then show ?thesis using spec by blast
qed

text \<open>
  Sending the job to a client either sends it in full (the 116 byte JOB header and then
  every byte of the block, after whatever was sent before), and then the client is recorded as
  holding exactly the active work id; or the client is gone from the list. No other client and
  nothing of the work changes.
\<close>

theorem job_sent:
  assumes "srv_ok s" and "have_work s" and "client_of s cid = Some c"
    and "client_send_job s cid = (ok, t)"
  shows "(if ok then \<exists>c'. client_of t cid = Some c' \<and> sess_out c' = sess_out c @ job_bytes s \<and>
            has_job c' \<and> sent_job_id c' = active_job_id s
          else client_of t cid = None) \<and>
    (\<forall>k. k \<noteq> cid \<longrightarrow> client_of t k = client_of s k) \<and> same_work s t"
  using client_send_job_spec [OF assms(1-3)] by (auto simp: assms(4))

lemma sess_send_free: "sess_sends c = [] \<Longrightarrow> sess_send c p = (True, c\<lparr>sess_out := sess_out c @ p\<rparr>)"
  by (cases p) (simp_all add: sess_send_def)

theorem job_sent_witness:
  "\<exists>c'. client_of (snd (client_send_job (sample_server None) 0)) 0 = Some c' \<and>
     sess_out c' = job_header_spec example_template 236 @ example_block"
proof -
  have b: "job_bytes (sample_server None) = job_header_spec example_template 236 @ example_block"
    using example_template_fields(8) by (simp add: job_bytes_def bytes_at_def)
  have "fst (client_send_job (sample_server None) 0)"
    using job_build_aux [of 236 example_template] by (simp add: client_send_job_def sess_send_free)
  then obtain t where "client_send_job (sample_server None) 0 = (True, t)" by (metis prod.collapse)
  from job_sent [OF sample_server_ok _ _ this] this show ?thesis by (auto simp: b)
qed

text \<open>
  C11. After every iteration of the main loop, every registered miner that is still
  connected holds the current work, if there is any.
\<close>

theorem tick_offers_work:
  assumes "srv_ok s" and "have_work (server_tick s)" and "c \<in> set (clients (server_tick s))"
    and "address_registered c"
  shows "has_job c \<and> sent_job_id c = active_job_id (server_tick s)"
proof -
  define a where "a = service_clients (accept_clients s)"
  define b where "b = (if loop_count a mod 4 = 0 then refresh_work a else a)"
  have t: "server_tick s = (send_pending_jobs b)\<lparr>loop_count := loop_count (send_pending_jobs b) + 1\<rparr>"
    by (simp add: server_tick_def a_def b_def Let_def)
  have ok: "srv_ok b"
    using assms(1) by (simp add: a_def b_def refresh_work_ok service_clients_ok accept_clients_ok)
  have "client_of (send_pending_jobs b) (sess_id c) = Some c"
    using assms(3) t by (intro client_of_unique srv_ok_distinct send_pending_jobs_ok ok) simp_all
  then show ?thesis
    using send_pending_jobs_spec [OF ok] assms(2,4) by (auto simp: t same_work_def)
qed

lemma sample_idle:
  "service_clients (accept_clients ((sample_server None)\<lparr>loop_count := 1\<rparr>)) = (sample_server None)\<lparr>loop_count := 1\<rparr>"
proof -
  let ?s = "(sample_server None)\<lparr>loop_count := 1\<rparr>"
  have acc: "accept_clients ?s = ?s"
    by (simp add: accept_clients_def accept_from_listener.simps stn_session_acceptor_accept_def
        stn_mining_listener_accept_def sample_srv_def stn_stratum_server_init_def stn_mining_listener_init_def)
  have "service_pass ?s 0 = (False, ?s)"
    by (simp add: service_pass_def rx_fill.simps client_of_def upd_client_def Let_def)
  then show ?thesis
    by (simp add: acc service_clients_def for_clients_def client_of_def service_client_def)
qed

lemma sample_tick:
  "have_work (server_tick ((sample_server None)\<lparr>loop_count := 1\<rparr>)) \<and>
   active_job_id (server_tick ((sample_server None)\<lparr>loop_count := 1\<rparr>)) = replicate 32 2 \<and>
   map address_registered (clients (server_tick ((sample_server None)\<lparr>loop_count := 1\<rparr>))) = [True]"
proof -
  let ?s = "(sample_server None)\<lparr>loop_count := 1\<rparr>"
  have tick: "server_tick ?s = (send_pending_job ?s 0)\<lparr>loop_count := loop_count (send_pending_job ?s 0) + 1\<rparr>"
    by (simp add: server_tick_def sample_idle Let_def send_pending_jobs_def for_clients_def client_of_def)
  show ?thesis
    using job_build_aux [of 236 example_template]
    by (simp add: tick send_pending_job_def client_send_job_def sess_send_free client_of_def upd_client_def mem_eq_def)
qed

theorem tick_offers_work_witness:
  "\<exists>c. clients (server_tick ((sample_server None)\<lparr>loop_count := 1\<rparr>)) = [c] \<and> has_job c \<and>
     sent_job_id c = replicate 32 2"
proof -
  let ?s = "(sample_server None)\<lparr>loop_count := 1\<rparr>"
  have "srv_ok ?s" by (rule srv_ok_same [OF sample_server_ok [of "sample_ops None" "()"]]) simp_all
  moreover obtain c where "clients (server_tick ?s) = [c]" "address_registered c"
    using sample_tick by auto
  ultimately show ?thesis
    using tick_offers_work [of ?s c] sample_tick by auto
qed

section \<open>Polling the Chain\<close>



section \<open>Moving on to the next Chain server\<close>

lemma chain_next_spec:
  assumes "srv_ok s"
  defines "i \<equiv> (active_chain_server s + 1) mod length (chain_config s)"
  shows "srv_ok (snd (chain_transport_next s)) \<and> active_chain_server (snd (chain_transport_next s)) = i \<and>
    chain_config (snd (chain_transport_next s)) = chain_config s \<and> ops (snd (chain_transport_next s)) = ops s \<and>
    chain_rpc (snd (chain_transport_next s)) = stn_rpc_client_init (rc_mem (chain_rpc s))
      (op_init (ops s) (op_close (ops s) (transport_user (chain_rpc s)))
        (Some (cfg_host (chain_config s ! i))) (cfg_port (chain_config s ! i))) (Some (op_exchange (ops s)))"
  using assms(1) srv_ok_next [OF assms(1)] mod_Suc [of "active_chain_server s" "length (chain_config s)"]
  by (auto simp: i_def chain_transport_next_def chain_transport_select_def Let_def srv_ok_def chain_ok_def)

text \<open>
  The Chain servers are taken in the order of the configuration, cyclically:
  after \<open>k\<close> moves the server at position \<open>i + k\<close> modulo their number is active, so that \<open>n\<close> moves
  come back to the start having tried every server once; a move always has a server to select, and
  discards the work.
\<close>

theorem failover_round_robin:
  assumes "srv_ok s"
  shows "active_chain_server (((\<lambda>s. snd (chain_transport_next s)) ^^ k) s) =
      (active_chain_server s + k) mod length (chain_config s) \<and>
    active_chain (((\<lambda>s. snd (chain_transport_next s)) ^^ k) s) =
      Some (chain_config s ! ((active_chain_server s + k) mod length (chain_config s))) \<and>
    (0 < k \<longrightarrow> \<not> have_work (((\<lambda>s. snd (chain_transport_next s)) ^^ k) s))"
proof -
  let ?f = "\<lambda>s. snd (chain_transport_next s)"
  have run: "srv_ok ((?f ^^ k) s) \<and> chain_config ((?f ^^ k) s) = chain_config s \<and>
      active_chain_server ((?f ^^ k) s) = (active_chain_server s + k) mod length (chain_config s)"
  proof (induction k)
    case 0
    then show ?case using assms by (auto simp: srv_ok_def chain_ok_def)
  next
    case (Suc k)
    then show ?case using chain_next_spec [of "(?f ^^ k) s"] by (auto simp: mod_Suc_eq)
  qed
  then have "active_chain ((?f ^^ k) s) =
      Some (chain_config s ! ((active_chain_server s + k) mod length (chain_config s)))"
    by (auto simp: active_chain_def srv_ok_def chain_ok_def)
  moreover have "\<not> have_work ((?f ^^ k) s)" if pos: "0 < k"
  proof -
    obtain m where "k = Suc m" using pos gr0_implies_Suc by blast
    moreover have "srv_ok u \<Longrightarrow> \<not> have_work (?f u)" for u
      by (auto simp: chain_transport_next_def chain_transport_select_def Let_def srv_ok_def chain_ok_def)
    moreover have "srv_ok ((?f ^^ m) s)"
      by (induction m) (use assms srv_ok_next in auto)
    ultimately show ?thesis by simp
  qed
  ultimately show ?thesis using run by blast
qed

theorem failover_round_robin_witness:
  "active_chain (((\<lambda>s. snd (chain_transport_next s)) ^^ 4) (sample_server None)) = Some \<lparr>cfg_host = [0x62], cfg_port = 2\<rparr>"
  using failover_round_robin [OF sample_server_ok, of 4 "sample_ops None" "()"] by (simp add: sample_config_def)








end
