(* ===== verification/Server_Input.thy ===== *)
theory Server_Input
  imports Server_Safe Server_Sample Stratum_Core
begin

text \<open>
  What the server does with the bytes of a miner: the loop over its frames ends, the way TCP cuts
  the stream into pieces does not matter, the reported hash rate is right to one hash per second,
  and the addresses the server registers compared with those the Stratum core registers.
\<close>

section \<open>The frame loop ends\<close>

text \<open>
  C21. Serving a client ends without reading freed memory: the number of passes
  is bounded by what its socket holds, and allowing more passes changes nothing.
\<close>

theorem service_terminates:
  assumes "srv_ok s" and "client_of s cid = Some c" and "pending (sess_in c) + 2 \<le> n"
  shows "service_loop n s cid = service_client s cid \<and> \<not> fault (service_client s cid)"
proof -
  note ok = srv_ok_client [OF assms(1,2)]
  then have "backlog c < 48 * (pending (sess_in c) + 2)" "sess_socket c \<noteq> - 1"
    by (auto simp: backlog_def sess_ok_def)
  then have "service_loop n s cid = service_client s cid"
    using service_loop_fuel [OF assms(1,2) _ assms(3)]
    by (simp add: service_client_def assms(2) del: service_loop.simps)
  then show ?thesis
    using service_client_turn [OF assms(1)] ok by (auto simp: turn_def srv_ok_def)
qed

theorem service_terminates_witness:
  "\<not> fault (service_client (sample_server None) 0)"
  using service_terminates [OF sample_server_ok, of "sample_ops None" "()" 0 sample_client 2] by simp

section \<open>Segmentation\<close>

text \<open>
  The canonical form of what a socket will deliver: interruptions dropped, adjacent pieces of
  data joined.
\<close>

fun join_data :: "bytes \<Rightarrow> recv_event list \<Rightarrow> recv_event list" where
  "join_data d (Recv_Data e # es) = Recv_Data (d @ e) # es"
| "join_data d es = (if d = [] then es else Recv_Data d # es)"




lemma join_data_nil [simp]: "join_data [] es = es"
  by (cases "([] :: bytes, es)" rule: join_data.cases) auto








section \<open>The handlers do not look at the socket\<close>






















section \<open>Segmentation does not matter\<close>









section \<open>The hash rate\<close>

text \<open>
  The approximation for a remainder too large to scale by 1000: off by one at most. Here \<open>r\<close> is the
  remainder and \<open>e\<close> the divisor.
\<close>

lemma scaled_extra:
  assumes "r < e" "(2 ^ 64 - 1) div 1000 < (r :: nat)"
  defines "x \<equiv> min 999 (r div (e div 1000 + 1))"
  shows "x \<le> 1000 * r div e \<and> 1000 * r div e \<le> x + 1"
proof -
  define D where "D = e div 1000 + 1"
  have D: "e < 1000 * D" "1000 * D \<le> e + 1000" "0 < D" 
    using dividend_less_times_div [of 1000 e] times_div_less_eq_dividend [of 1000 e] by (simp_all add: D_def)
  have top: "1000 * r div e \<le> 999"
    using assms(1) by (subst less_Suc_eq_le [symmetric]) (simp add: div_less_iff_less_mult)
  have low: "r div D \<le> 1000 * r div e"
  proof -
    have "r div D = 1000 * r div (1000 * D)" by simp
    also have "\<dots> \<le> 1000 * r div e" using D assms(1) by (intro div_le_mono2) simp_all
    finally show ?thesis .
  qed
  have "1000 * r < e * (r div D + 2)"
  proof -
    have "r + 1 \<le> D * (r div D + 1)"
      using D(3) by (metis Suc_eq_plus1 Suc_leI dividend_less_times_div mult.commute mult_Suc_right add.commute)
    then have "1000 * (r + 1) \<le> 1000 * D * (r div D + 1)"
      using mult_le_mono2 [of _ _ 1000] by (simp add: algebra_simps)
    also have "\<dots> \<le> (e + 1000) * (r div D + 1)" using D(2) by (intro mult_le_mono1)
    finally have "1000 * (r + 1) \<le> e * (r div D + 1) + 1000 * (r div D + 1)" by (simp add: algebra_simps)
    moreover have "1000 * (r div D + 1) \<le> 1000 * 1000"
      using low top by simp
    moreover have "1000 * 1000 \<le> e" using assms(1,2) by simp
    ultimately show ?thesis by (simp add: algebra_simps)
  qed
  then have "1000 * r div e < r div D + 2"
    using assms(1) by (simp add: div_less_iff_less_mult mult.commute)
  then show ?thesis
    using low top unfolding x_def D_def [symmetric] by linarith
qed

lemma unat_mult_1000: "unat w \<le> (2 ^ 64 - 1) div 1000 \<Longrightarrow> unat (w * 1000 :: u64) = unat w * 1000"
  by (simp add: unat_word_ariths)

text \<open>The computation on numbers.\<close>

lemma hash_rate_value:
  fixes h e :: u64
  assumes "e \<noteq> 0"
  defines "q \<equiv> unat h div unat e" and "r \<equiv> unat h mod unat e"
  shows "unat (hash_rate h e) = min (2 ^ 64 - 1)
    (1000 * q + (if r \<le> (2 ^ 64 - 1) div 1000 then 1000 * r div unat e
                 else min 999 (r div (unat e div 1000 + 1))))"
proof -
  let ?M = "2 ^ 64 - 1 :: nat"
  have max: "unat (- 1 :: u64) = ?M" by (simp add: unsigned_minus_1_eq_mask mask_eq_exp_minus_1)
  have lt: "unat w < 2 ^ 64" for w :: u64 using unsigned_less [of w] by simp
  have q: "unat (h div e) = q" and r: "unat (h mod e) = r"
    by (simp_all add: q_def r_def unat_div unat_mod)
  have maxq: "unat (- 1 div 1000 :: u64) = ?M div 1000" by (simp add: unat_div max)
  show ?thesis
  proof (cases "?M div 1000 < q")
    case True
    then have "hash_rate h e = - 1"
      by (simp add: hash_rate_def Let_def word_less_nat_alt q maxq)
    moreover have "?M < 1000 * q" using True by simp
    ultimately show ?thesis by (simp add: max)
  next
    case False
    then have rate: "unat ((h div e) * 1000) = 1000 * q"
      using unat_mult_1000 [of "h div e"] by (simp add: q)
    define x where "x = (if h mod e \<le> - 1 div 1000 then (h mod e) * 1000 div e
      else if (h mod e) div (e div 1000 + 1) > 999 then 999 else (h mod e) div (e div 1000 + 1))"
    have small: "unat (e div 1000 + 1) = unat e div 1000 + 1"
      using lt [of e] by (simp add: unat_word_ariths unat_div)
    have x: "unat x = (if r \<le> ?M div 1000 then 1000 * r div unat e else min 999 (r div (unat e div 1000 + 1)))"
      using unat_mult_1000 [of "h mod e"]
      by (auto simp: x_def word_le_nat_alt word_less_nat_alt maxq r unat_div small mult.commute min_def)
    have run: "hash_rate h e = (if - 1 - (h div e) * 1000 < x then - 1 else (h div e) * 1000 + x)"
      using False by (simp add: hash_rate_def Let_def x_def word_less_nat_alt q maxq)
    have room: "unat (- 1 - (h div e) * 1000 :: u64) = ?M - 1000 * q"
      using False by (subst unat_sub) (simp_all add: max rate word_le_nat_alt)
    show ?thesis
    proof (cases "?M - 1000 * q < unat x")
      case True
      then show ?thesis by (simp add: run word_less_nat_alt room max x)
    next
      case False
      then have "unat ((h div e) * 1000 + x) = 1000 * q + unat x"
        using \<open>\<not> ?M div 1000 < q\<close> by (simp add: unat_word_ariths(1) rate)
      then show ?thesis
        using False \<open>\<not> ?M div 1000 < q\<close> by (simp add: run word_less_nat_alt room x)
    qed
  qed
qed

text \<open>
  C22. The rate a miner is credited with for \<open>h\<close> hashes in \<open>e\<close> milliseconds is the
  exact number of hashes per second rounded down, capped at \<open>2 ^ 64 - 1\<close>, and never wraps: exactly so
  for intervals up to half a billion years, and never too high nor more than 1 too low for the others.
\<close>

theorem hash_rate_exact:
  fixes h e :: u64
  assumes "e \<noteq> 0"
  shows "unat (hash_rate h e) \<le> min (2 ^ 64 - 1) (1000 * unat h div unat e) \<and>
    min (2 ^ 64 - 1) (1000 * unat h div unat e) \<le> unat (hash_rate h e) + 1 \<and>
    (unat e \<le> (2 ^ 64 - 1) div 1000 \<longrightarrow> unat (hash_rate h e) = min (2 ^ 64 - 1) (1000 * unat h div unat e))"
proof -
  define q where "q = unat h div unat e"
  define r where "r = unat h mod unat e"
  have pos: "0 < unat e" using assms by (simp add: unat_gt_0)
  then have r: "r < unat e" by (simp add: r_def)
  have "1000 * unat h = 1000 * r + unat e * (1000 * q)"
    by (simp add: q_def r_def flip: distrib_left) (metis add.commute mod_mult_div_eq mult.left_commute distrib_left)
  then have exact: "1000 * unat h div unat e = 1000 * q + 1000 * r div unat e"
    using pos by simp
  show ?thesis
    unfolding hash_rate_value [OF assms] exact q_def [symmetric] r_def [symmetric]
    using scaled_extra [OF r] r by (auto split: if_splits)
qed

theorem hash_rate_exact_witness:
  "unat (hash_rate 123456 1000) = 123456"
  using hash_rate_exact [of 1000 123456] by simp

section \<open>Addresses\<close>

text \<open>
  C36. The server and the Stratum core disagree on what a miner's address is:
  the core's registration refuses every address that the server accepts in an ADDRESS frame, because
  it wants a NUL as the last of the 69 bytes, where the server wants the last hexadecimal digit.
\<close>

theorem address_refused_by_core:
  assumes "address_valid p" and "length p = 77"
  shows "stn_stratum_register_identity (Some s) (Some (bytes_at 8 69 p)) = (Some s, STN_STRATUM_STRUCTURE)"
proof -
  have "\<forall>i \<in> {13..<77}. hex_lower (p ! i)"
    using assms(1) unfolding address_valid_def list_all_upt by simp
  then have "hex_lower (p ! 76)" by simp
  then have "bytes_at 8 69 p ! 68 \<noteq> 0" using assms(2) by (auto simp: hex_lower_def)
  then show ?thesis by (simp add: stn_stratum_register_identity_def)
qed

theorem address_refused_by_core_witness:
  "snd (stn_stratum_register_identity (Some (stn_stratum_session_init 1))
      (Some (bytes_at 8 69 sample_address_frame))) = STN_STRATUM_STRUCTURE"
  by (simp add: address_refused_by_core [OF sample_address_frame])

end
