(* ===== verification/Server_Props.thy ===== *)
theory Server_Props
  imports Server_Life Chain_Adapter Sha_Eval
begin

text \<open>
  What the server promises to miners and to the Chain: safety of every reachable state, the
  verdict on a submission, the bytes that go to the Chain and to the miners, the life of the work,
  failover, and the reported hash rate.
\<close>

section \<open>Starting and stopping\<close>

lemma listeners_open_same:
  assumes "listeners_open e1 e2 s = (ok, t)"
  shows "srv_ok s \<Longrightarrow> srv_ok t"
  using assms
  by (auto simp: listeners_open_def Let_def split: prod.splits if_splits elim!: srv_ok_same)

text \<open>A start that succeeds selects the first Chain server and opens the listeners.\<close>

lemma server_start_parts:
  assumes "server_start log_ok loaded e1 e2 tel (stn_stratum_server_init tops u rmem mem pool solo) = (True, s)"
  obtains cfg c ok where "cfg \<noteq> []" "listeners_open e1 e2 c = (ok, s)"
    "chain_transport_select ((stn_stratum_server_init tops u rmem mem pool solo)
       \<lparr>chain_config := cfg, active_chain_server := 0\<rparr>) 0 = (True, c)"
proof -
  let ?i = "stn_stratum_server_init tops u rmem mem pool solo"
  from assms obtain cfg where cfg: "loaded = Some cfg" "cfg \<noteq> []"
    by (auto simp: server_start_def Let_def split: if_splits option.splits)
  define b where "b = ?i\<lparr>chain_config := cfg, active_chain_server := 0\<rparr>"
  obtain c where c: "chain_transport_select b 0 = (True, c)"
    using cfg by (auto simp: chain_transport_select_def b_def Let_def)
  moreover obtain ok where "listeners_open e1 e2 c = (ok, s)"
    using assms cfg c by (auto simp: server_start_def Let_def b_def split: if_splits prod.splits)
  ultimately show ?thesis using that cfg(2) by (auto simp: b_def)
qed

lemma server_start_ok:
  assumes "server_start log_ok loaded e1 e2 tel (stn_stratum_server_init tops u rmem mem pool solo) = (True, s)"
  shows "srv_ok s"
proof -
  from server_start_parts [OF assms] obtain cfg c ok where parts: "cfg \<noteq> []" "listeners_open e1 e2 c = (ok, s)"
    "chain_transport_select ((stn_stratum_server_init tops u rmem mem pool solo)
       \<lparr>chain_config := cfg, active_chain_server := 0\<rparr>) 0 = (True, c)" by blast
  have "srv_ok c"
    using parts(1,3)
    by (auto simp: chain_transport_select_def Let_def stn_stratum_server_init_def clear_work_def
        clear_client_jobs_def srv_ok_def work_ok_def chain_ok_def stn_rpc_client_init_def)
  then show ?thesis using parts(2) listeners_open_same by blast
qed

lemma server_start_empty:
  assumes "server_start log_ok loaded e1 e2 tel (stn_stratum_server_init tops u rmem mem pool solo) = (True, s)"
  shows "clients s = [] \<and> released s = []"
proof -
  from server_start_parts [OF assms] obtain cfg c ok where parts: "cfg \<noteq> []" "listeners_open e1 e2 c = (ok, s)"
    "chain_transport_select ((stn_stratum_server_init tops u rmem mem pool solo)
       \<lparr>chain_config := cfg, active_chain_server := 0\<rparr>) 0 = (True, c)" by blast
  have "clients c = [] \<and> released c = []"
    using parts(1,3) by (auto simp: chain_transport_select_def Let_def stn_stratum_server_init_def clear_work_def
        clear_client_jobs_def)
  then show ?thesis using parts(2) by (auto simp: listeners_open_def Let_def split: prod.splits if_splits)
qed

text \<open>A RESULT frame, byte for byte.\<close>

lemma result_frame_layout:
  "result_frame code = STN_MINER_MAGIC @ [STN_MINER_VERSION, STN_MINER_RESULT, 0, 0] @ be_bytes 4 (submit_result_code code)"
proof -
  have "replicate 12 (0 :: byte) = [0, 0, 0, 0, 0, 0, 0, 0] @ replicate 4 0" by (simp add: numeral_eq_Suc)
  then have start: "(blit 0 STN_MINER_MAGIC (replicate 12 0))[4 := STN_MINER_VERSION, 5 := STN_MINER_RESULT] =
      (STN_MINER_MAGIC @ [STN_MINER_VERSION, STN_MINER_RESULT, 0, 0]) @ replicate 4 0"
    by (simp add: blit_def STN_MINER_MAGIC_def)
  then show ?thesis
    unfolding result_frame_def Let_def start
    by (subst write32be_blit, simp add: STN_MINER_MAGIC_def, subst blit_fill)
      (simp_all add: STN_MINER_MAGIC_def)
qed

text \<open>
  C4. In every state the started server can reach, whatever the miners, the Chain, the
  allocator and the sockets do, the invariant holds: no freed client was ever read, no loop ran past
  its bound, client identities are distinct and counted right, a job is held only by a registered
  client while there is work, a hash rate only with a job, and the work is a complete Chain template
  whose base and work id are the active ones.
\<close>

theorem server_safe:
  assumes "server_start log_ok loaded e1 e2 tel (stn_stratum_server_init tops u rmem mem pool solo) = (True, s0)"
    and "reachable s0 s"
  shows "srv_ok s"
  by (rule reachable_ok [OF assms(2) server_start_ok [OF assms(1)]])

theorem server_safe_witness:
  "\<exists>s. server_start True (Some sample_config) sample_open sample_open True
      (stn_stratum_server_init (sample_ops None) () [] [] [] []) = (True, s) \<and> srv_ok (server_tick s)"
proof -
  let ?i = "stn_stratum_server_init (sample_ops None) () [] [] [] []"
  let ?r = "server_start True (Some sample_config) sample_open sample_open True ?i"
  have "fst ?r \<and> running (snd ?r)"
    by (simp add: server_start_def Let_def sample_config_def chain_transport_select_def active_chain_def
        listeners_open_def stn_mining_listener_open_def stn_mining_listener_init_def sample_open_def
        clear_work_def clear_client_jobs_def stn_stratum_server_init_def)
  then have run: "?r = (True, snd ?r)" "running (snd ?r)"
    by (metis prod.collapse, blast)
  have "reachable (snd ?r) (server_tick (snd ?r))"
    by (rule reachable.step [OF reachable.start Tick [OF run(2)]])
  from server_safe [OF run(1) this] run(1) show ?thesis by blast
qed

lemma remove_all_ok: "srv_ok s \<Longrightarrow> length (clients s) \<le> n \<Longrightarrow> srv_ok (remove_all n s) \<and> clients (remove_all n s) = []"
proof (induction n arbitrary: s)
  case (Suc n)
  show ?case
  proof (cases "clients s")
    case Nil
    then show ?thesis using Suc.prems by simp
  next
    case (Cons c cs)
    have "length (clients (client_remove s (sess_id c))) \<le> n"
      using Suc.prems Cons by (simp add: clients_remove)
    then show ?thesis using Suc.IH [OF srv_ok_remove [OF Suc.prems(1)]] Cons by simp
  qed
qed simp

text \<open>
  Closing the server releases every client, closes both listeners,
  forgets the work and the Chain configuration, and reads nothing that was freed.
\<close>

theorem server_close_releases:
  assumes "srv_ok s"
  shows "clients (stn_stratum_server_close s) = [] \<and> \<not> fault (stn_stratum_server_close s) \<and>
    ls_socket (pool_listener (stn_stratum_server_close s)) = STN_INVALID_SOCKET \<and>
    ls_socket (solo_listener (stn_stratum_server_close s)) = STN_INVALID_SOCKET \<and>
    \<not> have_work (stn_stratum_server_close s) \<and> chain_config (stn_stratum_server_close s) = []"
proof -
  let ?t = "remove_all (length (clients s)) s"
  have "srv_ok ?t" "clients ?t = []" using remove_all_ok [OF assms] by auto
  then show ?thesis
    by (auto simp: stn_stratum_server_close_def Let_def listeners_close_def stn_mining_listener_close_def
        clear_work_def clear_client_jobs_def srv_ok_def split: prod.splits if_splits)
qed

theorem server_close_releases_witness:
  "clients (stn_stratum_server_close (sample_server None)) = []"
  using server_close_releases [OF sample_server_ok [of "sample_ops None" "()"]] by blast

section \<open>The verdict on a submission\<close>

text \<open>The SUBMIT frame of a client: its header, its job and its nonce.\<close>

definition submit_frame :: "bytes \<Rightarrow> bool" where
  "submit_frame p \<longleftrightarrow> take 8 p = STN_MINER_MAGIC @ [STN_MINER_VERSION, STN_MINER_SUBMIT, 0, 0]"

lemma submit_frame_iff:
  assumes "8 \<le> length p"
  shows "submit_frame p \<longleftrightarrow> mem_eq p STN_MINER_MAGIC 4 \<and> p ! 4 = STN_MINER_VERSION \<and>
    p ! 5 = STN_MINER_SUBMIT \<and> p ! 6 = 0 \<and> p ! 7 = 0"
proof -
  have "take 8 p = take 4 p @ [p ! 4, p ! 5, p ! 6, p ! 7]"
    using assms by (intro nth_equalityI) (auto simp: nth_append nth_Cons' less_Suc_eq numeral_eq_Suc)
  then show ?thesis
    using assms by (simp add: submit_frame_def mem_eq_def STN_MINER_MAGIC_def)
qed

lemma submission_verdict_aux:
  assumes "srv_ok s" "client_of s cid = Some c" "address_registered c" "submit_frame (rx c)"
  shows "process_submission s cid =
    (let template = active_template s;
         nonce = read64be (rx c) 40;
         chain = be_nat (bytes_at 188 32 template);
         digest = be_nat (pow_digest (drop 68 template) nonce)
     in if \<not> have_work s \<or> bytes_at 8 32 (rx c) \<noteq> active_job_id s
        then client_send_result s cid STN_RPC_CLIENT_STALE
        else if chain = 0 \<or> 2 ^ 255 \<le> chain then client_send_result s cid STN_RPC_CLIENT_INVALID
        else if min (2 ^ 255 - 1) (10 * chain) < digest then client_send_result s cid STN_RPC_CLIENT_REJECTED
        else if digest \<le> chain then submit_work_result s cid c nonce
        else submit_share_result s cid c nonce)"
proof -
  have rx: "length (rx c) = 77"
    using srv_ok_client [OF assms(1,2)] by (simp add: sess_ok_def)
  then have hdr: "mem_eq (rx c) STN_MINER_MAGIC 4 \<and> rx c ! 4 = STN_MINER_VERSION \<and>
      rx c ! 5 = STN_MINER_SUBMIT \<and> rx c ! 6 = 0 \<and> rx c ! 7 = 0"
    using assms(4) submit_frame_iff [of "rx c"] by simp
  have job: "mem_eq (drop 8 (rx c)) (active_job_id s) 32 \<longleftrightarrow> bytes_at 8 32 (rx c) = active_job_id s"
    using assms(1) by (auto simp: srv_ok_def work_ok_def mem_eq_def bytes_at_def)
  show ?thesis
  proof (cases "have_work s \<and> bytes_at 8 32 (rx c) = active_job_id s")
    case False
    then show ?thesis
      using hdr assms(2,3) job by (auto simp: process_submission_def Let_def)
  next
    case True
    let ?t = "active_template s"
    have work: "236 \<le> active_template_length s" "active_template_length s \<le> length ?t"
      "be_nat (bytes_at 64 4 ?t) = active_template_length s - 68"
      using assms(1) True by (auto simp: srv_ok_def work_ok_def)
    then have len: "unat (read32be ?t 64) = active_template_length s - 68"
      by (simp add: srv32.get_value)
    have tlen: "length (bytes_at 188 32 ?t) = 32" using work by simp
    note share = server_share_target_equiv_aux [OF tlen]
    have verdict: "process_submission s cid =
        (case server_share_target_from_chain (bytes_at 188 32 ?t) of
           None \<Rightarrow> client_send_result s cid STN_RPC_CLIENT_INVALID
         | Some share_target \<Rightarrow>
           (case fst (stn_share_classify (Some (drop 68 ?t)) (active_template_length s - 68)
                        (read64be (rx c) 40) (Some share_target) (Some (bytes_at 188 32 ?t))) of
              STN_SHARE_INVALID \<Rightarrow> client_send_result s cid STN_RPC_CLIENT_REJECTED
            | STN_SHARE_QUALIFYING \<Rightarrow> submit_share_result s cid c (read64be (rx c) 40)
            | STN_SHARE_BLOCK \<Rightarrow> submit_work_result s cid c (read64be (rx c) 40)))"
    proof -
      have guards: "\<not> active_template_length s < 68" "\<not> active_template_length s - 68 < 168"
        using work(1) by simp_all
      show ?thesis
        by (simp add: process_submission_def Let_def assms(2,3) hdr job True len guards) (simp only: len)
    qed
    show ?thesis
    proof (cases "0 < be_nat (bytes_at 188 32 ?t) \<and> be_nat (bytes_at 188 32 ?t) < 2 ^ 255")
      case False
      then show ?thesis unfolding verdict share Let_def using True by auto
    next
      case target: True
      let ?st = "job_share_target_from_chain (bytes_at 188 32 ?t)"
      have st: "be_nat ?st = min (2 ^ 255 - 1) (10 * be_nat (bytes_at 188 32 ?t))" "length ?st = 32"
        using job_share_target_aux [OF tlen] by auto
      have cl: "stn_share_classify (Some (drop 68 ?t)) (active_template_length s - 68) (read64be (rx c) 40)
          (Some ?st) (Some (bytes_at 188 32 ?t)) =
        (let h = pow_digest (drop 68 ?t) (read64be (rx c) 40) in
         if be_nat ?st < be_nat h then (STN_SHARE_INVALID, None)
         else if be_nat h \<le> be_nat (bytes_at 188 32 ?t) then (STN_SHARE_BLOCK, Some h)
         else (STN_SHARE_QUALIFYING, Some h))"
        using work st(2) tlen by (intro share_classify_aux) simp_all
      have "server_share_target_from_chain (bytes_at 188 32 ?t) = Some ?st"
        unfolding share using target by simp
      then show ?thesis
        unfolding verdict using target True by (simp add: cl st(1) Let_def)
    qed
  qed
qed

text \<open>
  C1. A well-formed SUBMIT from a registered client is judged by numbers alone:
  stale when there is no work or it names another work id; refused as invalid when the Chain target
  is 0 or has its top bit set; rejected when the proof-of-work digest of the active block under the
  nonce exceeds ten times the Chain target (capped at \<open>2 ^ 255 - 1\<close>); forwarded to the Chain as a
  block when the digest is within the Chain target, and as a share otherwise.
\<close>

theorem submission_verdict:
  assumes "srv_ok s" "client_of s cid = Some c" "address_registered c" "submit_frame (rx c)"
  shows "process_submission s cid =
    (let template = active_template s;
         nonce = read64be (rx c) 40;
         chain = be_nat (bytes_at 188 32 template);
         digest = be_nat (pow_digest (drop 68 template) nonce)
     in if \<not> have_work s \<or> bytes_at 8 32 (rx c) \<noteq> active_job_id s
        then client_send_result s cid STN_RPC_CLIENT_STALE
        else if chain = 0 \<or> 2 ^ 255 \<le> chain then client_send_result s cid STN_RPC_CLIENT_INVALID
        else if min (2 ^ 255 - 1) (10 * chain) < digest then client_send_result s cid STN_RPC_CLIENT_REJECTED
        else if digest \<le> chain then submit_work_result s cid c nonce
        else submit_share_result s cid c nonce)"
  by (rule submission_verdict_aux [OF assms])

lemma sample_submit_frame: "submit_frame (sample_submit jid nonce @ q)"
  by (simp add: submit_frame_def sample_submit_def STN_MINER_MAGIC_def)

lemma sample_submit_fields:
  "length jid = 32 \<Longrightarrow> bytes_at 8 32 (sample_submit jid nonce) = jid"
  "length jid = 32 \<Longrightarrow> read64be (sample_submit jid nonce) 40 = nonce"
proof -
  assume jid: "length jid = 32"
  then show "bytes_at 8 32 (sample_submit jid nonce) = jid"
    by (simp add: sample_submit_def STN_MINER_MAGIC_def bytes_at_def)
  have "bytes_at 40 8 (sample_submit jid nonce) = be_bytes 8 nonce"
    using jid by (simp add: sample_submit_def STN_MINER_MAGIC_def bytes_at_def)
  moreover have lt: "unat nonce < 2 ^ 64" using unsigned_less [of nonce] by simp
  ultimately show "read64be (sample_submit jid nonce) 40 = nonce"
    using jid lt
    by (simp add: word_unat_eq_iff srv64.get_value length_sample_submit be_nat_be_bytes)
qed

lemma example_template_block: "drop 68 example_template = example_block"
  by (simp add: example_template_def)

lemma sample_targets:
  "be_nat (bytes_at 188 32 example_template) = be_nat (0x0c # replicate 31 0xff)"
  "be_nat (pow_digest example_block 2) \<le> be_nat (0x0c # replicate 31 0xff)"
  "be_nat (0x0c # replicate 31 0xff) < 2 ^ 255" "0 < be_nat (0x0c # replicate 31 0xff)"
  by (simp_all add: example_template_fields example_digest_2 be_nat_replicate_ff)

lemma sample_verdict:
  defines "t \<equiv> be_nat (bytes_at 188 32 example_template)" and "d \<equiv> be_nat (pow_digest example_block 2)"
  shows "0 < t" "\<not> 2 ^ 255 \<le> t" "d \<le> t" "\<not> min (2 ^ 255 - 1) (10 * t) < d"
proof -
  show t: "0 < t" "\<not> 2 ^ 255 \<le> t" and d: "d \<le> t"
    using sample_targets(2-4) by (simp_all only: t_def d_def sample_targets(1) not_le)
  show "\<not> min (2 ^ 255 - 1) (10 * t) < d" using t d by linarith
qed

theorem submission_verdict_witness:
  "process_submission (sample_server None) 0 = submit_work_result (sample_server None) 0 sample_client 2"
  using submission_verdict [OF sample_server_ok sample_server_fields(2), of "sample_ops None" "()"] sample_submit_frame [of _ _ "[]"]
    sample_verdict
  by (simp add: sample_submit_fields example_template_block Let_def)

end
