(* ===== verification/Server_Parts.thy ===== *)
theory Server_Parts
  imports Server_Inv "HOL-Library.Multiset"
begin

text \<open>
  The main loop and the signal handler as sequences of small changes, whatever the state is: what every such change
  keeps, the loop keeps. The locale \<open>part_property\<close> carries a property from the updates of the list of clients to all
  of them; it is interpreted for the configuration with the transport, and for the account of the descriptors.
\<close>

section \<open>The loop in its parts\<close>

text \<open>
  What the loop and the signal handler are made of, one change at a time. The flag is \<open>True\<close> for one part only: a poll
  whose template request is answered OK.
\<close>

definition poll_answered :: "'u server \<Rightarrow> bool" where
  "poll_answered s \<longleftrightarrow>
     fst (snd (stn_rpc_client_mining_template (chain_rpc s) STN_RPC_CLIENT_MAX_PAYLOAD)) = STN_RPC_CLIENT_OK"

inductive server_part :: "bool \<Rightarrow> 'u server \<Rightarrow> 'u server \<Rightarrow> bool" where
  Part_Accept: "server_part False s (accept_clients s)"
| Part_Read: "client_of s cid = Some c \<Longrightarrow> rx_fill want c = (r, d) \<Longrightarrow> server_part False s (upd_client cid d s)"
| Part_Frame: "server_part False s (process_frame s cid ty)"
| Part_Next: "client_of s cid = Some c \<Longrightarrow> server_part False s (upd_client cid (c\<lparr>rx_used := 0\<rparr>) s)"
| Part_Remove: "server_part False s (client_remove s cid)"
| Part_Offer: "server_part False s (send_pending_job s cid)"
| Part_Poll: "server_part (poll_answered s) s (refresh_work s)"
| Part_Count: "server_part False s (s\<lparr>loop_count := n\<rparr>)"
| Part_Stop: "server_part False s (stn_stratum_server_stop s)"
| Part_Fault: "server_part False s (s\<lparr>fault := True\<rparr>)"

abbreviation quiet_run :: "'u server \<Rightarrow> 'u server \<Rightarrow> bool" where
  "quiet_run \<equiv> (server_part False)\<^sup>*\<^sup>*"

lemma quiet_part: "server_part False s t \<Longrightarrow> quiet_run s t"
  by (rule r_into_rtranclp)

lemma quiet_after: "quiet_run s t \<Longrightarrow> server_part False t u \<Longrightarrow> quiet_run s u"
  by (rule rtranclp.rtrancl_into_rtrancl)


lemma quiet_walk:
  assumes "\<And>s cid. quiet_run s (body s cid)"
  shows "quiet_run s (walk_clients body n cur s)"
proof (induction n arbitrary: cur s)
  case 0
  show ?case by (cases cur) (auto intro: quiet_part Part_Fault)
next
  case (Suc n)
  show ?case
    using Suc.IH assms rtranclp_trans [OF assms Suc.IH]
    by (cases cur) (auto simp: Let_def quiet_part Part_Fault split: option.split)
qed

lemma quiet_for_clients: "(\<And>s cid. quiet_run s (body s cid)) \<Longrightarrow> quiet_run s (for_clients body s)"
  unfolding for_clients_def by (rule quiet_walk)

lemma rx_fill_id: "rx_fill want c = (r, d) \<Longrightarrow> sess_id d = sess_id c"
proof (induction want c rule: rx_fill.induct)
  case (1 want c)
  obtain x es where x: "sock_recv (want - rx_used c) (sess_in c) = (x, es)" by fastforce
  from "1.prems" show ?case
    unfolding rx_fill.simps [of want c] x
    using "1.IH" [OF _ x [symmetric] refl] by (cases x) (auto simp: Let_def split: if_splits)
qed

lemma rx_fill_socket: "rx_fill want c = (r, d) \<Longrightarrow> sess_socket d = sess_socket c"
proof (induction want c rule: rx_fill.induct)
  case (1 want c)
  obtain x es where x: "sock_recv (want - rx_used c) (sess_in c) = (x, es)" by fastforce
  from "1.prems" show ?case
    unfolding rx_fill.simps [of want c] x
    using "1.IH" [OF _ x [symmetric] refl] by (cases x) (auto simp: Let_def split: if_splits)
qed

lemma quiet_pass: "quiet_run s (snd (service_pass s cid))"
proof (cases "client_of s cid")
  case None
  then show ?thesis by (simp add: service_pass_def quiet_part Part_Fault)
next
  case (Some c)
  obtain r a where a: "rx_fill 8 c = (r, a)" by fastforce
  let ?a = "upd_client cid a s"
  have id: "sess_id a = cid" using rx_fill_id [OF a] client_of_Some [OF Some] by simp
  have s1: "quiet_run s ?a" using Some a by (intro quiet_part Part_Read)
  have gone: "quiet_run s (client_remove t cid)" if "quiet_run s t" for t
    using that by (rule quiet_after) (rule Part_Remove)
  show ?thesis
  proof (cases "r = Filled \<and> frame_header_ok (rx a) \<and> frame_size_of (rx a ! 5) \<noteq> None")
    case False
    then show ?thesis
      using s1 gone [OF s1] by (cases r) (auto simp: service_pass_def Some a Let_def)
  next
    case True
    then obtain size where size: "frame_size_of (rx a ! 5) = Some size" by auto
    obtain r2 b where b: "rx_fill size a = (r2, b)" by fastforce
    let ?b = "upd_client cid b ?a"
    let ?t = "process_frame ?b cid (rx b ! 5)"
    have "client_of ?a cid = Some a" using Some id client_of_None [of s cid] by (simp add: client_of_upd)
    then have s2: "quiet_run s ?b" using s1 b by (intro quiet_after [OF s1] Part_Read)
    then have s3: "quiet_run s ?t" by (rule quiet_after) (rule Part_Frame)
    then have "quiet_run s (upd_client cid (d\<lparr>rx_used := 0\<rparr>) ?t)" if "client_of ?t cid = Some d" for d
      using that by (intro quiet_after [OF s3] Part_Next)
    then show ?thesis
      using True s2 s3 gone [OF s2]
      by (cases r2) (auto simp: service_pass_def Some a b size Let_def split: option.split)
  qed
qed

lemma quiet_loop: "quiet_run s (service_loop n s cid)"
proof (induction n arbitrary: s)
  case (Suc n)
  obtain again t where p: "service_pass s cid = (again, t)" by fastforce
  then have "quiet_run s t" using quiet_pass [of s cid] by simp
  then show ?case using Suc.IH [of t] p by (auto intro: rtranclp_trans)
qed (simp add: quiet_part Part_Fault)

lemma quiet_service: "quiet_run s (service_clients s)"
  unfolding service_clients_def
proof (rule quiet_for_clients)
  show "quiet_run s (service_client s cid)" for s :: "'a server" and cid
    using quiet_loop
    by (auto simp: service_client_def quiet_part Part_Fault simp del: service_loop.simps split: option.split)
qed

lemma quiet_offers: "quiet_run s (send_pending_jobs s)"
  unfolding send_pending_jobs_def by (intro quiet_for_clients quiet_part Part_Offer)

text \<open>An iteration of the loop, or the signal handler: quiet parts and at most one poll.\<close>

lemma step_in_parts:
  assumes "server_step v w"
  shows "\<exists>x y. quiet_run v x \<and> (y = x \<or> y = refresh_work x) \<and> quiet_run y w"
  using assms
proof cases
  case Tick
  let ?x = "service_clients (accept_clients v)"
  let ?y = "if loop_count ?x mod STN_STRATUM_CHAIN_POLL_TICKS = 0 then refresh_work ?x else ?x"
  have "quiet_run v (accept_clients v)" by (intro quiet_part Part_Accept)
  then have "quiet_run v ?x" using quiet_service by (rule rtranclp_trans)
  moreover have "?y = ?x \<or> ?y = refresh_work ?x" by simp
  moreover have "quiet_run ?y w"
    unfolding Tick(1) server_tick_def Let_def using quiet_offers Part_Count by (rule quiet_after)
  ultimately show ?thesis by blast
next
  case Stop
  then show ?thesis by (intro exI [of _ v]) (simp add: quiet_part Part_Stop)
qed

text \<open>Without a poll that is answered, work does not come back.\<close>


lemma accept_from_kept:
  assumes "\<And>s c. f (link_client s c) = f s" "\<And>s m fds. f (s\<lparr>srv_mem := m, closed_fds := fds\<rparr>) = f s"
  shows "f (snd (accept_from_listener l es s)) = f s"
proof (induction l es s rule: accept_from_listener.induct)
  case (1 l es s)
  obtain r c es' mem closed where acc: "stn_session_acceptor_accept l es (srv_mem s) (next_cid s) =
      (r, c, es', mem, closed)" by (rule prod_cases5)
  note unfold = accept_from_listener.simps [of l es s]
  show ?case
  proof (cases c)
    case (Some d)
    then show ?thesis
      using "1.IH" [OF acc [symmetric] refl refl refl refl Some] by (simp add: unfold acc Let_def assms)
  qed (simp add: unfold acc assms(2))
qed

lemma accept_kept:
  assumes "\<And>s c. f (link_client s c) = f s" "\<And>s m fds. f (s\<lparr>srv_mem := m, closed_fds := fds\<rparr>) = f s"
    and "\<And>s es. f (s\<lparr>pool_accepts := es\<rparr>) = f s" "\<And>s es. f (s\<lparr>solo_accepts := es\<rparr>) = f s"
  shows "f (accept_clients s) = f s"
proof -
  have kept: "f t = f s" if "accept_from_listener l es s = (es', t)" for l es s es' t
    using accept_from_kept [of f l es s, OF assms(1,2)] that by simp
  show ?thesis by (auto simp: accept_clients_def Let_def assms(3,4) dest!: kept split: prod.split)
qed

lemma result_keeps_work: "have_work (client_send_result s cid code) = have_work s"
  by (simp add: client_send_result_def split: option.split prod.split)

lemma accept_keeps_work: "have_work (accept_clients s) = have_work s"
  by (rule accept_kept) (simp_all add: link_client_def)

lemma no_work_next: "\<not> have_work s \<Longrightarrow> \<not> have_work (snd (chain_transport_next s))"
  by (simp add: chain_transport_next_def chain_transport_select_def clear_work_def clear_client_jobs_def Let_def)

lemma no_work_frame:
  assumes "\<not> have_work s"
  shows "\<not> have_work (process_address s cid)" "\<not> have_work (process_submission s cid)"
    "\<not> have_work (process_hash_progress s cid)"
proof -
  show "\<not> have_work (process_address s cid)"
    using assms by (simp add: process_address_def Let_def split: option.split)
  show "\<not> have_work (process_submission s cid)"
    using assms by (simp add: process_submission_def result_keeps_work Let_def split: option.split)
  show "\<not> have_work (process_hash_progress s cid)"
    using assms by (simp add: process_hash_progress_def Let_def split: option.split)
qed

lemma no_work_poll:
  assumes "\<not> have_work s" "\<not> poll_answered s"
  shows "\<not> have_work (refresh_work s)"
proof -
  obtain rpc code p where call: "stn_rpc_client_mining_template (chain_rpc s) STN_RPC_CLIENT_MAX_PAYLOAD =
      (rpc, code, p)" by (rule prod_cases3)
  then have "code \<noteq> STN_RPC_CLIENT_OK" using assms(2) by (simp add: poll_answered_def)
  then show ?thesis
    using assms(1) by (simp add: refresh_work_def call Let_def clear_work_def clear_client_jobs_def no_work_next)
qed

lemma part_without_work:
  assumes "server_part b s t" "\<not> b" "\<not> have_work s"
  shows "\<not> have_work t"
  using assms
  by cases (auto simp: accept_keeps_work process_frame_def no_work_frame no_work_poll send_pending_job_def
      stn_stratum_server_stop_def split: option.split)

lemma quiet_without_work: "quiet_run s t \<Longrightarrow> \<not> have_work s \<Longrightarrow> \<not> have_work t"
  by (induction rule: rtranclp_induct) (auto dest: part_without_work)


section \<open>What every part keeps\<close>

text \<open>What only accepting, removing a client and starting or closing change.\<close>

definition fixed_part :: "'u server \<Rightarrow> session list \<times> nat \<times> int list \<times> accept_event list \<times> accept_event list \<times>
    listener \<times> listener \<times> 'u transport_ops \<times> config_entry list \<times> bool" where
  "fixed_part s = (clients s, next_cid s, closed_fds s, pool_accepts s, solo_accepts s, pool_listener s, solo_listener s,
     ops s, chain_config s, running s)"

locale part_property =
  fixes K :: "'u server \<Rightarrow> bool"
  assumes same: "K s \<Longrightarrow> fixed_part t = fixed_part s \<Longrightarrow> K t"
    and update: "K s \<Longrightarrow> client_of s cid = Some c \<Longrightarrow> sess_id d = sess_id c \<Longrightarrow> sess_socket d = sess_socket c \<Longrightarrow>
      K (upd_client cid d s)"
    and remove: "K s \<Longrightarrow> K (client_remove s cid)"
    and clear: "K s \<Longrightarrow> K (clear_work s)"
    and accept: "K s \<Longrightarrow> K (accept_clients s)"
    and stop: "K s \<Longrightarrow> K (stn_stratum_server_stop s)"
begin

lemma faulty: "K s \<Longrightarrow> K (s\<lparr>fault := True\<rparr>)"
  by (erule same) (simp add: fixed_part_def)

lemma keeps_result:
  assumes "K s"
  shows "K (client_send_result s cid code)"
proof (cases "client_of s cid")
  case (Some c)
  obtain ok d where d: "sess_send c (result_frame code) = (ok, d)" by fastforce
  have "K (upd_client cid d s)" using assms Some sess_send_simps [OF d] by (intro update)
  then show ?thesis using assms remove by (simp add: client_send_result_def Some d)
qed (simp add: client_send_result_def faulty assms)

lemma keeps_job:
  assumes "K s"
  shows "K (snd (client_send_job s cid))"
proof (cases "have_work s \<and> (\<exists>c. client_of s cid = Some c \<and> sess_socket c \<noteq> STN_INVALID_SOCKET \<and>
    stn_miner_job_build (Some (active_template s)) (active_template_length s) \<noteq> None)")
  case False
  then show ?thesis using assms faulty by (auto simp: client_send_job_def split: option.split)
next
  case True
  then obtain c header n where c: "have_work s" "client_of s cid = Some c" "sess_socket c \<noteq> STN_INVALID_SOCKET"
    "stn_miner_job_build (Some (active_template s)) (active_template_length s) = Some (header, n)" by auto
  obtain ok1 d1 where d1: "sess_send c header = (ok1, d1)" by fastforce
  obtain ok2 d2 where d2: "(if ok1 then sess_send d1 (bytes_at 68 (unat n) (active_template s)) else (False, d1)) = (ok2, d2)"
    by fastforce
  have d: "sess_id d2 = sess_id c" "sess_socket d2 = sess_socket c"
    using d2 sess_send_simps [OF d1] sess_send_simps [of d1 _ ok2 d2] by (auto split: if_splits)
  have "K (upd_client cid d2 s)" using assms c(2) d by (rule update)
  moreover have "K (upd_client cid (d2\<lparr>sent_job_id := active_job_id s, has_job := True\<rparr>) s)"
    using assms c(2) by (rule update) (simp_all add: d)
  ultimately show ?thesis using c remove by (simp add: client_send_job_def d1 d2)
qed

lemma keeps_select: "K s \<Longrightarrow> K (snd (chain_transport_select s i))"
  by (auto simp: chain_transport_select_def Let_def fixed_part_def intro: same [OF clear])

lemma keeps_next: "K s \<Longrightarrow> K (snd (chain_transport_next s))"
  by (simp add: chain_transport_next_def Let_def keeps_select)

lemma keeps_share: "K s \<Longrightarrow> K (submit_share_result s cid c nonce)"
proof -
  assume "K s"
  then have "K (client_send_result (s\<lparr>chain_rpc := rpc\<rparr>) cid code)" for rpc code
    by (intro keeps_result) (erule same, simp add: fixed_part_def)
  then show ?thesis by (simp add: submit_share_result_def Let_def clear split: prod.split)
qed

lemma keeps_work: "K s \<Longrightarrow> K (submit_work_result s cid c nonce)"
proof -
  assume k: "K s"
  have "K (client_send_result (s\<lparr>srv_mem := mem\<rparr>) cid code)" for mem code
    using k by (intro keeps_result) (erule same, simp add: fixed_part_def)
  moreover have "K (client_send_result (s\<lparr>srv_mem := mem, chain_rpc := rpc\<rparr>) cid code)" for mem rpc code
    using k by (intro keeps_result) (erule same, simp add: fixed_part_def)
  ultimately show ?thesis by (simp add: submit_work_result_def Let_def clear keeps_next split: prod.split)
qed

lemma keeps_frame:
  assumes "K s"
  shows "K (process_frame s cid ty)"
proof -
  have "K (process_submission s cid)"
    using assms faulty remove keeps_result keeps_share keeps_work
    by (simp add: process_submission_def Let_def split: option.split stn_share_class.split)
  moreover have "K (process_address s cid)"
    using assms faulty remove
    by (auto simp: process_address_def Let_def split: option.split intro!: update keeps_job)
  moreover have "K (process_hash_progress s cid)"
    using assms faulty remove
    by (auto simp: process_hash_progress_def Let_def split: option.split intro!: update)
  ultimately show ?thesis by (simp add: process_frame_def)
qed

lemma keeps_offer: "K s \<Longrightarrow> K (send_pending_job s cid)"
  by (simp add: send_pending_job_def faulty keeps_job split: option.split)

text \<open>The loop over the clients, for a body that keeps the property.\<close>

lemma keeps_walk: "(\<And>s cid. K s \<Longrightarrow> K (body s cid)) \<Longrightarrow> K s \<Longrightarrow> K (walk_clients body n cur s)"
  by (induction body n cur s rule: walk_clients.induct) (auto simp: Let_def faulty split: option.split)

lemma keeps_offers: "K s \<Longrightarrow> K (send_pending_jobs s)"
  unfolding send_pending_jobs_def for_clients_def by (intro keeps_walk keeps_offer)

lemma keeps_poll:
  assumes "K s"
  shows "K (refresh_work s)"
proof -
  obtain rpc code p where call: "stn_rpc_client_mining_template (chain_rpc s) STN_RPC_CLIENT_MAX_PAYLOAD =
      (rpc, code, p)" by (rule prod_cases3)
  define t where "t = s\<lparr>chain_rpc := rpc, active_template := store_template p (active_template s),
    chain_poll_count := chain_poll_count s + 1\<rparr>"
  have k: "K (t\<lparr>chain_available := a\<rparr>)" "K (t\<lparr>chain_available := a, active_template_length := n\<rparr>)"
    "K (t\<lparr>chain_available := a, active_template_length := n, active_base := base, active_job_id := job, have_work := w\<rparr>)"
    for a n base job w
    by (rule same [OF assms], simp add: fixed_part_def t_def)+
  note parts = clear [OF k(1)] keeps_next [OF clear [OF k(1)]] k(1,2) keeps_offers [OF k(3)]
  have "refresh_work s =
     (if code \<noteq> STN_RPC_CLIENT_OK then
        (if code = STN_RPC_CLIENT_STALE \<or> code = STN_RPC_CLIENT_CAPACITY then clear_work (t\<lparr>chain_available := True\<rparr>)
         else if code = STN_RPC_CLIENT_UNAVAILABLE then t\<lparr>chain_available := True\<rparr>
         else if code = STN_RPC_CLIENT_TRANSPORT then snd (chain_transport_next (clear_work (t\<lparr>chain_available := False\<rparr>)))
         else clear_work (t\<lparr>chain_available := True\<rparr>))
      else if length p < 68 \<or> unat (read32be (active_template t) 64) \<noteq> length p - 68
      then clear_work (t\<lparr>chain_available := False\<rparr>)
      else if \<not> have_work t \<or> \<not> mem_eq (active_base t) (active_template t) 32 \<or>
        \<not> mem_eq (active_job_id t) (drop 32 (active_template t)) 32
      then send_pending_jobs (t\<lparr>chain_available := True, active_template_length := length p,
        active_base := take 32 (active_template t), active_job_id := bytes_at 32 32 (active_template t), have_work := True\<rparr>)
      else t\<lparr>chain_available := True, active_template_length := length p\<rparr>)"
    by (simp add: refresh_work_def call Let_def t_def)
  then show ?thesis using parts by (simp only: split: if_split) simp
qed

lemma keeps_part: "server_part b s t \<Longrightarrow> K s \<Longrightarrow> K t"
proof (induction rule: server_part.induct)
  case (Part_Read s cid c want r d)
  have "sess_socket d = sess_socket c" by (rule rx_fill_socket [OF Part_Read(2)])
  then show ?case using Part_Read rx_fill_id by (intro update) auto
next
  case (Part_Next s cid c)
  then show ?case by (intro update) simp_all
next
  case (Part_Count s n)
  then show ?case by (rule same) (simp add: fixed_part_def)
qed (simp_all add: accept stop keeps_frame remove keeps_offer keeps_poll faulty)

lemma keeps_quiet: "quiet_run s t \<Longrightarrow> K s \<Longrightarrow> K t"
  by (induction rule: rtranclp_induct) (auto intro: keeps_part)

lemma keeps_removal: "K s \<Longrightarrow> K (remove_all n s)"
  by (induction n s rule: remove_all.induct) (auto simp: faulty remove split: list.split)

end

section \<open>The configuration and the transport\<close>

lemma keeps_config: "ops (client_remove s cid) = ops s \<and> chain_config (client_remove s cid) = chain_config s"
  by (simp add: client_remove_def split: option.split prod.split)

interpretation config: part_property "\<lambda>s :: 'a server. ops s = tops \<and> chain_config s = cfg" for tops cfg
proof
  fix s :: "'a server" and cid
  assume k: "ops s = tops \<and> chain_config s = cfg"
  show "ops (client_remove s cid) = tops \<and> chain_config (client_remove s cid) = cfg"
    using k keeps_config by simp
  have "(\<lambda>s. (ops s, chain_config s)) (accept_clients s) = (ops s, chain_config s)"
    by (rule accept_kept) (simp_all add: link_client_def)
  then show "ops (accept_clients s) = tops \<and> chain_config (accept_clients s) = cfg" using k by simp
qed (auto simp: fixed_part_def upd_client_def clear_work_def clear_client_jobs_def stn_stratum_server_stop_def)

text \<open>A server that is told to stop stays so.\<close>

interpretation stopped: part_property "\<lambda>s :: 'a server. \<not> running s"
proof
  show "\<not> running s \<Longrightarrow> \<not> running (accept_clients s)" for s :: "'a server"
    using accept_kept [of running s] by (simp add: link_client_def)
qed (simp_all add: fixed_part_def upd_client_def clear_work_def clear_client_jobs_def stn_stratum_server_stop_def)

section \<open>The account of the descriptors\<close>

text \<open>
  Where the descriptors of the server are: closed, held by a client or a listener, or still to come from
  \<^verbatim>\<open>accept\<close>. A descriptor that is invalid is none.
\<close>

definition socket_fds :: "int \<Rightarrow> int multiset" where
  "socket_fds fd = (if fd = STN_INVALID_SOCKET then {#} else {#fd#})"

definition client_fds :: "session list \<Rightarrow> int multiset" where
  "client_fds cs = sum_list (map socket_fds (map sess_socket cs))"

definition server_fds :: "'u server \<Rightarrow> int multiset" where
  "server_fds s =
     mset (closed_fds s) + client_fds (clients s) +
     socket_fds (ls_socket (pool_listener s)) + socket_fds (ls_socket (solo_listener s)) +
     mset (conn_fds (pool_accepts s)) + mset (conn_fds (solo_accepts s))"

definition ids_ok :: "'u server \<Rightarrow> bool" where
  "ids_ok s \<longleftrightarrow> distinct (ids s) \<and> (\<forall>c \<in> set (clients s). sess_id c < next_cid s)"

definition accounts :: "int multiset \<Rightarrow> 'u server \<Rightarrow> bool" where
  "accounts A s \<longleftrightarrow> ids_ok s \<and> server_fds s = A"

lemma accounts_update:
  assumes "accounts A s" "client_of s cid = Some c" "sess_id d = sess_id c" "sess_socket d = sess_socket c"
  shows "accounts A (upd_client cid d s)"
proof -
  have id: "sess_id c = cid" using client_of_Some [OF assms(2)] by simp
  have "x = c" if "x \<in> set (clients s)" "sess_id x = cid" for x
    using client_of_unique [OF _ that] assms(1,2) by (simp add: accounts_def ids_ok_def)
  then have "map sess_socket (clients (upd_client cid d s)) = map sess_socket (clients s)"
    using assms(4) by (auto simp: upd_client_def)
  then have "client_fds (clients (upd_client cid d s)) = client_fds (clients s)"
    by (simp only: client_fds_def)
  then have "server_fds (upd_client cid d s) = server_fds s" by (simp add: server_fds_def) (simp add: upd_client_def)
  moreover have "ids_ok (upd_client cid d s)"
    using assms(1,3) id by (auto simp: accounts_def ids_ok_def upd_client_def comp_def if_distrib cong: if_cong)
  ultimately show ?thesis using assms(1) by (simp add: accounts_def)
qed

lemma unlink_fds:
  "find (\<lambda>c. sess_id c = cid) cs = Some c \<Longrightarrow> client_fds cs = client_fds (unlink cid cs) + socket_fds (sess_socket c)"
  by (induction cs) (auto simp: client_fds_def split: if_splits)

lemma set_unlink_subset: "set (unlink cid cs) \<subseteq> set cs"
  by (induction cs) auto

lemma accounts_remove: "accounts A s \<Longrightarrow> accounts A (client_remove s cid)"
proof (cases "client_of s cid")
  case (Some c)
  assume A: "accounts A s"
  obtain d closed where d: "stn_session_acceptor_release c = (d, closed)" by fastforce
  then have closed: "mset closed = socket_fds (sess_socket c)"
    by (auto simp: stn_session_acceptor_release_def stn_mining_socket_close_def socket_fds_def split: if_splits)
  let ?t = "client_remove s cid"
  have t: "clients ?t = unlink cid (clients s)" "next_cid ?t = next_cid s" "closed_fds ?t = closed_fds s @ closed"
    "pool_listener ?t = pool_listener s" "solo_listener ?t = solo_listener s"
    "pool_accepts ?t = pool_accepts s" "solo_accepts ?t = solo_accepts s"
    by (simp_all add: client_remove_def Some d)
  have "server_fds ?t = server_fds s"
    using unlink_fds [of cid "clients s" c] Some closed unfolding server_fds_def t client_of_def
    by (simp add: ac_simps)
  moreover have "ids_ok ?t"
    using A ids_remove [of s cid] set_unlink_subset [of cid "clients s"] unfolding accounts_def ids_ok_def t by auto
  ultimately show ?thesis using A by (simp add: accounts_def)
qed (simp add: client_remove_def)

lemma accept_from_fds:
  "ids_ok s \<Longrightarrow> accept_from_listener l es s = (es', t) \<Longrightarrow>
   ids_ok t \<and> mset (closed_fds t) + client_fds (clients t) + mset (conn_fds es') =
     mset (closed_fds s) + client_fds (clients s) + mset (conn_fds es) \<and>
   pool_listener t = pool_listener s \<and> solo_listener t = solo_listener s \<and>
   pool_accepts t = pool_accepts s \<and> solo_accepts t = solo_accepts s"
proof (induction l es s rule: accept_from_listener.induct)
  case (1 l es s)
  obtain r c es1 mem closed where acc: "stn_session_acceptor_accept l es (srv_mem s) (next_cid s) =
      (r, c, es1, mem, closed)" by (rule prod_cases5)
  obtain pre where pre: "es = pre @ es1" "conn_fds pre = closed @ (case c of None \<Rightarrow> [] | Some c \<Rightarrow> [sess_socket c])"
    using acceptor_accounted [OF acc] by (auto simp: accounted_def)
  then have fds: "mset (conn_fds es) = mset closed + mset (case c of None \<Rightarrow> [] | Some c \<Rightarrow> [sess_socket c]) + mset (conn_fds es1)"
    by (simp add: conn_fds_append)
  note unfold = "1.prems"(2) [unfolded accept_from_listener.simps [of l es s], simplified acc prod.case Let_def]
  show ?case
  proof (cases c)
    case None
    then have "es' = es1" "t = s\<lparr>srv_mem := mem, closed_fds := closed_fds s @ closed\<rparr>" using unfold by simp_all
    then show ?thesis using "1.prems"(1) fds None by (simp add: ids_ok_def)
  next
    case (Some d)
    let ?s = "link_client (s\<lparr>srv_mem := mem, closed_fds := closed_fds s @ closed\<rparr>) d"
    have d: "sess_id d = next_cid s" "sess_socket d \<noteq> STN_INVALID_SOCKET"
      using acceptor_session [OF acc] Some by (auto simp: stn_client_session_init_def dest: arg_cong [where f = sess_id])
    have "ids_ok ?s"
      using "1.prems"(1) d(1) by (auto simp: ids_ok_def link_client_def)
    moreover have "accept_from_listener l es1 ?s = (es', t)" using unfold Some by simp
    ultimately have "ids_ok t \<and> mset (closed_fds t) + client_fds (clients t) + mset (conn_fds es') =
        mset (closed_fds ?s) + client_fds (clients ?s) + mset (conn_fds es1) \<and>
      pool_listener t = pool_listener ?s \<and> solo_listener t = solo_listener ?s \<and>
      pool_accepts t = pool_accepts ?s \<and> solo_accepts t = solo_accepts ?s"
      by (rule "1.IH" [OF acc [symmetric] refl refl refl refl Some])
    then show ?thesis using fds Some d(2) by (simp add: link_client_def client_fds_def socket_fds_def)
  qed
qed

lemma accounts_accept: "accounts A s \<Longrightarrow> accounts A (accept_clients s)"
proof -
  assume A: "accounts A s"
  obtain es1 s1 where a: "accept_from_listener (pool_listener s) (pool_accepts s) s = (es1, s1)" by fastforce
  let ?s1 = "s1\<lparr>pool_accepts := es1\<rparr>"
  obtain es2 s2 where b: "accept_from_listener (solo_listener ?s1) (solo_accepts ?s1) ?s1 = (es2, s2)" by fastforce
  have s: "ids_ok s" using A by (simp add: accounts_def)
  note one = accept_from_fds [OF s a]
  then have "ids_ok ?s1" by (simp add: ids_ok_def)
  note two = accept_from_fds [OF this b]
  have "accept_clients s = s2\<lparr>solo_accepts := es2\<rparr>" using b by (simp add: accept_clients_def a Let_def)
  moreover have "ids_ok (s2\<lparr>solo_accepts := es2\<rparr>)" using two by (simp add: ids_ok_def)
  moreover have "server_fds (s2\<lparr>solo_accepts := es2\<rparr>) = server_fds s"
  proof -
    have "mset (closed_fds s2) + client_fds (clients s2) + mset (conn_fds es2) + mset (conn_fds es1) =
        mset (closed_fds s1) + client_fds (clients s1) + mset (conn_fds es1) + mset (conn_fds (solo_accepts s))"
      using one two by (simp add: ac_simps)
    also have "\<dots> = mset (closed_fds s) + client_fds (clients s) + mset (conn_fds (pool_accepts s)) +
        mset (conn_fds (solo_accepts s))"
      using one by simp
    finally show ?thesis using one two by (simp add: server_fds_def ac_simps)
  qed
  ultimately show ?thesis using A by (simp add: accounts_def)
qed

interpretation fds: part_property "accounts A" for A
proof
  fix s :: "'a server" and t cid c d
  show "accounts A s \<Longrightarrow> fixed_part t = fixed_part s \<Longrightarrow> accounts A t"
    by (simp add: accounts_def ids_ok_def server_fds_def fixed_part_def)
  show "accounts A s \<Longrightarrow> client_of s cid = Some c \<Longrightarrow> sess_id d = sess_id c \<Longrightarrow> sess_socket d = sess_socket c \<Longrightarrow>
      accounts A (upd_client cid d s)" by (rule accounts_update)
  show "accounts A s \<Longrightarrow> accounts A (clear_work s)"
    by (auto simp: accounts_def ids_ok_def server_fds_def client_fds_def clear_work_def clear_client_jobs_def comp_def)
  show "accounts A s \<Longrightarrow> accounts A (stn_stratum_server_stop s)"
    by (simp add: accounts_def ids_ok_def server_fds_def stn_stratum_server_stop_def)
qed (rule accounts_remove accounts_accept; assumption)+

end
