(* ===== verification/Server_Chain.thy ===== *)
theory Server_Chain
  imports Server_Props Server_Parts
begin

text \<open>
  What the server sends to the Chain for a submission, what an ACCEPTED answer to a miner means,
  and that an accepted block is not submitted a second time.
\<close>

section \<open>The requests\<close>

lemma share_payload_layout:
  assumes "length jid = 32" "69 \<le> length addr" "236 \<le> length t"
  shows "share_payload jid addr nonce t = jid @ take 69 addr @ be_bytes 8 nonce @ bytes_at 68 168 t"
proof -
  have a: "blit 0 jid (replicate 277 0) = jid @ replicate 245 0"
    using assms(1) by (simp add: blit_def)
  have b: "blit 32 (take 69 addr) (jid @ replicate 245 0) = (jid @ take 69 addr) @ replicate 176 0"
    using assms by (simp add: blit_fill)
  have c: "write64be ((jid @ take 69 addr) @ replicate 176 0) 101 nonce =
      (jid @ take 69 addr @ be_bytes 8 nonce) @ replicate 168 0"
    using assms by (simp add: srv64.put_blit blit_fill del: append_assoc)
  have d: "blit 109 (bytes_at 68 168 t) ((jid @ take 69 addr @ be_bytes 8 nonce) @ replicate 168 0) =
      jid @ take 69 addr @ be_bytes 8 nonce @ bytes_at 68 168 t"
    using assms by (simp add: blit_fill del: append_assoc)
  show ?thesis
    using a b c d assms(1) by (simp add: share_payload_def Let_def)
qed

lemma work_payload_layout:
  assumes "236 \<le> n" "n \<le> length t" "69 \<le> length addr"
  shows "work_payload t n addr nonce = work_with_nonce (take n t) (take 69 addr) nonce"
proof -
  let ?b = "bytes_at 68 (n - 68) t"
  have len: "length (take 68 t) = 68" "length (take 69 addr) = 69" "length ?b = n - 68"
    using assms by simp_all
  define m where "m = n - 68"
  then have n: "n = 68 + m" "168 \<le> m" using assms(1) by simp_all
  have a: "blit 0 (take 68 t) (replicate (n + 69) 0) = take 68 t @ replicate (69 + m) 0"
    using assms n(1) by (simp add: blit_def)
  have b: "blit 68 (take 69 addr) (take 68 t @ replicate (69 + m) 0) =
      (take 68 t @ take 69 addr) @ replicate (n - 68) 0"
    using assms n blit_fill [of "take 68 t" 68 "take 69 addr" "69 + m" 0] by (simp del: append_assoc)
  have c: "blit 137 ?b ((take 68 t @ take 69 addr) @ replicate (n - 68) 0) = (take 68 t @ take 69 addr) @ ?b"
    using assms len by (simp add: blit_fill del: append_assoc)
  have d: "write64be ((take 68 t @ take 69 addr) @ ?b) 289 nonce =
      (take 68 t @ take 69 addr) @ take 152 ?b @ be_bytes 8 nonce @ drop 160 ?b"
    using assms len by (simp add: srv64.put_blit blit_def)
  have e: "take 152 ?b = bytes_at 68 152 (take n t)" "drop 160 ?b = drop 228 (take n t)"
    "take 68 t = take 68 (take n t)"
  proof -
    have "152 \<le> n - 68" "n - 68 - 160 = n - 228" "68 + 160 = (228 :: nat)" "68 \<le> n" using assms(1) by linarith+
    then show "take 152 ?b = bytes_at 68 152 (take n t)" "drop 160 ?b = drop 228 (take n t)"
      "take 68 t = take 68 (take n t)"
      by (simp_all add: bytes_at_def drop_take min_absorb1)
  qed
  have o: "68 + STN_MINER_ADDRESS_LENGTH = 137" "137 + STN_MINER_CHAIN_NONCE_OFFSET = 289" by simp_all
  show ?thesis
    unfolding work_payload_def Let_def work_with_nonce_def e(1) [symmetric] e(2) [symmetric] e(3) [symmetric]
      o a b c d by (simp only: append_assoc)
qed

section \<open>The answer to the miner\<close>

lemma result_frame_accepted: "result_frame code = result_frame STN_RPC_CLIENT_OK \<longleftrightarrow> code = STN_RPC_CLIENT_OK"
proof -
  have lt: "unat (submit_result_code code) < 2 ^ 32"
    using unsigned_less [of "submit_result_code code"] by simp
  have "be_bytes 4 (submit_result_code code) = be_bytes 4 (0 :: u32) \<longleftrightarrow> submit_result_code code = 0"
    by (subst be_nat_inject [symmetric])
      (use lt in \<open>simp_all add: be_nat_be_bytes unat_eq_zero\<close>)
  then show ?thesis
    by (cases code) (simp_all add: result_frame_layout submit_result_code_def)
qed

lemma client_of_clear_eq:
  "client_of (clear_work s) k =
     map_option (\<lambda>c. c\<lparr>has_job := False, hashrate := 0, sent_job_id := replicate 32 0\<rparr>) (client_of s k)"
proof -
  have "find (\<lambda>c. sess_id c = k) (map (\<lambda>c. c\<lparr>has_job := False, hashrate := 0, sent_job_id := replicate 32 0\<rparr>) cs) =
    map_option (\<lambda>c. c\<lparr>has_job := False, hashrate := 0, sent_job_id := replicate 32 0\<rparr>) (find (\<lambda>c. sess_id c = k) cs)"
    for cs by (induction cs) auto
  then show ?thesis by (simp add: client_of_def clear_work_def clear_client_jobs_def)
qed

lemma client_of_next_out:
  assumes "client_of (snd (chain_transport_next s)) k = Some c'"
  shows "\<exists>c. client_of s k = Some c \<and> sess_out c' = sess_out c"
proof -
  have "clients (snd (chain_transport_next s)) = clients s \<or>
      clients (snd (chain_transport_next s)) = clients (clear_work s)"
    by (simp add: chain_transport_next_def chain_transport_select_def Let_def)
  then have "client_of (snd (chain_transport_next s)) k = client_of s k \<or>
      client_of (snd (chain_transport_next s)) k = client_of (clear_work s) k"
    by (auto intro: client_of_cong)
  then show ?thesis using assms by (cases "client_of s k") (auto simp: client_of_clear_eq)
qed

text \<open>After the result was sent the client has it in full, or is gone.\<close>

lemma result_out:
  assumes "srv_ok s" "client_of s cid = Some c" "client_of (client_send_result s cid code) cid = Some c'"
  shows "sess_out c' = sess_out c @ result_frame code"
proof -
  note ok = srv_ok_client [OF assms(1,2)]
  obtain okc d where send: "sess_send c (result_frame code) = (okc, d)" by fastforce
  have sock: "sess_socket c \<noteq> - 1" and id: "sess_id d = cid" and dist: "distinct (ids s)"
    using ok sess_send_simps(2) [OF send] assms(1) by (auto simp: sess_ok_def srv_ok_def)
  have gone: "client_of (client_remove (upd_client cid d s) cid) cid = None"
    using id dist by (intro client_of_remove_same) simp
  show ?thesis
    using assms(3) ok id gone sess_send_fields(2) [OF send]
    by (auto simp: client_send_result_def assms(2) sock send client_of_upd split: if_splits)
qed

text \<open>Exactly one exchange with the Chain: this request, and a success reply to it.\<close>

definition chain_accepted :: "'u server \<Rightarrow> u16 \<Rightarrow> bytes \<Rightarrow> nat \<Rightarrow> bool" where
  "chain_accepted s method payload n \<longleftrightarrow>
     (\<exists>i q u. i \<noteq> 0 \<and> length q = n \<and>
        op_exchange (ops s) (transport_user (chain_rpc s)) (rpc_frame 1 method 0 i payload) (24 + n) =
          (u, Some (rpc_frame 2 method 0 i q)))"

lemma share_accepted:
  assumes ok: "srv_ok s" and c: "client_of s cid = Some c" and work: "have_work s"
    and c': "client_of (submit_share_result s cid c nonce) cid = Some c'"
    and out: "sess_out c' = sess_out c @ result_frame STN_RPC_CLIENT_OK"
  shows "chain_accepted s STN_RPC_CLIENT_SUBMIT_SHARE
    (active_job_id s @ take 69 (address c) @ be_bytes 8 nonce @ bytes_at 68 168 (active_template s)) 32"
proof -
  let ?p = "share_payload (active_job_id s) (address c) nonce (active_template s)"
  have pl: "?p = active_job_id s @ take 69 (address c) @ be_bytes 8 nonce @ bytes_at 68 168 (active_template s)"
    and len: "length ?p = STN_RPC_CLIENT_SHARE_SIZE"
    using ok work srv_ok_client [OF ok c]
    by (auto simp: share_payload_layout srv_ok_def work_ok_def sess_ok_def)
  obtain rpc code q where call: "stn_rpc_client_submit_share (chain_rpc s) (Some ?p) STN_RPC_CLIENT_SHARE_SIZE =
      (rpc, code, q)" by (rule prod_cases3)
  let ?s = "s\<lparr>chain_rpc := rpc\<rparr>"
  have ok': "srv_ok ?s" "client_of ?s cid = Some c"
    using srv_ok_rpc [OF ok rpc_exchange_kept(3) [OF call]] c by (simp_all add: client_of_def)
  have "\<exists>d. client_of (client_send_result ?s cid code) cid = Some d \<and> sess_out d = sess_out c'"
    using c' by (auto simp: submit_share_result_def call Let_def client_of_clear_eq split: if_splits)
  then have "result_frame code = result_frame STN_RPC_CLIENT_OK"
    using result_out [OF ok'] out by fastforce
  then have "code = STN_RPC_CLIENT_OK" by (simp add: result_frame_accepted)
  with call obtain rc where "rpc_call (chain_rpc s) STN_RPC_CLIENT_SUBMIT_SHARE (Some ?p) 277 32 = (rc, STN_RPC_CLIENT_OK, q)"
    by (auto simp: stn_rpc_client_submit_share_def split: prod.splits if_splits)
  from rpc_call_ok_aux [OF this] len obtain ex i where
    "rc_exchange (chain_rpc s) = Some ex" "i \<noteq> 0"
    "ex (transport_user (chain_rpc s)) (rpc_frame 1 STN_RPC_CLIENT_SUBMIT_SHARE 0 i ?p) 56 =
      (transport_user rc, Some (rpc_frame 2 STN_RPC_CLIENT_SUBMIT_SHARE 0 i q))"
    "rpc_payload_ok STN_RPC_CLIENT_SUBMIT_SHARE q" by auto
  then show ?thesis
    using ok unfolding pl by (auto simp: chain_accepted_def srv_ok_def chain_ok_def rpc_payload_ok_def)
qed

lemma work_accepted:
  assumes ok: "srv_ok s" and c: "client_of s cid = Some c" and work: "have_work s"
    and c': "client_of (submit_work_result s cid c nonce) cid = Some c'"
    and out: "sess_out c' = sess_out c @ result_frame STN_RPC_CLIENT_OK"
  shows "chain_accepted s STN_RPC_CLIENT_SUBMIT_WORK
      (work_with_nonce (take (active_template_length s) (active_template s)) (take 69 (address c)) nonce) 80 \<and>
    \<not> have_work (submit_work_result s cid c nonce)"
proof -
  let ?n = "active_template_length s"
  let ?p = "work_payload (active_template s) ?n (address c) nonce"
  have n: "236 \<le> ?n" "?n \<le> length (active_template s)" "69 \<le> length (address c)"
    using ok work srv_ok_client [OF ok c] by (auto simp: srv_ok_def work_ok_def sess_ok_def)
  have pl: "?p = work_with_nonce (take ?n (active_template s)) (take 69 (address c)) nonce"
    and len: "length ?p = ?n + 69"
    using n by (simp_all add: work_payload_layout) (simp add: work_with_nonce_def)
  obtain got mem where mem: "alloc_next (srv_mem s) = (got, mem)" by fastforce
  let ?m = "s\<lparr>srv_mem := mem\<rparr>"
  obtain rpc code q where call: "stn_rpc_client_submit_work (chain_rpc s) (Some ?p) (?n + STN_MINER_ADDRESS_LENGTH) 80 =
      (rpc, code, q)" by (rule prod_cases3)
  let ?s = "?m\<lparr>chain_rpc := rpc\<rparr>"
  have m_ok: "srv_ok ?m" "client_of ?m cid = Some c"
    using srv_ok_mem [OF ok] c by (simp_all add: client_of_def)
  have s_ok: "srv_ok ?s" "client_of ?s cid = Some c"
    using srv_ok_rpc [OF m_ok(1), of rpc] rpc_exchange_kept(2) [OF call] c by (simp_all add: client_of_def)
  have got: got
  proof (rule ccontr)
    assume "\<not> got"
    then have "client_of (client_send_result ?m cid STN_RPC_CLIENT_PROVIDER) cid = Some c'"
      using c' by (simp add: submit_work_result_def mem)
    then have "result_frame STN_RPC_CLIENT_PROVIDER = result_frame STN_RPC_CLIENT_OK"
      using result_out [OF m_ok] out by fastforce
    then show False by (simp add: result_frame_accepted)
  qed
  have "\<exists>d. client_of (client_send_result ?s cid code) cid = Some d \<and> sess_out d = sess_out c'"
    using c' got call
    by (auto simp: submit_work_result_def mem Let_def client_of_clear_eq dest!: client_of_next_out split: if_splits)
  then have "result_frame code = result_frame STN_RPC_CLIENT_OK"
    using result_out [OF s_ok] out by fastforce
  then have code: "code = STN_RPC_CLIENT_OK" by (simp add: result_frame_accepted)
  with call have "rpc_call (chain_rpc s) STN_RPC_CLIENT_SUBMIT_WORK (Some ?p) (?n + 69) 80 = (rpc, STN_RPC_CLIENT_OK, q)"
    using n by (simp add: stn_rpc_client_submit_work_def)
  from rpc_call_ok_aux [OF this] len obtain ex i where
    "rc_exchange (chain_rpc s) = Some ex" "i \<noteq> 0"
    "ex (transport_user (chain_rpc s)) (rpc_frame 1 STN_RPC_CLIENT_SUBMIT_WORK 0 i ?p) 104 =
      (transport_user rpc, Some (rpc_frame 2 STN_RPC_CLIENT_SUBMIT_WORK 0 i q))"
    "rpc_payload_ok STN_RPC_CLIENT_SUBMIT_WORK q" by auto
  then have "chain_accepted s STN_RPC_CLIENT_SUBMIT_WORK ?p 80"
    using ok by (auto simp: chain_accepted_def srv_ok_def chain_ok_def rpc_payload_ok_def)
  moreover have "\<not> have_work (submit_work_result s cid c nonce)"
    using got call code by (simp add: submit_work_result_def mem Let_def)
  ultimately show ?thesis unfolding pl by blast
qed

text \<open>Only those two requests lead to ACCEPTED.\<close>

lemma accepted_aux:
  assumes "srv_ok s" "client_of s cid = Some c" "address_registered c" "submit_frame (rx c)"
    "client_of (process_submission s cid) cid = Some c'"
    "sess_out c' = sess_out c @ result_frame STN_RPC_CLIENT_OK"
  defines "nonce \<equiv> read64be (rx c) 40"
  shows "have_work s \<and> bytes_at 8 32 (rx c) = active_job_id s \<and>
    (if be_nat (pow_digest (drop 68 (active_template s)) nonce) \<le> be_nat (bytes_at 188 32 (active_template s))
     then process_submission s cid = submit_work_result s cid c nonce
     else process_submission s cid = submit_share_result s cid c nonce)"
proof -
  have no: "client_of (client_send_result s cid code) cid = Some c' \<Longrightarrow> code = STN_RPC_CLIENT_OK" for code
    using result_out [OF assms(1,2)] assms(6) result_frame_accepted [of code] by fastforce
  note verdict = submission_verdict_aux [OF assms(1-4), unfolded Let_def, folded nonce_def]
  have refused: False if "process_submission s cid = client_send_result s cid code" "code \<noteq> STN_RPC_CLIENT_OK" for code
    using no [of code] assms(5) that by simp
  have work: "\<not> (\<not> have_work s \<or> bytes_at 8 32 (rx c) \<noteq> active_job_id s)"
  proof
    assume "\<not> have_work s \<or> bytes_at 8 32 (rx c) \<noteq> active_job_id s"
    with verdict have "process_submission s cid = client_send_result s cid STN_RPC_CLIENT_STALE" by (simp only: if_True)
    then show False by (rule refused) simp
  qed
  note verdict = verdict [unfolded if_not_P [OF work]]
  have target: "\<not> (be_nat (bytes_at 188 32 (active_template s)) = 0 \<or> 2 ^ 255 \<le> be_nat (bytes_at 188 32 (active_template s)))"
  proof
    assume "be_nat (bytes_at 188 32 (active_template s)) = 0 \<or> 2 ^ 255 \<le> be_nat (bytes_at 188 32 (active_template s))"
    with verdict have "process_submission s cid = client_send_result s cid STN_RPC_CLIENT_INVALID" by (simp only: if_True)
    then show False by (rule refused) simp
  qed
  note verdict = verdict [unfolded if_not_P [OF target]]
  have share: "\<not> min (2 ^ 255 - 1) (10 * be_nat (bytes_at 188 32 (active_template s))) <
      be_nat (pow_digest (drop 68 (active_template s)) nonce)"
  proof
    assume "min (2 ^ 255 - 1) (10 * be_nat (bytes_at 188 32 (active_template s))) <
      be_nat (pow_digest (drop 68 (active_template s)) nonce)"
    with verdict have "process_submission s cid = client_send_result s cid STN_RPC_CLIENT_REJECTED" by (simp only: if_True)
    then show False by (rule refused) simp
  qed
  show ?thesis using verdict [unfolded if_not_P [OF share]] work by auto
qed

text \<open>
  C2. A miner is told ACCEPTED only when it named the active work, and the
  Chain accepted, in one exchange, exactly this: when the digest is within the Chain target, the
  active template byte for byte with the miner's address inserted before the block and its nonce in
  the block's nonce field; otherwise the share of the active work id, the address, the nonce and the
  block header.
\<close>

theorem accepted_needs_chain:
  assumes "srv_ok s" and "client_of s cid = Some c" and "address_registered c" and "submit_frame (rx c)"
    and "client_of (process_submission s cid) cid = Some c'"
    and "sess_out c' = sess_out c @ result_frame STN_RPC_CLIENT_OK"
  shows "have_work s \<and> bytes_at 8 32 (rx c) = active_job_id s \<and>
    (let nonce = read64be (rx c) 40 in
     if be_nat (pow_digest (drop 68 (active_template s)) nonce) \<le> be_nat (bytes_at 188 32 (active_template s))
     then chain_accepted s STN_RPC_CLIENT_SUBMIT_WORK
       (work_with_nonce (take (active_template_length s) (active_template s)) (take 69 (address c)) nonce) 80
     else chain_accepted s STN_RPC_CLIENT_SUBMIT_SHARE
       (active_job_id s @ take 69 (address c) @ be_bytes 8 nonce @ bytes_at 68 168 (active_template s)) 32)"
  using accepted_aux [OF assms] work_accepted [OF assms(1,2) _ _ assms(6)]
    share_accepted [OF assms(1,2) _ _ assms(6)] assms(5)
  by (auto simp: Let_def split: if_splits)

lemma stale_without_work:
  assumes "\<not> have_work s" "client_of s k = Some d" "address_registered d" "submit_frame (rx d)"
  shows "process_submission s k = client_send_result s k STN_RPC_CLIENT_STALE"
proof -
  have "length (take 8 (rx d)) = 8" using assms(4) by (simp only: submit_frame_def) (simp add: STN_MINER_MAGIC_def)
  then have "8 \<le> length (rx d)" by simp
  from submit_frame_iff [OF this] show ?thesis using assms by (simp add: process_submission_def Let_def)
qed

lemma submission_keeps_chain:
  assumes "\<not> have_work s"
  shows "chain_rpc (process_submission s k) = chain_rpc s"
proof -
  have remove: "chain_rpc (client_remove s cid) = chain_rpc s" for s :: "'a server" and cid
    by (simp add: client_remove_def split: option.split prod.split)
  have "chain_rpc (client_send_result s k code) = chain_rpc s" for code
    by (simp add: client_send_result_def remove upd_client_def split: option.split prod.split)
  then show ?thesis using assms remove by (simp add: process_submission_def Let_def split: option.split)
qed

text \<open>
  C3. Once a miner was told that its block is accepted, the server has no work, and has none
  after any sequence of the parts its loop consists of (accepting, receiving, handling a frame of any client, removing,
  offering work, polling, stopping) in which no poll was answered OK. Until then every further submission, of
  this miner or another, of this block or another, is answered STALE and nothing of it reaches the Chain. The parts are
  all of the loop: an iteration, like the signal handler, is a sequence of them with at most one poll in it.
\<close>

theorem block_submitted_once:
  assumes "srv_ok s" and "client_of s cid = Some c" and "address_registered c" and "submit_frame (rx c)"
    and "be_nat (pow_digest (drop 68 (active_template s)) (read64be (rx c) 40)) \<le>
      be_nat (bytes_at 188 32 (active_template s))"
    and "client_of (process_submission s cid) cid = Some c'"
    and "sess_out c' = sess_out c @ result_frame STN_RPC_CLIENT_OK"
    and "(server_part False)\<^sup>*\<^sup>* (process_submission s cid) u"
  shows "\<not> have_work u \<and> chain_rpc (process_submission u k) = chain_rpc u \<and>
    (\<forall>d. client_of u k = Some d \<and> address_registered d \<and> submit_frame (rx d) \<longrightarrow>
       process_submission u k = client_send_result u k STN_RPC_CLIENT_STALE) \<and>
    (server_step v w \<longrightarrow>
       (\<exists>x y. (server_part False)\<^sup>*\<^sup>* v x \<and> (y = x \<or> y = refresh_work x) \<and> (server_part False)\<^sup>*\<^sup>* y w))"
proof -
  have "\<not> have_work (process_submission s cid)"
    using accepted_aux [OF assms(1-4,6,7)] work_accepted [OF assms(1,2) _ _ assms(7)] assms(5,6) by simp
  then have "\<not> have_work u" by (rule quiet_without_work [OF assms(8)])
  then show ?thesis
    using step_in_parts [of v w] by (intro conjI allI impI) (simp_all add: stale_without_work submission_keeps_chain)
qed

text \<open>The Chain of the sample server accepts its block.\<close>

abbreviation sample_accepting :: "unit server" where
  "sample_accepting \<equiv> sample_server (Some (rpc_frame 2 0x2003 0 1 (replicate 80 9)))"

lemma sample_accepted:
  "\<exists>c'. client_of (process_submission sample_accepting 0) 0 = Some c' \<and> address_registered c' \<and>
     sess_out c' = result_frame STN_RPC_CLIENT_OK \<and> submit_frame (rx c')"
proof -
  let ?s = sample_accepting
  let ?p = "work_payload example_template 236 (sample_address @ [0]) 2"
  have verdict: "process_submission ?s 0 = submit_work_result ?s 0 sample_client 2"
    using submission_verdict_aux [OF sample_server_ok sample_server_fields(2), of "sample_ops (Some (rpc_frame 2 0x2003 0 1 (replicate 80 9)))" "()"]
      sample_submit_frame [of _ _ "[]"] sample_verdict
    by (simp add: sample_submit_fields example_template_block Let_def)
  have "stn_rpc_client_submit_work (chain_rpc ?s) (Some ?p) 305 80 =
      ((chain_rpc ?s)\<lparr>next_request_id := 2\<rparr>, STN_RPC_CLIENT_OK, replicate 80 9)"
    by (simp add: stn_rpc_client_submit_work_def rpc_call_def stn_rpc_client_init_def rpc_take_id_def
        sample_ops_def rpc_check_frame rpc_payload_ok_def)
  moreover have "alloc_next (srv_mem ?s) = (True, [])"
    by (simp add: sample_srv_def stn_stratum_server_init_def)
  ultimately show ?thesis
    using sample_submit_frame [of _ _ "[]"]
    by (simp add: verdict submit_work_result_def Let_def client_of_clear_eq client_send_result_def
        client_of_def upd_client_def sess_send_free clear_work_def clear_client_jobs_def)
qed

theorem accepted_needs_chain_witness:
  "chain_accepted sample_accepting STN_RPC_CLIENT_SUBMIT_WORK
     (work_with_nonce example_template sample_address 2) 80"
proof -
  obtain c' where "client_of (process_submission sample_accepting 0) 0 = Some c'"
    "sess_out c' = result_frame STN_RPC_CLIENT_OK" using sample_accepted by blast
  moreover have "length sample_address = 69" by (simp add: sample_address_def stn0_text_def)
  ultimately show ?thesis
    using accepted_needs_chain [OF sample_server_ok sample_server_fields(2)] sample_submit_frame [of _ _ "[]"]
      sample_verdict
    by (simp add: sample_submit_fields example_template_block Let_def)
qed

text \<open>After the block a client is accepted, one is served, and work is offered; then the block is submitted again.\<close>

theorem block_submitted_once_witness:
  "let u = send_pending_job (accept_clients (process_submission sample_accepting 0)) 0
   in \<not> have_work u \<and> chain_rpc (process_submission u 0) = chain_rpc u"
proof -
  obtain c' where c': "client_of (process_submission sample_accepting 0) 0 = Some c'" "address_registered c'"
    "sess_out c' = result_frame STN_RPC_CLIENT_OK" "submit_frame (rx c')" using sample_accepted by blast
  let ?t = "process_submission sample_accepting 0"
  have run: "(server_part False)\<^sup>*\<^sup>* ?t (send_pending_job (accept_clients ?t) 0)"
    by (rule quiet_after [OF quiet_part]) (rule Part_Accept Part_Offer)+
  have frame: "submit_frame (rx sample_client)" "address_registered sample_client"
    "be_nat (pow_digest (drop 68 (active_template sample_accepting)) (read64be (rx sample_client) 40)) \<le>
      be_nat (bytes_at 188 32 (active_template sample_accepting))"
    "sess_out c' = sess_out sample_client @ result_frame STN_RPC_CLIENT_OK"
    using sample_submit_frame [of _ _ "[]"] sample_verdict c'(3)
    by (simp_all add: sample_submit_fields example_template_block)
  note block_submitted_once [OF sample_server_ok sample_server_fields(2) frame(2,1,3) c'(1) frame(4) run,
      of 0 sample_accepting sample_accepting]
  then show ?thesis unfolding Let_def by (elim conjE) (intro conjI)
qed

end
