(* ===== verification/Server_Keeps.thy ===== *)
theory Server_Keeps
  imports Server_Chain
begin

text \<open>
  Properties of the whole server that no operation breaks. The locale \<open>server_property\<close> names the
  few updates of the state that the property can see, and carries it from there through every handler,
  the loops, accepting and the main loop.
\<close>

section \<open>What the server may ask of the Chain\<close>

text \<open>
  A share: the work id, a well-formed address, the nonce and the block header, whose digest under the nonce
  is within ten times the Chain target in the header, capped at \<open>2 ^ 255 - 1\<close>.
\<close>

definition share_request :: "bytes \<Rightarrow> bool" where
  "share_request q \<longleftrightarrow> (\<exists>jid addr nonce header. q = jid @ addr @ be_bytes 8 nonce @ header \<and> length jid = 32 \<and>
     address_ok (addr @ [0]) \<and> length header = STN_MINER_CHAIN_HEADER_SIZE \<and>
     be_nat (pow_digest header nonce) \<le>
       min (2 ^ 255 - 1) (10 * be_nat (bytes_at STN_MINER_CHAIN_TARGET_OFFSET 32 header)))"

text \<open>
  A block: a template with a well-formed address before the block and the nonce in it, whose digest is within the
  Chain target.
\<close>

definition work_request :: "bytes \<Rightarrow> bool" where
  "work_request q \<longleftrightarrow> (\<exists>t addr nonce. q = work_with_nonce t addr nonce \<and> 236 \<le> length t \<and>
     be_nat (bytes_at 64 4 t) = length t - 68 \<and> address_ok (addr @ [0]) \<and>
     be_nat (pow_digest (drop 68 t) nonce) \<le> be_nat (bytes_at (68 + STN_MINER_CHAIN_TARGET_OFFSET) 32 t))"

definition chain_request :: "u16 \<Rightarrow> bytes \<Rightarrow> bool" where
  "chain_request m q \<longleftrightarrow> m = STN_RPC_CLIENT_MINING_TEMPLATE \<and> q = [] \<or>
     m = STN_RPC_CLIENT_SUBMIT_SHARE \<and> share_request q \<or> m = STN_RPC_CLIENT_SUBMIT_WORK \<and> work_request q"

definition sent_payload :: "bytes option \<Rightarrow> nat \<Rightarrow> bytes" where
  "sent_payload payload n = (case payload of None \<Rightarrow> [] | Some q \<Rightarrow> take n q)"

lemma address_text:
  assumes "address_ok a"
  shows "take 69 a @ [0] = a"
proof -
  have a: "length a = 70" "a ! 69 = 0" using assms by (simp_all add: address_ok_def)
  have "take (Suc 69) a = take 69 a @ [a ! 69]" using a(1) by (intro take_Suc_conv_app_nth) simp
  then show ?thesis using a by simp
qed

lemma pow_digest_cong: "take 168 a = take 168 b \<Longrightarrow> pow_digest a nonce = pow_digest b nonce"
proof -
  assume eq: "take 168 a = take 168 b"
  have "take 152 (take 168 a) = take 152 a" "bytes_at 160 8 (take 168 a) = bytes_at 160 8 a" for a :: bytes
    by (simp_all add: bytes_at_def drop_take)
  from this [of a] this [of b] show ?thesis unfolding pow_digest_def eq by simp
qed

lemma share_requested:
  assumes "length jid = 32" "address_ok a" "236 \<le> length t"
    and "be_nat (pow_digest (drop 68 t) nonce) \<le> min (2 ^ 255 - 1) (10 * be_nat (bytes_at 188 32 t))"
  shows "share_request (share_payload jid a nonce t)"
proof -
  have a: "69 \<le> length a" using assms(2) by (simp add: address_ok_def)
  have "pow_digest (bytes_at 68 168 t) nonce = pow_digest (drop 68 t) nonce"
    by (intro pow_digest_cong) (simp add: bytes_at_def)
  moreover have "bytes_at 120 32 (bytes_at 68 168 t) = bytes_at 188 32 t"
    using assms(3) by (simp add: bytes_at_def take_drop min_def)
  ultimately show ?thesis
    unfolding share_payload_layout [OF assms(1) a assms(3)] share_request_def
    using assms address_text [OF assms(2)]
    by (intro exI [of _ jid] exI [of _ "take 69 a"] exI [of _ nonce] exI [of _ "bytes_at 68 168 t"]) simp
qed

lemma work_requested:
  assumes "236 \<le> n" "n \<le> length t" "address_ok a" "be_nat (bytes_at 64 4 t) = n - 68"
    and "be_nat (pow_digest (drop 68 t) nonce) \<le> be_nat (bytes_at 188 32 t)"
  shows "work_request (work_payload t n a nonce)"
proof -
  have a: "69 \<le> length a" using assms(3) by (simp add: address_ok_def)
  have "take 168 (take (n - 68) (drop 68 t)) = take 168 (drop 68 t)" using assms(1) by (simp add: min_absorb1)
  then have "pow_digest (drop 68 (take n t)) nonce = pow_digest (drop 68 t) nonce"
    by (intro pow_digest_cong) (simp only: drop_take)
  moreover have "bytes_at 188 32 (take n t) = bytes_at 188 32 t" "bytes_at 64 4 (take n t) = bytes_at 64 4 t"
    using assms(1) by (simp_all only: bytes_at_def drop_take take_take) (simp_all add: min_absorb1)
  ultimately show ?thesis
    unfolding work_payload_layout [OF assms(1,2) a] work_request_def
    using assms address_text [OF assms(3)]
    by (intro exI [of _ "take n t"] exI [of _ "take 69 a"] exI [of _ nonce]) (simp add: min_absorb2)
qed

section \<open>The locale\<close>

locale server_property =
  fixes K :: "'u server \<Rightarrow> bool"
  assumes same: "K s \<Longrightarrow> clients t = clients s \<Longrightarrow> released t = released s \<Longrightarrow> next_cid t = next_cid s \<Longrightarrow>
      chain_rpc t = chain_rpc s \<Longrightarrow> ops t = ops s \<Longrightarrow> have_work t = have_work s \<Longrightarrow> active_template t = active_template s \<Longrightarrow>
      active_template_length t = active_template_length s \<Longrightarrow> K t"
    and link: "K s \<Longrightarrow> srv_ok s \<Longrightarrow> K (link_client s (stn_client_session_init (next_cid s) ins sends fd mode))"
    and buffer: "K s \<Longrightarrow> client_of s cid = Some c \<Longrightarrow> K (upd_client cid (c\<lparr>rx := b, rx_used := n, sess_in := es\<rparr>) s)"
    and rate: "K s \<Longrightarrow> srv_ok s \<Longrightarrow> client_of s cid = Some c \<Longrightarrow>
      h \<noteq> 0 \<longrightarrow> have_work s \<and> has_job c \<and> sent_job_id c = active_job_id s \<Longrightarrow> K (upd_client cid (c\<lparr>hashrate := h\<rparr>) s)"
    and registered: "K s \<Longrightarrow> srv_ok s \<Longrightarrow> client_of s cid = Some c \<Longrightarrow> \<not> address_registered c \<Longrightarrow> address_ok a \<Longrightarrow>
      K (upd_client cid (c\<lparr>address := a, address_registered := True\<rparr>) s)"
    and remove: "K s \<Longrightarrow> distinct (ids s) \<Longrightarrow> K (client_remove s cid)"
    and call_kept: "K s \<Longrightarrow> srv_ok s \<Longrightarrow> rpc_call (chain_rpc s) m payload n cap = (rpc, code, p) \<Longrightarrow>
      n \<le> (case payload of None \<Rightarrow> 0 | Some q \<Rightarrow> length q) \<Longrightarrow> chain_request m (sent_payload payload n) \<Longrightarrow>
      K (s\<lparr>chain_rpc := rpc\<rparr>)"
    and select: "K s \<Longrightarrow> K (snd (chain_transport_select s i))"
    and clear: "K s \<Longrightarrow> K (clear_work s)"
    and template: "K s \<Longrightarrow> srv_ok (with_template s p) \<Longrightarrow> K (with_template s p)"
    and result: "K s \<Longrightarrow> distinct (ids s) \<Longrightarrow> client_of s cid = Some c \<Longrightarrow> address_registered c \<Longrightarrow>
      code = STN_RPC_CLIENT_OK \<longrightarrow> have_work s \<Longrightarrow> K (client_send_result s cid code)"
    and job: "K s \<Longrightarrow> srv_ok s \<Longrightarrow> client_of s cid = Some c \<Longrightarrow> address_registered c \<Longrightarrow> K (snd (client_send_job s cid))"
begin

lemma keeps_next: "K s \<Longrightarrow> K (snd (chain_transport_next s))"
  by (simp add: chain_transport_next_def Let_def select)

lemma keeps_pending:
  assumes "K s" "srv_ok s" "cid \<in> set (ids s)"
  shows "K (send_pending_job s cid)"
proof -
  from client_of_ex [OF assms(3)] obtain c where "client_of s cid = Some c" by blast
  then show ?thesis using job [OF assms(1,2)] assms(1) by (simp add: send_pending_job_def)
qed

lemma keeps_share:
  assumes "K s" "srv_ok s" "client_of s cid = Some c" "address_registered c" "have_work s"
    and "be_nat (pow_digest (drop 68 (active_template s)) nonce) \<le>
      min (2 ^ 255 - 1) (10 * be_nat (bytes_at 188 32 (active_template s)))"
  shows "K (submit_share_result s cid c nonce)"
proof -
  let ?p = "share_payload (active_job_id s) (address c) nonce (active_template s)"
  obtain rpc code q where sent: "stn_rpc_client_submit_share (chain_rpc s) (Some ?p) STN_RPC_CLIENT_SHARE_SIZE =
      (rpc, code, q)" by (rule prod_cases3)
  have len: "length ?p = STN_RPC_CLIENT_SHARE_SIZE" and ask: "share_request ?p"
    using assms srv_ok_client [OF assms(2,3)]
    by (auto simp: share_payload_layout srv_ok_def work_ok_def sess_ok_def intro!: share_requested)
  obtain code' q' where "rpc_call (chain_rpc s) STN_RPC_CLIENT_SUBMIT_SHARE (Some ?p) STN_RPC_CLIENT_SHARE_SIZE 32 = (rpc, code', q')"
    using sent by (auto simp: stn_rpc_client_submit_share_def split: prod.splits if_splits)
  from call_kept [OF assms(1,2) this] have k: "K (s\<lparr>chain_rpc := rpc\<rparr>)"
    using len ask by (simp add: chain_request_def sent_payload_def)
  have "K (client_send_result (s\<lparr>chain_rpc := rpc\<rparr>) cid code)"
    using assms by (intro result [OF k]) (simp_all add: client_of_def srv_ok_distinct)
  then show ?thesis by (simp add: submit_share_result_def sent Let_def clear)
qed

lemma keeps_work:
  assumes "K s" "srv_ok s" "client_of s cid = Some c" "address_registered c" "have_work s"
    and "be_nat (pow_digest (drop 68 (active_template s)) nonce) \<le> be_nat (bytes_at 188 32 (active_template s))"
  shows "K (submit_work_result s cid c nonce)"
proof -
  let ?n = "active_template_length s"
  let ?p = "work_payload (active_template s) ?n (address c) nonce"
  obtain got mem where mem: "alloc_next (srv_mem s) = (got, mem)" by fastforce
  let ?m = "s\<lparr>srv_mem := mem\<rparr>"
  have m: "K ?m" by (rule same [OF assms(1)]) simp_all
  obtain rpc code q where sent: "stn_rpc_client_submit_work (chain_rpc s) (Some ?p) (?n + STN_MINER_ADDRESS_LENGTH) 80 =
      (rpc, code, q)" by (rule prod_cases3)
  have n: "236 \<le> ?n" "?n \<le> length (active_template s)" "69 \<le> length (address c)"
    using assms(2,5) srv_ok_client [OF assms(2,3)] by (auto simp: srv_ok_def work_ok_def sess_ok_def)
  have len: "length ?p = ?n + 69" using n by (simp add: work_payload_layout) (simp add: work_with_nonce_def)
  have ask: "work_request ?p"
    using assms srv_ok_client [OF assms(2,3)] by (intro work_requested) (auto simp: srv_ok_def work_ok_def sess_ok_def)
  have "rpc_call (chain_rpc ?m) STN_RPC_CLIENT_SUBMIT_WORK (Some ?p) (?n + 69) 80 = (rpc, code, q)"
    using sent n(1) by (simp add: stn_rpc_client_submit_work_def)
  from call_kept [OF m srv_ok_mem [OF assms(2)] this] have k: "K (?m\<lparr>chain_rpc := rpc\<rparr>)"
    using len ask by (simp add: chain_request_def sent_payload_def)
  have "K (client_send_result (?m\<lparr>chain_rpc := rpc\<rparr>) cid code)" "K (client_send_result ?m cid STN_RPC_CLIENT_PROVIDER)"
    using assms by (intro result [OF k] result [OF m]; simp add: client_of_def srv_ok_distinct)+
  then show ?thesis by (simp add: submit_work_result_def mem sent Let_def clear keeps_next)
qed

lemma keeps_submission:
  assumes "K s" "srv_ok s" "cid \<in> set (ids s)"
  shows "K (process_submission s cid)"
proof -
  from client_of_ex [OF assms(3)] obtain c where c: "client_of s cid = Some c" by blast
  note dist = srv_ok_distinct [OF assms(2)]
  have refuse: "K (client_send_result s cid code)" if "address_registered c" "code \<noteq> STN_RPC_CLIENT_OK" for code
    using that by (intro result [OF assms(1) dist c]) simp_all
  consider "\<not> address_registered c" | "address_registered c" "\<not> submit_frame (rx c)" | "address_registered c" "submit_frame (rx c)"
    by blast
  then show ?thesis
  proof cases
    case 1
    then show ?thesis by (simp add: process_submission_def c remove [OF assms(1) dist])
  next
    case 2
    have "8 \<le> length (rx c)" using srv_ok_client [OF assms(2) c] by (simp add: sess_ok_def)
    then show ?thesis using 2 submit_frame_iff [of "rx c"] refuse by (auto simp: process_submission_def c Let_def)
  next
    case 3
    show ?thesis
      unfolding submission_verdict_aux [OF assms(2) c 3] Let_def
      using refuse [OF 3(1)] keeps_share [OF assms(1,2) c 3(1)] keeps_work [OF assms(1,2) c 3(1)] by (simp add: not_less)
  qed
qed

lemma keeps_address:
  assumes "K s" "srv_ok s" "cid \<in> set (ids s)"
  shows "K (process_address s cid)"
proof -
  from client_of_ex [OF assms(3)] obtain c where c: "client_of s cid = Some c" by blast
  note ok = srv_ok_client [OF assms(2) c]
  show ?thesis
  proof (cases "address_registered c \<or> \<not> address_valid (rx c)")
    case True
    then show ?thesis using remove [OF assms(1) srv_ok_distinct [OF assms(2)]] by (auto simp: process_address_def c)
  next
    case False
    let ?c = "c\<lparr>address := bytes_at 8 69 (rx c) @ [0], address_registered := True\<rparr>"
    have addr: "address_ok (bytes_at 8 69 (rx c) @ [0])"
      using ok False address_valid_ok [of "rx c"] by (auto simp: sess_ok_def)
    have "sess_ok s ?c" using ok False addr by (auto simp: sess_ok_def address_ok_def)
    then have srv: "srv_ok (upd_client cid ?c s)" using assms(2) ok by (intro srv_ok_upd) auto
    have "K (upd_client cid ?c s)"
      using False by (intro registered [OF assms(1,2) c _ addr]) simp
    moreover have "client_of (upd_client cid ?c s) cid = Some ?c" using ok by (subst client_of_upd) auto
    ultimately show ?thesis
      using job [OF _ srv] False by (simp add: process_address_def c Let_def)
  qed
qed

lemma keeps_progress:
  assumes "K s" "srv_ok s" "cid \<in> set (ids s)"
  shows "K (process_hash_progress s cid)"
proof -
  from client_of_ex [OF assms(3)] obtain c where c: "client_of s cid = Some c" by blast
  have len: "length (rx c) = 77" "length (sent_job_id c) = 32" "length (active_job_id s) = 32"
    using srv_ok_client [OF assms(2) c] assms(2) by (auto simp: sess_ok_def srv_ok_def work_ok_def)
  have "sent_job_id c = active_job_id s" if "mem_eq (drop 8 (rx c)) (active_job_id s) 32"
    "mem_eq (drop 8 (rx c)) (sent_job_id c) 32"
    using that len by (simp add: mem_eq_def)
  then show ?thesis
    using assms(1) rate [OF assms(1,2) c] remove [OF assms(1) srv_ok_distinct [OF assms(2)]]
    by (simp add: process_hash_progress_def c Let_def)
qed

lemma keeps_frame: "K s \<Longrightarrow> srv_ok s \<Longrightarrow> cid \<in> set (ids s) \<Longrightarrow> K (process_frame s cid t)"
  by (simp add: process_frame_def keeps_address keeps_submission keeps_progress)

text \<open>Reading changes only the buffer.\<close>

lemma keeps_fill:
  assumes "rx_fill want a = (r, b)" "length (rx a) = 77" "want \<le> 77" "client_of s cid = Some c" "K s"
    and "a = c\<lparr>rx := rx a, rx_used := rx_used a, sess_in := sess_in a\<rparr>"
  shows "K (upd_client cid b s)" "b = c\<lparr>rx := rx b, rx_used := rx_used b, sess_in := sess_in b\<rparr>"
proof -
  have "b = a\<lparr>rx := rx b, rx_used := rx_used b, sess_in := sess_in b\<rparr>" using rx_fill_spec [OF assms(1-3)] by simp
  then show b: "b = c\<lparr>rx := rx b, rx_used := rx_used b, sess_in := sess_in b\<rparr>"
    by (subst (asm) assms(6)) simp
  show "K (upd_client cid b s)" by (subst b) (rule buffer [OF assms(5,4)])
qed

lemma keeps_pass:
  assumes "K s" "srv_ok s" "cid \<in> set (ids s)"
  shows "K (snd (service_pass s cid))"
proof -
  from client_of_ex [OF assms(3)] obtain c where c: "client_of s cid = Some c" by blast
  note cok = srv_ok_client [OF assms(2) c]
  have len: "length (rx c) = 77" using cok by (simp add: sess_ok_def)
  obtain r a where a: "rx_fill 8 c = (r, a)" by fastforce
  note a_keeps = keeps_fill [OF a len _ c assms(1), simplified]
  have a_ok: "sess_ok s a" "sess_id a = cid" "length (rx a) = 77"
    using rx_fill_sess_ok [OF a, of s] cok by auto
  have up: "K (client_remove (upd_client cid x s) cid)" if "K (upd_client cid x s)" "sess_id x = cid" for x
    using that srv_ok_distinct [OF assms(2)] by (intro remove) simp_all
  show ?thesis
  proof (cases "r = Filled \<and> frame_header_ok (rx a) \<and> frame_size_of (rx a ! 5) \<noteq> None")
    case False
    then show ?thesis
      using a_keeps(1) up [OF a_keeps(1) a_ok(2)] by (cases r) (auto simp: service_pass_def c a Let_def)
  next
    case True
    then obtain size where size: "frame_size_of (rx a ! 5) = Some size" by auto
    obtain r2 b where b: "rx_fill size a = (r2, b)" by fastforce
    have sz: "size \<le> 77" using frame_size_bounds [OF size] by auto
    have b_ok: "sess_ok s b" "sess_id b = cid"
      using rx_fill_sess_ok [OF b a_ok(1) sz] a_ok(2) by auto
    note kb = keeps_fill(1) [OF b a_ok(3) sz c assms(1) a_keeps(2)]
    have twice: "upd_client cid b (upd_client cid a s) = upd_client cid b s"
      using a_ok(2) by (auto simp: upd_client_def)
    let ?t = "process_frame (upd_client cid b s) cid (rx b ! 5)"
    have t: "K ?t"
      using kb srv_ok_upd [OF assms(2) b_ok] b_ok(2) assms(3) by (intro keeps_frame) simp_all
    have "K (upd_client cid (d\<lparr>rx_used := 0\<rparr>) ?t)" if "client_of ?t cid = Some d" for d
      using buffer [OF t that, where b = "rx d" and n = 0 and es = "sess_in d"] by simp
    then show ?thesis
      using True kb up [OF kb b_ok(2)] t
      by (cases r2) (auto simp: service_pass_def c a b size twice Let_def split: option.split)
  qed
qed

lemma keeps_loop:
  "K s \<Longrightarrow> srv_ok s \<Longrightarrow> client_of s cid = Some c \<Longrightarrow> backlog c < 48 * n \<Longrightarrow> K (service_loop n s cid)"
proof (induction n arbitrary: s c)
  case (Suc n)
  obtain again s' where p: "service_pass s cid = (again, s')" by fastforce
  note pass = service_pass_turn [OF Suc.prems(2,3) p]
  have s': "K s'"
    using keeps_pass [OF Suc.prems(1,2)] srv_ok_client [OF Suc.prems(2,3)] p by (metis snd_conv)
  show ?case
  proof (cases again)
    case True
    with pass obtain d where "client_of s' cid = Some d" "backlog d + 48 \<le> backlog c" by blast
    then have "K (service_loop n s' cid)"
      using Suc.prems(4) pass by (intro Suc.IH [OF s' turn_ok]) auto
    then show ?thesis using p True by simp
  qed (use p s' in simp)
qed simp

lemma keeps_service: "K s \<Longrightarrow> srv_ok s \<Longrightarrow> cid \<in> set (ids s) \<Longrightarrow> K (service_client s cid)"
proof -
  assume s: "K s" "srv_ok s" "cid \<in> set (ids s)"
  from client_of_ex [OF s(3)] obtain c where c: "client_of s cid = Some c" by blast
  have "rx_used c \<le> 77" using srv_ok_client [OF s(2) c] by (simp add: sess_ok_def)
  then have "backlog c < 48 * (pending (sess_in c) + 2)" by (simp add: backlog_def)
  then show "K (service_client s cid)"
    using keeps_loop [OF s(1,2) c] s(1) by (simp add: service_client_def c del: service_loop.simps)
qed

lemma loop_all:
  assumes "\<And>s cid. srv_ok s \<Longrightarrow> cid \<in> set (ids s) \<Longrightarrow> turn s cid (body s cid)"
    and "\<And>s cid. K s \<Longrightarrow> srv_ok s \<Longrightarrow> cid \<in> set (ids s) \<Longrightarrow> K (body s cid)"
    and "srv_ok s" "K s"
  shows "K (for_clients body s)"
proof -
  have "client_loop body (\<lambda>s. srv_ok s \<and> K s)"
    by unfold_locales (use assms(1,2) in \<open>auto simp: turn_def srv_ok_distinct\<close>)
  from client_loop.for_clients_inv [OF this] assms(3,4) show ?thesis by blast
qed

lemma keeps_services: "srv_ok s \<Longrightarrow> K s \<Longrightarrow> K (service_clients s)"
  unfolding service_clients_def using service_client_turn keeps_service by (rule loop_all)

lemma keeps_pendings: "srv_ok s \<Longrightarrow> K s \<Longrightarrow> K (send_pending_jobs s)"
  unfolding send_pending_jobs_def using handled_turn [OF send_pending_job_turn] keeps_pending by (rule loop_all)

lemma keeps_refresh:
  assumes "srv_ok s" "K s"
  shows "K (refresh_work s)"
proof -
  obtain rpc code p where call: "stn_rpc_client_mining_template (chain_rpc s) STN_RPC_CLIENT_MAX_PAYLOAD =
      (rpc, code, p)" by (rule prod_cases3)
  let ?t = "s\<lparr>chain_rpc := rpc, chain_poll_count := chain_poll_count s + 1\<rparr>"
  have "srv_ok (s\<lparr>chain_rpc := rpc\<rparr>)"
    using assms(1) rpc_exchange_kept(1) [OF call] by (rule srv_ok_rpc)
  then have ok: "srv_ok ?t" by (rule srv_ok_same; simp)
  obtain code' p' where "rpc_call (chain_rpc s) STN_RPC_CLIENT_MINING_TEMPLATE None 0 STN_RPC_CLIENT_MAX_PAYLOAD = (rpc, code', p')"
    using call by (auto simp: stn_rpc_client_mining_template_def split: prod.splits)
  from call_kept [OF assms(2,1) this] have "K (s\<lparr>chain_rpc := rpc\<rparr>)"
    by (simp add: chain_request_def sent_payload_def)
  then have t: "K ?t" "K (?t\<lparr>chain_available := b\<rparr>)" for b by (rule same; simp)+
  have new: "srv_ok (with_template ?t p)" if "code = STN_RPC_CLIENT_OK"
    using that mining_template_facts [OF call] ok by (intro srv_ok_with_template) auto
  note templated = template [OF t(1) new]
  have "K (send_pending_jobs (with_template ?t p))" if "code = STN_RPC_CLIENT_OK"
    using keeps_pendings [OF new [OF that] templated [OF that]] .
  then show ?thesis
    using t templated by (simp add: refresh_work_cases [OF call assms(1)] clear keeps_next)
qed

lemma keeps_accept_from:
  "srv_ok s \<Longrightarrow> K s \<Longrightarrow> K (snd (accept_from_listener l es s))"
proof (induction l es s rule: accept_from_listener.induct)
  case (1 l es s)
  obtain r c es' mem closed where acc: "stn_session_acceptor_accept l es (srv_mem s) (next_cid s) =
      (r, c, es', mem, closed)" by (rule prod_cases5)
  note unfold = accept_from_listener.simps [of l es s]
  let ?s = "s\<lparr>srv_mem := mem, closed_fds := closed_fds s @ closed\<rparr>"
  have s: "K ?s" by (rule same [OF "1.prems"(2)]) simp_all
  have ok: "srv_ok ?s" by (rule srv_ok_same [OF "1.prems"(1)]) simp_all
  show ?case
  proof (cases c)
    case None
    then show ?thesis using s by (simp add: unfold acc)
  next
    case (Some d)
    have d: "d = stn_client_session_init (next_cid ?s) (sess_in d) (sess_sends d) (sess_socket d) (stn_client_mode_init (ls_mode l))"
      using acceptor_session [OF acc] Some by simp
    have "K (link_client ?s d)" by (subst d) (rule link [OF s ok])
    with "1.IH" [OF acc [symmetric] refl refl refl refl Some] srv_ok_link [OF "1.prems"(1) acc [unfolded Some]]
    show ?thesis by (simp add: unfold acc Some Let_def)
  qed
qed

lemma keeps_accepts:
  assumes "srv_ok s" "K s"
  shows "K (accept_clients s)"
proof -
  obtain es1 s1 where a: "accept_from_listener (pool_listener s) (pool_accepts s) s = (es1, s1)" by fastforce
  let ?s1 = "s1\<lparr>pool_accepts := es1\<rparr>"
  obtain es2 s2 where b: "accept_from_listener (solo_listener ?s1) (solo_accepts ?s1) ?s1 = (es2, s2)" by fastforce
  have s1: "srv_ok s1" "K s1"
    using accept_from_listener_ok [OF assms(1), of "pool_listener s" "pool_accepts s"]
      keeps_accept_from [OF assms, of "pool_listener s" "pool_accepts s"] by (simp_all add: a)
  have "K ?s1" by (rule same [OF s1(2)]) simp_all
  from keeps_accept_from [OF srv_ok_accepts(1) [OF s1(1)] this, of "solo_listener ?s1" "solo_accepts ?s1"] b
  have "K s2" by simp
  then have "K (s2\<lparr>solo_accepts := es2\<rparr>)" by (rule same; simp)
  then show ?thesis using b by (simp add: accept_clients_def a Let_def)
qed

lemma keeps_tick:
  assumes "srv_ok s" "K s"
  shows "K (server_tick s)"
proof -
  let ?a = "service_clients (accept_clients s)"
  have a: "srv_ok ?a" "K ?a"
    using assms by (simp_all add: service_clients_ok accept_clients_ok keeps_services keeps_accepts)
  let ?b = "if loop_count ?a mod STN_STRATUM_CHAIN_POLL_TICKS = 0 then refresh_work ?a else ?a"
  have "srv_ok ?b" "K ?b" using a by (simp_all add: refresh_work_ok keeps_refresh)
  then have "K (send_pending_jobs ?b)" by (rule keeps_pendings)
  then show ?thesis unfolding server_tick_def Let_def by (rule same) simp_all
qed

lemma keeps_step: "server_step s t \<Longrightarrow> srv_ok s \<Longrightarrow> K s \<Longrightarrow> K t"
proof (induction rule: server_step.induct)
  case (Stop s)
  show ?case by (rule same [OF Stop(2)]) (simp_all add: stn_stratum_server_stop_def)
qed (rule keeps_tick)

lemma keeps_reachable: "reachable s0 s \<Longrightarrow> srv_ok s0 \<Longrightarrow> K s0 \<Longrightarrow> K s"
proof (induction rule: reachable.induct)
  case (step s t)
  show ?case
    by (rule keeps_step [OF step.hyps(2) reachable_ok [OF step.hyps(1) step.prems(1)] step.IH [OF step.prems]])
qed

end

end
