(* ===== verification/Server_Clients.thy ===== *)
theory Server_Clients
  imports Server_Keeps
begin

text \<open>
  Properties of every client, connected or gone, that no operation of the server breaks: the locale
  \<open>client_property\<close> names what has to be checked of the session alone; it is a \<open>server_property\<close>.
\<close>

text \<open>\<open>P\<close> holds of the connected clients, \<open>Q\<close> of those that are gone.\<close>

definition each :: "(session \<Rightarrow> bool) \<Rightarrow> (session \<Rightarrow> bool) \<Rightarrow> 'u server \<Rightarrow> bool" where
  "each P Q s \<longleftrightarrow> (\<forall>c \<in> set (clients s). P c) \<and> (\<forall>c \<in> set (released s). Q c)"

lemma each_cong: "clients t = clients s \<Longrightarrow> released t = released s \<Longrightarrow> each P Q t \<longleftrightarrow> each P Q s"
  by (simp add: each_def)

text \<open>The job as it is sent: the header, then the block.\<close>

definition job_sends :: "bytes \<Rightarrow> nat \<Rightarrow> session \<Rightarrow> bool \<times> session" where
  "job_sends t n c =
     (case sess_send c (job_header_spec t n) of
        (ok, c) \<Rightarrow> if ok then sess_send c (bytes_at 68 (n - 68) t) else (False, c))"

lemma job_sends_fields:
  assumes "job_sends t n c = (ok, c')"
  shows "c' = c\<lparr>sess_sends := sess_sends c', sess_out := sess_out c'\<rparr>"
proof -
  obtain ok1 c1 where one: "sess_send c (job_header_spec t n) = (ok1, c1)" by fastforce
  then obtain x1 y1 where c1: "c1 = c\<lparr>sess_sends := x1, sess_out := y1\<rparr>" using sess_send_fields(1) by blast
  obtain ok2 c2 where two: "sess_send c1 (bytes_at 68 (n - 68) t) = (ok2, c2)" by fastforce
  then obtain x2 y2 where "c2 = c1\<lparr>sess_sends := x2, sess_out := y2\<rparr>" using sess_send_fields(1) by blast
  then have c2: "c2 = c\<lparr>sess_sends := x2, sess_out := y2\<rparr>" by (simp add: c1)
  have "c' = c1 \<or> c' = c2" using assms one two by (auto simp: job_sends_def split: if_splits)
  then show ?thesis by (auto simp: c1 c2)
qed

lemma client_send_job_eq:
  assumes "srv_ok s" "have_work s" "client_of s cid = Some c"
    and "job_sends (active_template s) (active_template_length s) c = (ok, c')"
  shows "snd (client_send_job s cid) =
      (if sess_socket c = - 1 then s
       else if ok then upd_client cid (c'\<lparr>sent_job_id := active_job_id s, has_job := True\<rparr>) s
       else client_remove (upd_client cid c' s) cid)"
proof -
  let ?t = "active_template s" and ?n = "active_template_length s"
  have n: "236 \<le> ?n" "?n \<le> length ?t" "?n \<le> STN_RPC_CLIENT_MAX_PAYLOAD"
    using assms(1,2) by (auto simp: srv_ok_def work_ok_def)
  have built: "stn_miner_job_build (Some ?t) ?n = Some (job_header_spec ?t ?n, of_nat (?n - 68))"
    using job_build_aux [OF n(2)] n by simp
  have "unat (of_nat (?n - 68) :: u32) = ?n - 68"
    using n by (intro unat_of_nat_u32) simp
  then show ?thesis
    using assms(2,4) by (auto simp: client_send_job_def assms(3) built job_sends_def split: prod.split)
qed

locale client_property =
  fixes P :: "session \<Rightarrow> bool" and Q :: "session \<Rightarrow> bool"
  assumes gone: "P c \<Longrightarrow> Q c"
    and socket: "Q c \<Longrightarrow> Q (c\<lparr>sess_socket := fd\<rparr>)"
    and fresh: "P (stn_client_session_init cid ins sends fd mode)"
    and buffer: "P c \<Longrightarrow> P (c\<lparr>rx := b, rx_used := n, sess_in := es\<rparr>)"
    and rate: "P c \<Longrightarrow> P (c\<lparr>hashrate := h\<rparr>)"
    and registered: "P c \<Longrightarrow> \<not> address_registered c \<Longrightarrow> P (c\<lparr>address := a, address_registered := True\<rparr>)"
    and cleared: "P c \<Longrightarrow> P (c\<lparr>has_job := False, hashrate := 0, sent_job_id := replicate 32 0\<rparr>)"
    and result: "P c \<Longrightarrow> address_registered c \<Longrightarrow> sess_send c (result_frame code) = (ok, c') \<Longrightarrow>
      if ok then P c' else Q c'"
    and job: "P c \<Longrightarrow> address_registered c \<Longrightarrow> 236 \<le> n \<Longrightarrow> n \<le> length t \<Longrightarrow> n \<le> STN_RPC_CLIENT_MAX_PAYLOAD \<Longrightarrow>
      job_sends t n c = (ok, c') \<Longrightarrow>
      if ok then P (c'\<lparr>sent_job_id := bytes_at 32 32 t, has_job := True\<rparr>) else Q c'"
begin

abbreviation "all_ok s \<equiv> each P Q s"

lemma each_client: "all_ok s \<Longrightarrow> client_of s cid = Some c \<Longrightarrow> P c"
  using client_of_Some by (auto simp: each_def)

lemma each_upd: "all_ok s \<Longrightarrow> P c' \<Longrightarrow> all_ok (upd_client cid c' s)"
  using set_clients_upd [of _ cid c' s] by (auto simp: each_def upd_client_def)

lemma each_remove: "all_ok s \<Longrightarrow> all_ok (client_remove s cid)"
proof (cases "client_of s cid")
  case (Some c)
  assume s: "all_ok s"
  then have "Q c" using each_client [OF _ Some] gone by blast
  then show ?thesis
    using s Some socket set_unlink [of cid "clients s"]
    by (auto simp: each_def client_remove_def stn_session_acceptor_release_def)
qed (simp add: client_remove_def)

text \<open>Removing a client with what was sent to it last.\<close>

lemma each_drop:
  assumes "all_ok s" "distinct (ids s)" "sess_id c' = cid" "cid \<in> set (ids s)" "Q c'"
  shows "all_ok (client_remove (upd_client cid c' s) cid)"
proof -
  have "client_of (upd_client cid c' s) cid = Some c'" using assms(3,4) by (simp add: client_of_upd)
  moreover have "unlink cid (clients (upd_client cid c' s)) = unlink cid (clients s)"
    using assms(2,3) by (simp add: upd_client_def unlink_upd)
  ultimately show ?thesis
    using assms(1,5) socket set_unlink [of cid "clients s"]
    by (auto simp: each_def client_remove_def stn_session_acceptor_release_def)
qed

lemma each_clear: "all_ok s \<Longrightarrow> all_ok (clear_work s)"
  using cleared by (auto simp: each_def clear_work_def clear_client_jobs_def)

lemma each_result:
  assumes "all_ok s" "distinct (ids s)" "client_of s cid = Some c" "address_registered c"
  shows "all_ok (client_send_result s cid code)"
proof -
  obtain ok c' where snd: "sess_send c (result_frame code) = (ok, c')" by fastforce
  have c: "P c" "sess_id c' = cid" "cid \<in> set (ids s)"
    using each_client [OF assms(1,3)] client_of_Some [OF assms(3)] sess_send_simps(2) [OF snd]
      client_of_None [of s cid] assms(3) by (simp_all del: set_map)
  have "if ok then P c' else Q c'" by (rule result [OF c(1) assms(4) snd])
  then show ?thesis
    using assms c each_upd [OF assms(1)] each_drop [OF assms(1,2) c(2,3)]
    by (simp add: client_send_result_def snd)
qed

lemma each_job:
  assumes "all_ok s" "srv_ok s" "client_of s cid = Some c" "address_registered c"
  shows "all_ok (snd (client_send_job s cid))"
proof (cases "have_work s")
  case True
  let ?t = "active_template s" and ?n = "active_template_length s"
  have n: "236 \<le> ?n" "?n \<le> length ?t" "?n \<le> STN_RPC_CLIENT_MAX_PAYLOAD" "active_job_id s = bytes_at 32 32 ?t"
    using assms(2) True by (auto simp: srv_ok_def work_ok_def)
  obtain ok c' where sends: "job_sends ?t ?n c = (ok, c')" by fastforce
  have c: "P c" "sess_id c = cid" "cid \<in> set (ids s)"
    using each_client [OF assms(1,3)] client_of_Some [OF assms(3)] client_of_None [of s cid] assms(3)
    by (simp_all del: set_map)
  have c': "sess_id c' = cid" using c(2) by (subst job_sends_fields [OF sends]) simp
  have step: "if ok then P (c'\<lparr>sent_job_id := active_job_id s, has_job := True\<rparr>) else Q c'"
    using job [OF c(1) assms(4) n(1-3) sends] n(4) by simp
  then show ?thesis
    unfolding client_send_job_eq [OF assms(2) True assms(3) sends]
    using assms(1) each_upd [OF assms(1)] each_drop [OF assms(1) srv_ok_distinct [OF assms(2)] c' c(3)] by simp
qed (simp add: client_send_job_def assms(1))

sublocale whole: server_property "each P Q"
proof unfold_locales
  show "all_ok t" if "all_ok s" "clients t = clients s" "released t = released s" for s t
    using that by (simp add: each_def)
  show "all_ok (link_client s (stn_client_session_init (next_cid s) ins sends fd mode))" if "all_ok s" for s ins sends fd mode
    using that fresh by (simp add: each_def link_client_def)
  show "all_ok (upd_client cid (c\<lparr>rx := b, rx_used := n, sess_in := es\<rparr>) s)"
    if "all_ok s" "client_of s cid = Some c" for s cid c b n es
    using that by (intro each_upd buffer each_client)
  show "all_ok (upd_client cid (c\<lparr>hashrate := h\<rparr>) s)" if "all_ok s" "client_of s cid = Some c" for s cid c h
    using that by (intro each_upd rate each_client)
  show "all_ok (upd_client cid (c\<lparr>address := a, address_registered := True\<rparr>) s)"
    if "all_ok s" "client_of s cid = Some c" "\<not> address_registered c" for s cid c a
    using that by (intro each_upd registered each_client)
  show "all_ok (snd (chain_transport_select s i))" if "all_ok s" for s i
    using that each_clear [OF that] by (simp add: chain_transport_select_def Let_def each_def)
  show "all_ok (s\<lparr>chain_rpc := rpc\<rparr>)" "all_ok (with_template s p)" if "all_ok s" for s rpc p
    using that by (simp_all add: each_def with_template_def)
qed (simp_all add: each_remove each_clear each_result each_job)

end

end
