(* ===== verification/Miner_Stream.thy ===== *)
theory Miner_Stream
  imports Server_Clients Server_Props
begin

text \<open>
  What a miner sees: the bytes that the server sends to it, read as frames by the layout of
  \<^verbatim>\<open>includes/stn_miner_protocol.h\<close>.
\<close>

section \<open>Reading frames\<close>

text \<open>A JOB: the work id, the share target, the Chain target, the initial nonce and the block; a RESULT: its code.\<close>

datatype miner_frame =
    Job_Frame bytes bytes bytes bytes bytes
  | Result_Frame u32

definition frame_head :: "byte \<Rightarrow> bytes" where
  "frame_head t = STN_MINER_MAGIC @ [STN_MINER_VERSION, t, 0, 0]"

definition job_length :: "bytes \<Rightarrow> nat" where
  "job_length p = STN_MINER_JOB_HEADER_SIZE + unat (read32be p STN_MINER_JOB_BLOCK_LENGTH_OFFSET)"

definition read_miner_frame :: "bytes \<Rightarrow> (miner_frame \<times> bytes) option" where
  "read_miner_frame p =
     (if take 8 p = frame_head STN_MINER_RESULT \<and> STN_MINER_RESULT_SIZE \<le> length p
      then Some (Result_Frame (read32be p 8), drop STN_MINER_RESULT_SIZE p)
      else if take 8 p = frame_head STN_MINER_JOB \<and> STN_MINER_JOB_HEADER_SIZE \<le> length p \<and> job_length p \<le> length p
      then Some (Job_Frame (bytes_at 8 32 p) (bytes_at STN_MINER_JOB_SHARE_TARGET_OFFSET 32 p)
                   (bytes_at STN_MINER_JOB_CHAIN_TARGET_OFFSET 32 p) (bytes_at STN_MINER_JOB_INITIAL_NONCE_OFFSET 8 p)
                   (bytes_at STN_MINER_JOB_HEADER_SIZE (job_length p - STN_MINER_JOB_HEADER_SIZE) p),
                 drop (job_length p) p)
      else None)"

lemma read_frame_shorter: "read_miner_frame p = Some (f, r) \<Longrightarrow> length r < length p"
  by (auto simp: read_miner_frame_def job_length_def split: if_splits)

text \<open>The complete frames, and what is left.\<close>

function read_miner_stream :: "bytes \<Rightarrow> miner_frame list \<times> bytes" where
  "read_miner_stream p =
     (case read_miner_frame p of
        None \<Rightarrow> ([], p)
      | Some (f, r) \<Rightarrow> (case read_miner_stream r of (fs, q) \<Rightarrow> (f # fs, q)))"
  by pat_completeness auto
termination
  by (relation "measure length") (auto dest: read_frame_shorter)

declare read_miner_stream.simps [simp del]

lemma read32be_append: "off + 4 \<le> length p \<Longrightarrow> read32be (p @ q) off = read32be p off"
  by (rule word_unat_eq_iff [THEN iffD2]) (simp add: srv32.get_value bytes_at_def)

lemma bytes_at_append: "off + n \<le> length p \<Longrightarrow> bytes_at off n (p @ q) = bytes_at off n p"
  by (simp add: bytes_at_def)

lemma read_frame_append:
  assumes "read_miner_frame p = Some (f, r)"
  shows "read_miner_frame (p @ q) = Some (f, r @ q)"
proof -
  have "8 \<le> length p" using assms by (auto simp: read_miner_frame_def split: if_splits)
  then have t: "take 8 (p @ q) = take 8 p" by simp
  have l: "job_length (p @ q) = job_length p" if "116 \<le> length p"
    using that by (simp add: job_length_def read32be_append)
  have le: "116 \<le> job_length p" by (simp add: job_length_def)
  show ?thesis
  proof (cases "take 8 p = frame_head STN_MINER_RESULT \<and> 12 \<le> length p")
    case True
    then show ?thesis using assms by (simp add: read_miner_frame_def t read32be_append) 
  next
    case False
    then have job: "take 8 p = frame_head STN_MINER_JOB" "116 \<le> length p" "job_length p \<le> length p"
      and f: "f = Job_Frame (bytes_at 8 32 p) (bytes_at 40 32 p) (bytes_at 72 32 p) (bytes_at 108 8 p)
          (bytes_at 116 (job_length p - 116) p)" "r = drop (job_length p) p"
      using assms by (auto simp: read_miner_frame_def split: if_splits)
    have "frame_head STN_MINER_JOB \<noteq> frame_head STN_MINER_RESULT" by (simp add: frame_head_def)
    then show ?thesis
      using job le by (simp add: read_miner_frame_def t l [OF job(2)] f bytes_at_append)
  qed
qed

lemma read_stream_append:
  "read_miner_stream p = (fs, []) \<Longrightarrow>
   read_miner_stream (p @ q) = (fs @ fst (read_miner_stream q), snd (read_miner_stream q))"
proof (induction p arbitrary: fs rule: read_miner_stream.induct)
  case (1 p)
  show ?case
  proof (cases "read_miner_frame p")
    case None
    then show ?thesis using "1.prems" by (simp add: read_miner_stream.simps [of p])
  next
    case (Some fr)
    obtain f r where fr: "fr = (f, r)" by fastforce
    obtain gs x where r: "read_miner_stream r = (gs, x)" by fastforce
    have fs: "fs = f # gs" "x = []" using "1.prems" Some fr r by (simp_all add: read_miner_stream.simps [of p])
    have "read_miner_stream (r @ q) = (gs @ fst (read_miner_stream q), snd (read_miner_stream q))"
      using "1.IH" [OF Some fr [symmetric]] r fs(2) by simp
    then show ?thesis
      using read_frame_append [OF Some [unfolded fr], of q] fs(1) by (simp add: read_miner_stream.simps [of "p @ q"])
  qed
qed

text \<open>One whole frame, and a frame that was cut off.\<close>

lemma read_stream_nil: "read_miner_stream [] = ([], [])"
  by (simp add: read_miner_stream.simps [of "[]"] read_miner_frame_def frame_head_def STN_MINER_MAGIC_def)

lemma read_stream_one: "read_miner_frame p = Some (f, []) \<Longrightarrow> read_miner_stream p = ([f], [])"
  by (simp add: read_miner_stream.simps [of p] read_stream_nil)

lemma read_stream_cut:
  assumes "read_miner_frame (p @ q) = Some (f, [])" "q \<noteq> []"
  shows "read_miner_stream p = ([], p)"
proof (cases "read_miner_frame p")
  case None
  then show ?thesis by (simp add: read_miner_stream.simps [of p])
next
  case (Some fr)
  then obtain g r where "read_miner_frame p = Some (g, r)" by (cases fr) auto
  from read_frame_append [OF this, of q] assms show ?thesis by simp
qed

section \<open>The frames of the server\<close>

lemma read_result: "read_miner_frame (result_frame code) = Some (Result_Frame (submit_result_code code), [])"
proof -
  have "unat (submit_result_code code) < 2 ^ 32" using unsigned_less [of "submit_result_code code"] by simp
  then have "read32be (result_frame code) 8 = submit_result_code code"
    by (intro word_unat_eq_iff [THEN iffD2])
      (simp add: srv32.get_value result_frame_layout STN_MINER_MAGIC_def bytes_at_def be_simps)
  then show ?thesis
    by (simp add: read_miner_frame_def result_frame_layout frame_head_def STN_MINER_MAGIC_def)
qed

lemma read_job:
  assumes "236 \<le> n" "n \<le> length t" "n < 2 ^ 32"
  shows "read_miner_frame (job_header_spec t n @ bytes_at 68 (n - 68) t) =
    Some (Job_Frame (bytes_at 32 32 t) (job_share_target_from_chain (bytes_at 188 32 t)) (bytes_at 188 32 t)
            (bytes_at 220 8 t) (bytes_at 68 (n - 68) t), [])"
proof -
  define wid where "wid = bytes_at 32 32 t"
  define ct where "ct = bytes_at 188 32 t"
  define st where "st = job_share_target_from_chain ct"
  define nonce where "nonce = bytes_at 220 8 t"
  define bl where "bl = be_bytes 4 (of_nat (n - 68) :: u32)"
  define block where "block = bytes_at 68 (n - 68) t"
  define hd where "hd = frame_head STN_MINER_JOB"
  have len: "length wid = 32" "length ct = 32" "length nonce = 8" "length bl = 4" "length block = n - 68" "length hd = 8"
    using assms by (simp_all add: wid_def ct_def nonce_def bl_def block_def hd_def frame_head_def STN_MINER_MAGIC_def)
  have st: "length st = 32" unfolding st_def by (rule job_share_target_length [OF len(2)])
  have p: "job_header_spec t n @ block = hd @ wid @ st @ ct @ bl @ nonce @ block" (is "?p = _")
    by (simp add: job_header_spec_def hd_def frame_head_def wid_def st_def ct_def bl_def nonce_def)
  have fields: "take 8 ?p = hd" "bytes_at 8 32 ?p = wid" "bytes_at 40 32 ?p = st" "bytes_at 72 32 ?p = ct"
    "bytes_at 104 4 ?p = bl" "bytes_at 108 8 ?p = nonce" "bytes_at 116 (n - 68) ?p = block" "length ?p = n + 48"
    unfolding p using len st assms(1) by (simp_all add: bytes_at_def)
  have "be_nat bl = n - 68" using assms(3) by (simp add: bl_def be_simps unat_of_nat_u32 del: of_nat_diff)
  then have "unat (read32be ?p 104) = n - 68"
    using fields(5,8) assms(1) by (simp add: srv32.get_value)
  then have "job_length ?p = n + 48" using assms(1) by (simp add: job_length_def)
  moreover have "hd \<noteq> frame_head STN_MINER_RESULT" by (simp add: hd_def frame_head_def)
  ultimately show ?thesis
    using fields assms(1)
    by (simp add: read_miner_frame_def flip: block_def wid_def ct_def nonce_def) (simp add: hd_def st_def)
qed

text \<open>A JOB is consistent: targets and nonce are those of its block, and the share target is the one derived.\<close>

fun frame_ok :: "miner_frame \<Rightarrow> bool" where
  "frame_ok (Job_Frame jid st ct nonce block) \<longleftrightarrow>
     length jid = 32 \<and> STN_MINER_CHAIN_HEADER_SIZE \<le> length block \<and>
     ct = bytes_at STN_MINER_CHAIN_TARGET_OFFSET 32 block \<and> st = job_share_target_from_chain ct \<and>
     nonce = bytes_at STN_MINER_CHAIN_NONCE_OFFSET 8 block"
| "frame_ok (Result_Frame code) \<longleftrightarrow> code \<le> STN_MINER_RESULT_PROTOCOL"

fun last_job :: "miner_frame list \<Rightarrow> bytes option" where
  "last_job [] = None"
| "last_job (Result_Frame code # fs) = last_job fs"
| "last_job (Job_Frame jid st ct nonce block # fs) = (case last_job fs of None \<Rightarrow> Some jid | Some j \<Rightarrow> Some j)"

lemma last_job_append [simp]:
  "last_job (fs @ [Result_Frame code]) = last_job fs"
  "last_job (fs @ [Job_Frame jid st ct nonce block]) = Some jid"
  by (induction fs rule: last_job.induct) simp_all

section \<open>What was sent to a client\<close>

text \<open>
  A connected client was sent complete frames, none before it registered, and the last JOB is the job
  that the server takes it to have. A client that is gone was sent complete frames and at most the front
  of one more.
\<close>

definition stream_ok :: "session \<Rightarrow> bool" where
  "stream_ok c \<longleftrightarrow>
     (\<exists>fs. read_miner_stream (sess_out c) = (fs, []) \<and> list_all frame_ok fs \<and> (\<not> address_registered c \<longrightarrow> fs = []) \<and>
        (has_job c \<longrightarrow> last_job fs = Some (sent_job_id c)))"

definition cut_ok :: "session \<Rightarrow> bool" where
  "cut_ok c \<longleftrightarrow>
     (\<exists>fs q. read_miner_stream (sess_out c) = (fs, q) \<and> list_all frame_ok fs \<and>
        (q \<noteq> [] \<longrightarrow> (\<exists>more f. read_miner_frame (q @ more) = Some (f, []) \<and> frame_ok f)))"

lemma stream_cut: "stream_ok c \<Longrightarrow> cut_ok c"
  by (auto simp: stream_ok_def cut_ok_def)

text \<open>What is sent of one frame.\<close>

lemma sent_part:
  assumes "read_miner_stream (sess_out c) = (fs, [])" "list_all frame_ok fs"
    and "read_miner_frame (q @ r) = Some (f, [])" "frame_ok f" "sess_out c' = sess_out c @ q"
  shows "if r = [] then read_miner_stream (sess_out c') = (fs @ [f], []) else cut_ok c'"
proof (cases "r = []")
  case True
  then show ?thesis
    using read_stream_append [OF assms(1), of q] read_stream_one [of q f] assms(3,5) by simp
next
  case False
  have "read_miner_stream (sess_out c') = (fs, q)"
    using read_stream_append [OF assms(1), of q] read_stream_cut [OF assms(3) False] assms(5) by simp
  then show ?thesis using False assms(2-4) by (auto simp: cut_ok_def)
qed

lemma sent_frame:
  assumes "stream_ok c" "read_miner_frame p = Some (f, [])" "frame_ok f" "p = q @ r" "sess_out c' = sess_out c @ q"
  shows "cut_ok c'"
    and "r = [] \<Longrightarrow> \<exists>fs. read_miner_stream (sess_out c) = (fs, []) \<and> read_miner_stream (sess_out c') = (fs @ [f], []) \<and>
      list_all frame_ok (fs @ [f]) \<and> (has_job c \<longrightarrow> last_job fs = Some (sent_job_id c))"
proof -
  obtain fs where fs: "read_miner_stream (sess_out c) = (fs, [])" "list_all frame_ok fs"
    "has_job c \<longrightarrow> last_job fs = Some (sent_job_id c)"
    using assms(1) by (auto simp: stream_ok_def)
  note part = sent_part [OF fs(1,2) assms(2) [unfolded assms(4)] assms(3,5)]
  then show "r = [] \<Longrightarrow> \<exists>fs. read_miner_stream (sess_out c) = (fs, []) \<and> read_miner_stream (sess_out c') = (fs @ [f], []) \<and>
      list_all frame_ok (fs @ [f]) \<and> (has_job c \<longrightarrow> last_job fs = Some (sent_job_id c))"
    using fs assms(3) by auto
  show "cut_ok c'" using part fs(2) assms(3) by (cases "r = []") (auto simp: cut_ok_def)
qed

lemma sent_result:
  assumes "stream_ok c" "address_registered c" "sess_send c (result_frame code) = (ok, c')"
  shows "if ok then stream_ok c' else cut_ok c'"
proof -
  obtain q r where q: "result_frame code = q @ r" "sess_out c' = sess_out c @ q" "ok \<Longrightarrow> r = []"
    using sess_send_fields(2,3) [OF assms(3)] by (metis append_Nil2 same_append_eq)
  have "frame_ok (Result_Frame (submit_result_code code))"
    by (cases code) (simp_all add: submit_result_code_def)
  note frame = sent_frame [OF assms(1) read_result this q(1,2)]
  have "stream_ok c'" if ok
    using frame(2) [OF q(3) [OF that]] sess_send_simps(4,7,9) [OF assms(3)] assms(2) by (auto simp: stream_ok_def)
  then show ?thesis using frame(1) by simp
qed

lemma job_sends_part:
  assumes "job_sends t n c = (ok, c')"
  shows "\<exists>q r. job_header_spec t n @ bytes_at 68 (n - 68) t = q @ r \<and> sess_out c' = sess_out c @ q \<and> (ok \<longrightarrow> r = [])"
    and "address_registered c' = address_registered c"
proof -
  obtain ok1 c1 where s1: "sess_send c (job_header_spec t n) = (ok1, c1)" by fastforce
  show "address_registered c' = address_registered c"
    using assms s1 by (auto simp: job_sends_def sess_send_simps split: if_splits)
  show "\<exists>q r. job_header_spec t n @ bytes_at 68 (n - 68) t = q @ r \<and> sess_out c' = sess_out c @ q \<and> (ok \<longrightarrow> r = [])"
  proof (cases ok1)
    case True
    then have s2: "sess_send c1 (bytes_at 68 (n - 68) t) = (ok, c')" using assms s1 by (simp add: job_sends_def)
    from sess_send_fields(3) [OF s2] obtain q r where "sess_out c' = sess_out c1 @ q" "bytes_at 68 (n - 68) t = q @ r" by blast
    moreover have "ok \<Longrightarrow> sess_out c' = sess_out c1 @ bytes_at 68 (n - 68) t" by (rule sess_send_fields(2) [OF s2])
    moreover have "sess_out c1 = sess_out c @ job_header_spec t n" using sess_send_fields(2) [OF s1] True by simp
    ultimately show ?thesis by (intro exI [of _ "job_header_spec t n @ q"] exI [of _ r]) auto
  next
    case False
    then have "c' = c1" "\<not> ok" using assms s1 by (auto simp: job_sends_def)
    then show ?thesis using sess_send_fields(3) [OF s1] by auto
  qed
qed

lemma sent_job:
  assumes "stream_ok c" "address_registered c" "236 \<le> n" "n \<le> length t" "n \<le> STN_RPC_CLIENT_MAX_PAYLOAD"
    and "job_sends t n c = (ok, c')"
  shows "if ok then stream_ok (c'\<lparr>sent_job_id := bytes_at 32 32 t, has_job := True\<rparr>) else cut_ok c'"
proof -
  obtain q r where q: "job_header_spec t n @ bytes_at 68 (n - 68) t = q @ r" "sess_out c' = sess_out c @ q" "ok \<longrightarrow> r = []"
    using job_sends_part(1) [OF assms(6)] by blast
  let ?f = "Job_Frame (bytes_at 32 32 t) (job_share_target_from_chain (bytes_at 188 32 t)) (bytes_at 188 32 t)
      (bytes_at 220 8 t) (bytes_at 68 (n - 68) t)"
  have "read_miner_frame (job_header_spec t n @ bytes_at 68 (n - 68) t) = Some (?f, [])"
    using assms(3-5) by (intro read_job) simp_all
  moreover have "frame_ok ?f"
    using assms(3,4) by (simp add: bytes_at_def take_drop min_def)
  ultimately have frame: "cut_ok c'" "r = [] \<Longrightarrow> \<exists>fs. read_miner_stream (sess_out c) = (fs, []) \<and>
      read_miner_stream (sess_out c') = (fs @ [?f], []) \<and> list_all frame_ok (fs @ [?f]) \<and>
      (has_job c \<longrightarrow> last_job fs = Some (sent_job_id c))"
    using sent_frame [OF assms(1) _ _ q(1,2)] by blast+
  have "stream_ok (c'\<lparr>sent_job_id := bytes_at 32 32 t, has_job := True\<rparr>)" if ok
    using frame(2) q(3) that job_sends_part(2) [OF assms(6)] assms(2) by (auto simp: stream_ok_def)
  then show ?thesis using frame(1) by simp
qed

interpretation stream: client_property stream_ok cut_ok
proof unfold_locales
  show "stream_ok c \<Longrightarrow> cut_ok c" for c by (rule stream_cut)
  show "cut_ok c \<Longrightarrow> cut_ok (c\<lparr>sess_socket := fd\<rparr>)" for c fd by (simp add: cut_ok_def)
  show "stream_ok (stn_client_session_init cid ins sends fd mode)" for cid ins sends fd mode
    by (simp add: stream_ok_def stn_client_session_init_def read_stream_nil)
  show "stream_ok c \<Longrightarrow> stream_ok (c\<lparr>rx := b, rx_used := n, sess_in := es\<rparr>)" for c b n es
    by (simp add: stream_ok_def)
  show "stream_ok c \<Longrightarrow> stream_ok (c\<lparr>hashrate := h\<rparr>)" for c h by (simp add: stream_ok_def)
  show "stream_ok c \<Longrightarrow> \<not> address_registered c \<Longrightarrow> stream_ok (c\<lparr>address := a, address_registered := True\<rparr>)" for c a
    by (auto simp: stream_ok_def)
  show "stream_ok c \<Longrightarrow> stream_ok (c\<lparr>has_job := False, hashrate := 0, sent_job_id := replicate 32 0\<rparr>)" for c
    by (auto simp: stream_ok_def)
qed (fact sent_result, fact sent_job)

text \<open>A miner connects while no Chain server answers.\<close>

definition sample_visit :: "accept_event list" where
  "sample_visit = [Accept_Conn 9 True [] []]"

lemma sample_visited:
  "\<exists>s. server_start True (Some sample_config) sample_open sample_open True
      (stn_stratum_server_init (sample_ops None) () [] [] sample_visit []) = (True, s) \<and> running s \<and>
      ids (server_tick s) = [0]"
  apply (simp add: server_start_def Let_def sample_config_def chain_transport_select_def active_chain_def
        listeners_open_def stn_mining_listener_open_def stn_mining_listener_init_def sample_open_def
        clear_work_def clear_client_jobs_def stn_stratum_server_init_def)
  apply (simp add: server_tick_def Let_def accept_clients_def sample_visit_def)
  apply (simp add: accept_from_listener.simps stn_session_acceptor_accept_def stn_mining_listener_accept_def Let_def
      stn_client_mode_init_def stn_client_mode_valid_def stn_client_session_init_def link_client_def)
  apply (simp add: service_clients_def for_clients_def client_of_def service_client_def
      service_pass_def rx_fill.simps upd_client_def Let_def)
  apply (simp add: refresh_work_def stn_rpc_client_mining_template_def rpc_call_def stn_rpc_client_init_def
      rpc_take_id_def sample_ops_def chain_transport_next_def chain_transport_select_def clear_work_def
      clear_client_jobs_def store_template_def Let_def send_pending_jobs_def for_clients_def send_pending_job_def
      client_of_def)
  done

text \<open>
  C5. In every state the started server can reach, the bytes sent to each connected miner read, by
  the layout of the miner protocol header, as complete JOB and RESULT frames with nothing left over;
  nothing was sent before the miner registered its address; every JOB carries the Chain target and the
  initial nonce of its own block and the share target derived from that Chain target; and while the
  server takes the miner to hold a job, the last JOB it was sent has exactly that work id. A client
  that is gone was sent complete frames and at most the front part of one more. So no failed or partial
  send ever leaves a connected miner with a stream it cannot read.
\<close>

theorem miner_stream:
  assumes "server_start log_ok loaded e1 e2 tel (stn_stratum_server_init tops u rmem mem pool solo) = (True, s0)"
    and "reachable s0 s"
  shows "(\<forall>c \<in> set (clients s). stream_ok c) \<and> (\<forall>c \<in> set (released s). cut_ok c)"
proof -
  have "each stream_ok cut_ok s0" using server_start_empty [OF assms(1)] by (simp add: each_def)
  from stream.whole.keeps_reachable [OF assms(2) server_start_ok [OF assms(1)] this] show ?thesis by (simp add: each_def)
qed

theorem miner_stream_witness:
  "\<exists>s c. server_start True (Some sample_config) sample_open sample_open True
      (stn_stratum_server_init (sample_ops None) () [] [] sample_visit []) = (True, s) \<and>
      clients (server_tick s) = [c] \<and> stream_ok c"
proof -
  from sample_visited obtain s where s: "server_start True (Some sample_config) sample_open sample_open True
      (stn_stratum_server_init (sample_ops None) () [] [] sample_visit []) = (True, s)" "running s"
    "ids (server_tick s) = [0]" by (elim exE conjE) (rule that)
  have "reachable s (server_tick s)" by (rule reachable.step [OF reachable.start Tick [OF s(2)]])
  from miner_stream [OF s(1) this] s show ?thesis by auto
qed

end
