(* ===== verification/Pool_Spec.thy ===== *)
theory Pool_Spec
  imports Miner_Stream
begin

text \<open>
  What the mining server promises, without bytes, sockets, buffers, lists or the Chain protocol: a pool
  of miners that hold messages, addresses, jobs and hash rates, and the steps that it may take.
\<close>

section \<open>The pool\<close>

text \<open>A miner: its address once registered, the work id of its job, its hash rate, the messages it was sent.\<close>

record miner =
  mi_address :: "bytes option"
  mi_job :: "bytes option"
  mi_rate :: u64
  mi_seen :: "miner_frame list"

text \<open>The miners by number, the ones that left and what they were sent, the job on offer, the next number.\<close>

record pool =
  po_miners :: "nat \<rightharpoonup> miner"
  po_left :: "(nat \<times> miner_frame list) list"
  po_work :: "miner_frame option"
  po_next :: nat

definition new_miner :: miner where
  "new_miner = \<lparr>mi_address = None, mi_job = None, mi_rate = 0, mi_seen = []\<rparr>"

definition pool_empty :: pool where
  "pool_empty = \<lparr>po_miners = Map.empty, po_left = [], po_work = None, po_next = 0\<rparr>"

definition set_miner :: "nat \<Rightarrow> miner \<Rightarrow> pool \<Rightarrow> pool" where
  "set_miner i m p = p\<lparr>po_miners := (po_miners p)(i \<mapsto> m)\<rparr>"

section \<open>The steps\<close>

text \<open>
  A job goes only to a registered miner and is the one on offer; an answer goes only to a registered
  miner, and ACCEPTED only while work is on offer; a hash rate is credited only for the job on offer; when
  work is lost, every job and every rate is lost with it.
\<close>

inductive pool_step :: "pool \<Rightarrow> pool \<Rightarrow> bool" where
  Connect: "pool_step p ((set_miner (po_next p) new_miner p)\<lparr>po_next := po_next p + 1\<rparr>)"
| Register: "po_miners p i = Some m \<Longrightarrow> mi_address m = None \<Longrightarrow> address_ok (a @ [0]) \<Longrightarrow>
    pool_step p (set_miner i (m\<lparr>mi_address := Some a\<rparr>) p)"
| Offer: "po_miners p i = Some m \<Longrightarrow> mi_address m \<noteq> None \<Longrightarrow> po_work p = Some (Job_Frame jid st ct nonce block) \<Longrightarrow>
    pool_step p (set_miner i (m\<lparr>mi_job := Some jid, mi_seen := mi_seen m @ [Job_Frame jid st ct nonce block]\<rparr>) p)"
| Answer: "po_miners p i = Some m \<Longrightarrow> mi_address m \<noteq> None \<Longrightarrow> code \<le> STN_MINER_RESULT_PROTOCOL \<Longrightarrow>
    code = STN_MINER_RESULT_ACCEPTED \<longrightarrow> po_work p \<noteq> None \<Longrightarrow>
    pool_step p (set_miner i (m\<lparr>mi_seen := mi_seen m @ [Result_Frame code]\<rparr>) p)"
| Credit: "po_miners p i = Some m \<Longrightarrow> po_work p = Some (Job_Frame jid st ct nonce block) \<Longrightarrow> mi_job m = Some jid \<Longrightarrow>
    pool_step p (set_miner i (m\<lparr>mi_rate := r\<rparr>) p)"
| Discredit: "po_miners p i = Some m \<Longrightarrow> pool_step p (set_miner i (m\<lparr>mi_rate := 0\<rparr>) p)"
| Leave: "po_miners p i = Some m \<Longrightarrow>
    pool_step p (p\<lparr>po_miners := (po_miners p)(i := None), po_left := (i, mi_seen m) # po_left p\<rparr>)"
| New_Work: "frame_ok (Job_Frame jid st ct nonce block) \<Longrightarrow>
    pool_step p (p\<lparr>po_work := Some (Job_Frame jid st ct nonce block)\<rparr>)"
| Lose_Work: "pool_step p (p\<lparr>po_work := None,
    po_miners := (\<lambda>i. map_option (\<lambda>m. m\<lparr>mi_job := None, mi_rate := 0\<rparr>) (po_miners p i))\<rparr>)"

inductive_cases pool_stepE: "pool_step p q"

section \<open>What the steps keep\<close>

text \<open>
  A miner without an address was sent nothing and has no job; a job is the last one sent, and there is
  work; a rate needs a job; every message is consistent; a number is never used again.
\<close>

definition miner_ok :: "pool \<Rightarrow> nat \<Rightarrow> miner \<Rightarrow> bool" where
  "miner_ok p i m \<longleftrightarrow> i < po_next p \<and> (mi_address m = None \<longrightarrow> mi_seen m = [] \<and> mi_job m = None) \<and>
     (mi_job m \<noteq> None \<longrightarrow> last_job (mi_seen m) = mi_job m \<and> po_work p \<noteq> None) \<and>
     (mi_rate m \<noteq> 0 \<longrightarrow> mi_job m \<noteq> None) \<and> list_all frame_ok (mi_seen m)"

definition left_ok :: "pool \<Rightarrow> bool" where
  "left_ok p \<longleftrightarrow> distinct (map fst (po_left p)) \<and>
     (\<forall>i fs. (i, fs) \<in> set (po_left p) \<longrightarrow> i < po_next p \<and> po_miners p i = None \<and> list_all frame_ok fs)"

definition pool_ok :: "pool \<Rightarrow> bool" where
  "pool_ok p \<longleftrightarrow> (\<forall>i m. po_miners p i = Some m \<longrightarrow> miner_ok p i m) \<and> (\<forall>f. po_work p = Some f \<longrightarrow> frame_ok f) \<and> left_ok p"

lemma pool_ok_miner: "pool_ok p \<Longrightarrow> po_miners p i = Some m \<Longrightarrow> miner_ok p i m"
  by (simp add: pool_ok_def)

lemma pool_ok_set:
  assumes "pool_ok p" "po_miners p i = Some m" "miner_ok p i m'"
  shows "pool_ok (set_miner i m' p)"
proof -
  have "left_ok (set_miner i m' p)"
    using assms(1,2) unfolding pool_ok_def left_ok_def set_miner_def by fastforce
  moreover have "miner_ok (set_miner i m' p) j n = miner_ok p j n" for j n by (simp add: miner_ok_def set_miner_def)
  ultimately show ?thesis using assms by (simp add: pool_ok_def) (simp add: set_miner_def)
qed

lemma pool_step_ok: "pool_step p q \<Longrightarrow> pool_ok p \<Longrightarrow> pool_ok q"
proof (induction rule: pool_step.induct)
  case (Connect p)
  have "left_ok ((set_miner (po_next p) new_miner p)\<lparr>po_next := po_next p + 1\<rparr>)"
    using Connect unfolding pool_ok_def left_ok_def set_miner_def by fastforce
  then show ?case using Connect by (auto simp: pool_ok_def miner_ok_def set_miner_def new_miner_def less_Suc_eq)
next
  case (Register p i m a)
  have "miner_ok p i (m\<lparr>mi_address := Some a\<rparr>)" using pool_ok_miner [OF Register.prems Register.hyps(1)] Register.hyps by (auto simp: miner_ok_def)
  then show ?case using Register by (intro pool_ok_set)
next
  case (Offer p i m jid st ct nonce block)
  then have "miner_ok p i m" "frame_ok (Job_Frame jid st ct nonce block)" by (auto simp: pool_ok_def)
  then have "miner_ok p i (m\<lparr>mi_job := Some jid, mi_seen := mi_seen m @ [Job_Frame jid st ct nonce block]\<rparr>)"
    using Offer.hyps by (auto simp: miner_ok_def)
  then show ?case using Offer by (intro pool_ok_set)
next
  case (Answer p i m code)
  have "miner_ok p i (m\<lparr>mi_seen := mi_seen m @ [Result_Frame code]\<rparr>)" using pool_ok_miner [OF Answer.prems Answer.hyps(1)] Answer.hyps by (auto simp: miner_ok_def)
  then show ?case using Answer by (intro pool_ok_set)
next
  case (Credit p i m jid st ct nonce block r)
  have "miner_ok p i (m\<lparr>mi_rate := r\<rparr>)" using pool_ok_miner [OF Credit.prems Credit.hyps(1)] Credit.hyps by (auto simp: miner_ok_def)
  then show ?case using Credit by (intro pool_ok_set)
next
  case (Discredit p i m)
  have "miner_ok p i (m\<lparr>mi_rate := 0\<rparr>)" using pool_ok_miner [OF Discredit.prems Discredit.hyps(1)] Discredit.hyps by (auto simp: miner_ok_def)
  then show ?case using Discredit by (intro pool_ok_set)
next
  case (Leave p i m)
  have "miner_ok p i m" using Leave by (simp add: pool_ok_def)
  then have "left_ok (p\<lparr>po_miners := (po_miners p)(i := None), po_left := (i, mi_seen m) # po_left p\<rparr>)"
    using Leave unfolding pool_ok_def left_ok_def miner_ok_def by fastforce
  then show ?case using Leave by (simp add: pool_ok_def miner_ok_def)
next
  case (New_Work jid st ct nonce block p)
  then show ?case by (auto simp: pool_ok_def miner_ok_def left_ok_def)
next
  case (Lose_Work p)
  have "left_ok (p\<lparr>po_work := None, po_miners := (\<lambda>i. map_option (\<lambda>m. m\<lparr>mi_job := None, mi_rate := 0\<rparr>) (po_miners p i))\<rparr>)"
    using Lose_Work unfolding pool_ok_def left_ok_def by simp
  then show ?case using Lose_Work by (auto simp: pool_ok_def miner_ok_def)
qed

lemma pool_steps_ok: "pool_step\<^sup>*\<^sup>* p q \<Longrightarrow> pool_ok p \<Longrightarrow> pool_ok q"
  by (induction rule: rtranclp_induct) (auto intro: pool_step_ok)

lemma pool_empty_ok: "pool_ok pool_empty"
  by (simp add: pool_ok_def pool_empty_def left_ok_def)

end
