(* ===== verification/Server_Refines.thy ===== *)
theory Server_Refines
  imports Pool_Spec
begin

text \<open>
  The server implements the pool: reading what was sent to its clients, and forgetting sockets, buffers,
  the list, the allocator and the Chain protocol, every step of the server is a run of steps of the pool.
\<close>

section \<open>The abstraction\<close>

definition frames_of :: "session \<Rightarrow> miner_frame list" where
  "frames_of c = fst (read_miner_stream (sess_out c))"

definition miner_of :: "session \<Rightarrow> miner" where
  "miner_of c =
     \<lparr>mi_address = (if address_registered c then Some (take 69 (address c)) else None),
      mi_job = (if has_job c then Some (sent_job_id c) else None),
      mi_rate = hashrate c, mi_seen = frames_of c\<rparr>"

definition job_of :: "bytes \<Rightarrow> nat \<Rightarrow> miner_frame" where
  "job_of t n = Job_Frame (bytes_at 32 32 t) (job_share_target_from_chain (bytes_at 188 32 t)) (bytes_at 188 32 t)
     (bytes_at 220 8 t) (bytes_at 68 (n - 68) t)"

definition pool_of :: "'u server \<Rightarrow> pool" where
  "pool_of s =
     \<lparr>po_miners = (\<lambda>i. map_option miner_of (client_of s i)),
      po_left = map (\<lambda>c. (sess_id c, frames_of c)) (released s),
      po_work = (if have_work s then Some (job_of (active_template s) (active_template_length s)) else None),
      po_next = next_cid s\<rparr>"

lemma pool_of_fields [simp]:
  "po_miners (pool_of s) i = map_option miner_of (client_of s i)" "po_next (pool_of s) = next_cid s"
  "po_work (pool_of s) = (if have_work s then Some (job_of (active_template s) (active_template_length s)) else None)"
  by (simp_all add: pool_of_def)

lemma client_id: "client_of s cid = Some c \<Longrightarrow> sess_id c = cid"
  using client_of_Some by blast

lemma pool_of_upd:
  assumes "client_of s cid = Some c" "sess_id c' = cid"
  shows "pool_of (upd_client cid c' s) = set_miner cid (miner_of c') (pool_of s)"
proof -
  have "cid \<in> set (ids s)" using assms(1) client_of_None [of s cid] by auto
  then have "client_of (upd_client cid c' s) i = (if i = cid then Some c' else client_of s i)" for i
    using assms(2) by (simp add: client_of_upd)
  then show ?thesis by (auto simp: pool_of_def set_miner_def fun_eq_iff)
qed

lemma pool_of_remove:
  assumes "client_of s cid = Some c" "distinct (ids s)"
  shows "pool_of (client_remove s cid) =
    (pool_of s)\<lparr>po_miners := (po_miners (pool_of s))(cid := None), po_left := (cid, frames_of c) # po_left (pool_of s)\<rparr>"
proof -
  have "find (\<lambda>c. sess_id c = i) (unlink cid cs) = (if i = cid then None else find (\<lambda>c. sess_id c = i) cs)"
    if "distinct (map sess_id cs)" for i cs
    using that by (induction cs) (auto simp: find_None_iff image_iff)
  then have "client_of (client_remove s cid) i = (if i = cid then None else client_of s i)" for i
    using assms(2) by (simp add: client_of_def clients_remove)
  moreover have "map (\<lambda>c. (sess_id c, frames_of c)) (released (client_remove s cid)) =
      (cid, frames_of c) # map (\<lambda>c. (sess_id c, frames_of c)) (released s)"
    using client_id [OF assms(1)]
    by (simp add: client_remove_def assms(1) stn_session_acceptor_release_def frames_of_def)
  ultimately show ?thesis by (auto simp: pool_of_def fun_eq_iff)
qed

section \<open>What is sent\<close>

text \<open>The front of a frame adds nothing that can be read, the whole frame itself.\<close>

lemma frames_sent:
  assumes "stream_ok c" "read_miner_frame p = Some (f, [])" "p = q @ r" "sess_out c' = sess_out c @ q"
  shows "frames_of c' = frames_of c @ (if r = [] then [f] else [])"
proof -
  obtain fs where fs: "read_miner_stream (sess_out c) = (fs, [])" using assms(1) by (auto simp: stream_ok_def)
  show ?thesis
  proof (cases "r = []")
    case True
    then show ?thesis
      using read_stream_append [OF fs, of q] read_stream_one [of q f] assms(2-4) fs by (simp add: frames_of_def)
  next
    case False
    then show ?thesis
      using read_stream_append [OF fs, of q] read_stream_cut [OF assms(2) [unfolded assms(3)] False] assms(4) fs
      by (simp add: frames_of_def)
  qed
qed

lemma frames_result:
  assumes "stream_ok c" "sess_send c (result_frame code) = (ok, c')"
  shows "frames_of c' = frames_of c \<and> \<not> ok \<or> frames_of c' = frames_of c @ [Result_Frame (submit_result_code code)]"
proof -
  obtain q r where q: "result_frame code = q @ r" "sess_out c' = sess_out c @ q" "ok \<Longrightarrow> r = []"
    using sess_send_fields(2,3) [OF assms(2)] by (metis append_Nil2 same_append_eq)
  from frames_sent [OF assms(1) read_result q(1,2)] q(3) show ?thesis by (auto split: if_splits)
qed

lemma frames_job:
  assumes "stream_ok c" "236 \<le> n" "n \<le> length t" "n \<le> STN_RPC_CLIENT_MAX_PAYLOAD" "job_sends t n c = (ok, c')"
  shows "frames_of c' = frames_of c \<and> \<not> ok \<or> frames_of c' = frames_of c @ [job_of t n]"
proof -
  obtain q r where q: "job_header_spec t n @ bytes_at 68 (n - 68) t = q @ r" "sess_out c' = sess_out c @ q" "ok \<longrightarrow> r = []"
    using job_sends_part(1) [OF assms(5)] by blast
  have "read_miner_frame (job_header_spec t n @ bytes_at 68 (n - 68) t) = Some (job_of t n, [])"
    unfolding job_of_def using assms(2-4) by (intro read_job) simp_all
  from frames_sent [OF assms(1) this q(1,2)] q(3) show ?thesis by (auto split: if_splits)
qed

text \<open>A job on offer is a consistent one.\<close>

lemma job_of_ok: "236 \<le> n \<Longrightarrow> n \<le> length t \<Longrightarrow> frame_ok (job_of t n)"
  by (simp add: job_of_def bytes_at_def take_drop min_def)

section \<open>The simulation\<close>

definition simulates :: "pool \<Rightarrow> 'u server \<Rightarrow> bool" where
  "simulates p s \<longleftrightarrow> each stream_ok cut_ok s \<and> pool_step\<^sup>*\<^sup>* p (pool_of s)"

lemma simulates_trans: "simulates p s \<Longrightarrow> each stream_ok cut_ok t \<Longrightarrow> pool_step\<^sup>*\<^sup>* (pool_of s) (pool_of t) \<Longrightarrow> simulates p t"
  by (auto simp: simulates_def)

lemma set_miner_same: "po_miners p i = Some m \<Longrightarrow> set_miner i m p = p"
  by (simp add: set_miner_def fun_upd_idem)

text \<open>A client that got a message, or only the front of one, and stays or is removed.\<close>

lemma simulated_stay:
  assumes "client_of s cid = Some c" "sess_id c' = cid"
    and "miner_of c' = miner_of c \<or> pool_step (pool_of s) (set_miner cid (miner_of c') (pool_of s))"
  shows "pool_step\<^sup>*\<^sup>* (pool_of s) (pool_of (upd_client cid c' s))"
proof -
  have "set_miner cid (miner_of c) (pool_of s) = pool_of s" using assms(1) by (intro set_miner_same) simp
  then show ?thesis using assms(3) unfolding pool_of_upd [OF assms(1,2)] by auto
qed

lemma simulated_leave:
  assumes "client_of s cid = Some c" "sess_id c' = cid" "distinct (ids s)" "mi_seen m = frames_of c'"
    and "m = miner_of c \<or> pool_step (pool_of s) (set_miner cid m (pool_of s))"
  shows "pool_step\<^sup>*\<^sup>* (pool_of s) (pool_of (client_remove (upd_client cid c' s) cid))"
proof -
  let ?p = "set_miner cid m (pool_of s)"
  have "set_miner cid (miner_of c) (pool_of s) = pool_of s" using assms(1) by (intro set_miner_same) simp
  then have start: "pool_step\<^sup>*\<^sup>* (pool_of s) ?p" using assms(5) by auto
  have "cid \<in> set (ids s)" using assms(1) client_of_None [of s cid] by auto
  then have t: "client_of (upd_client cid c' s) cid = Some c'" using assms(2) by (simp add: client_of_upd)
  have "po_miners ?p cid = Some m" by (simp add: set_miner_def)
  from Leave [OF this] have "pool_step ?p (pool_of (client_remove (upd_client cid c' s) cid))"
    using pool_of_remove [OF t] assms(2-4) pool_of_upd [OF assms(1,2)] by (simp add: set_miner_def)
  with start show ?thesis by (rule rtranclp.rtrancl_into_rtrancl)
qed

lemma simulated_result:
  assumes "each stream_ok cut_ok s" "distinct (ids s)" "client_of s cid = Some c" "address_registered c"
    and "code = STN_RPC_CLIENT_OK \<longrightarrow> have_work s"
  shows "pool_step\<^sup>*\<^sup>* (pool_of s) (pool_of (client_send_result s cid code))"
proof -
  obtain ok c' where snd: "sess_send c (result_frame code) = (ok, c')" by fastforce
  have c': "c' = c\<lparr>sess_sends := sess_sends c', sess_out := sess_out c'\<rparr>" by (rule sess_send_fields(1) [OF snd])
  let ?code = "submit_result_code code"
  have ok_code: "?code \<le> STN_MINER_RESULT_PROTOCOL" "?code = STN_MINER_RESULT_ACCEPTED \<longrightarrow> code = STN_RPC_CLIENT_OK"
    by (cases code; simp add: submit_result_code_def)+
  have same: "miner_of c' = (miner_of c)\<lparr>mi_seen := frames_of c'\<rparr>" by (subst c', subst (2) c') (simp add: miner_of_def frames_of_def)
  have "pool_step (pool_of s) (set_miner cid ((miner_of c)\<lparr>mi_seen := mi_seen (miner_of c) @ [Result_Frame ?code]\<rparr>) (pool_of s))"
    using assms(3-5) ok_code by (intro Answer) (auto simp: miner_of_def)
  moreover have "frames_of c' = frames_of c \<or> frames_of c' = frames_of c @ [Result_Frame ?code]"
    using frames_result [OF stream.each_client [OF assms(1,3)] snd] by blast
  ultimately have step: "miner_of c' = miner_of c \<or> pool_step (pool_of s) (set_miner cid (miner_of c') (pool_of s))"
    unfolding same by (auto simp: miner_of_def)
  have "sess_id c' = cid" using sess_send_simps(2) [OF snd] client_id [OF assms(3)] by simp
  note sent = simulated_stay [OF assms(3) this step] simulated_leave [OF assms(3) this assms(2) _ step]
  then show ?thesis by (simp add: client_send_result_def assms(3) snd miner_of_def)
qed

lemma simulated_job:
  assumes "each stream_ok cut_ok s" "srv_ok s" "client_of s cid = Some c" "address_registered c"
  shows "pool_step\<^sup>*\<^sup>* (pool_of s) (pool_of (snd (client_send_job s cid)))"
proof (cases "have_work s")
  case True
  let ?t = "active_template s" and ?n = "active_template_length s"
  have n: "236 \<le> ?n" "?n \<le> length ?t" "?n \<le> STN_RPC_CLIENT_MAX_PAYLOAD" "active_job_id s = bytes_at 32 32 ?t"
    using assms(2) True by (auto simp: srv_ok_def work_ok_def)
  obtain ok c' where sends: "job_sends ?t ?n c = (ok, c')" by fastforce
  let ?c = "c'\<lparr>sent_job_id := active_job_id s, has_job := True\<rparr>"
  have frames: "frames_of c' = frames_of c \<and> \<not> ok \<or> frames_of c' = frames_of c @ [job_of ?t ?n]"
    by (rule frames_job [OF stream.each_client [OF assms(1,3)] n(1-3) sends])
  have c': "c' = c\<lparr>sess_sends := sess_sends c', sess_out := sess_out c'\<rparr>" by (rule job_sends_fields [OF sends])
  have fields: "sess_id c' = cid" "address_registered c' = address_registered c" "address c' = address c"
    "has_job c' = has_job c" "sent_job_id c' = sent_job_id c" "hashrate c' = hashrate c"
    using client_id [OF assms(3)] by (subst c', simp)+
  let ?J = "job_of ?t ?n"
  have offer: "pool_step (pool_of s) (set_miner cid ((miner_of c)\<lparr>mi_job := Some (active_job_id s),
      mi_seen := mi_seen (miner_of c) @ [?J]\<rparr>) (pool_of s))"
    using assms(3,4) True n(4) by (simp add: job_of_def) (rule Offer; simp add: job_of_def miner_of_def)
  have whole: "pool_step\<^sup>*\<^sup>* (pool_of s) (pool_of (upd_client cid ?c s))" if ok
  proof -
    have "miner_of ?c = (miner_of c)\<lparr>mi_job := Some (active_job_id s), mi_seen := mi_seen (miner_of c) @ [?J]\<rparr>"
      using frames that fields by (simp add: miner_of_def frames_of_def)
    then show ?thesis using offer pool_of_upd [OF assms(3), of ?c] fields(1) by auto
  qed
  have part: "pool_step\<^sup>*\<^sup>* (pool_of s) (pool_of (client_remove (upd_client cid c' s) cid))"
  proof (cases "frames_of c' = frames_of c")
    case True
    then show ?thesis
      by (intro simulated_leave [OF assms(3) fields(1) srv_ok_distinct [OF assms(2)], of "miner_of c"]) (simp_all add: miner_of_def)
  next
    case False
    then have "mi_seen (miner_of c) @ [?J] = frames_of c'" using frames by (auto simp: miner_of_def)
    then show ?thesis
      using offer by (intro simulated_leave [OF assms(3) fields(1) srv_ok_distinct [OF assms(2)] _ disjI2 [OF offer]]) simp
  qed
  show ?thesis
    unfolding client_send_job_eq [OF assms(2) True assms(3) sends] using whole part by simp
qed (simp add: client_send_job_def)

lemma simulated_link:
  "pool_step (pool_of s) (pool_of (link_client s (stn_client_session_init (next_cid s) ins sends fd mode)))"
proof -
  let ?t = "link_client s (stn_client_session_init (next_cid s) ins sends fd mode)"
  have "miner_of (stn_client_session_init (next_cid s) ins sends fd mode) = new_miner"
    by (simp add: miner_of_def frames_of_def stn_client_session_init_def new_miner_def read_stream_nil)
  moreover have "client_of ?t i = (if i = next_cid s then Some (stn_client_session_init (next_cid s) ins sends fd mode)
      else client_of s i)" for i
    by (simp add: client_of_def link_client_def stn_client_session_init_def)
  ultimately have "pool_of ?t = (set_miner (po_next (pool_of s)) new_miner (pool_of s))\<lparr>po_next := po_next (pool_of s) + 1\<rparr>"
    by (simp add: pool_of_def set_miner_def fun_eq_iff) (simp add: link_client_def)
  then show ?thesis using Connect [of "pool_of s"] by simp
qed

lemma simulated_clear: "pool_step (pool_of s) (pool_of (clear_work s))"
proof -
  let ?f = "\<lambda>c. c\<lparr>has_job := False, hashrate := 0, sent_job_id := replicate 32 0\<rparr>"
  have miner: "miner_of (?f c) = (miner_of c)\<lparr>mi_job := None, mi_rate := 0\<rparr>" for c
    by (simp add: miner_of_def frames_of_def cong: if_cong)
  have "find (\<lambda>c. sess_id c = i) (map ?f cs) = map_option ?f (find (\<lambda>c. sess_id c = i) cs)" for i cs
    by (induction cs) auto
  then have "client_of (clear_work s) i = map_option ?f (client_of s i)" for i
    by (simp add: client_of_def clear_work_def clear_client_jobs_def)
  then have "pool_of (clear_work s) = (pool_of s)\<lparr>po_work := None,
      po_miners := (\<lambda>i. map_option (\<lambda>m. m\<lparr>mi_job := None, mi_rate := 0\<rparr>) (po_miners (pool_of s) i))\<rparr>"
    by (simp add: pool_of_def option.map_comp comp_def miner) (simp add: clear_work_def clear_client_jobs_def)
  then show ?thesis by (simp only: Lose_Work)
qed

lemma simulated_template:
  assumes "srv_ok (with_template s p)"
  shows "pool_step (pool_of s) (pool_of (with_template s p))"
proof -
  let ?t = "with_template s p"
  have "have_work ?t" by (simp add: with_template_def)
  then have "frame_ok (job_of (active_template ?t) (active_template_length ?t))"
    using assms by (intro job_of_ok) (auto simp: srv_ok_def work_ok_def)
  moreover have "pool_of ?t = (pool_of s)\<lparr>po_work := Some (job_of (active_template ?t) (active_template_length ?t))\<rparr>"
    by (simp add: pool_of_def with_template_def client_of_def)
  ultimately show ?thesis unfolding job_of_def using New_Work by metis
qed

lemma simulated_remove:
  assumes "client_of s cid = Some c" "distinct (ids s)"
  shows "pool_step (pool_of s) (pool_of (client_remove s cid))"
  using Leave [of "pool_of s" cid "miner_of c"] assms by (simp add: pool_of_remove [OF assms] miner_of_def)

lemma simulated_rate:
  assumes "srv_ok s" "client_of s cid = Some c" "h \<noteq> 0 \<longrightarrow> have_work s \<and> has_job c \<and> sent_job_id c = active_job_id s"
  shows "pool_step (pool_of s) (pool_of (upd_client cid (c\<lparr>hashrate := h\<rparr>) s))"
proof -
  let ?p = "pool_of s"
  have miner: "po_miners ?p cid = Some (miner_of c)" using assms(2) by simp
  have "pool_step ?p (set_miner cid ((miner_of c)\<lparr>mi_rate := h\<rparr>) ?p)"
  proof (cases "h = 0")
    case True
    then show ?thesis using Discredit [OF miner] by simp
  next
    case False
    let ?t = "active_template s"
    have h: "have_work s" "has_job c" "sent_job_id c = active_job_id s" using False assms(3) by auto
    then have "active_job_id s = bytes_at 32 32 ?t" using assms(1) by (auto simp: srv_ok_def work_ok_def)
    then have "mi_job (miner_of c) = Some (bytes_at 32 32 ?t)" using h by (simp add: miner_of_def)
    moreover have "po_work ?p = Some (job_of ?t (active_template_length s))" using h(1) by simp
    ultimately show ?thesis unfolding job_of_def using Credit [OF miner] by blast
  qed
  moreover have "miner_of (c\<lparr>hashrate := h\<rparr>) = (miner_of c)\<lparr>mi_rate := h\<rparr>" by (simp add: miner_of_def frames_of_def)
  ultimately show ?thesis using pool_of_upd [OF assms(2), of "c\<lparr>hashrate := h\<rparr>"] client_id [OF assms(2)] by simp
qed

lemma simulated_address:
  assumes "client_of s cid = Some c" "\<not> address_registered c" "address_ok a"
  shows "pool_step (pool_of s) (pool_of (upd_client cid (c\<lparr>address := a, address_registered := True\<rparr>) s))"
proof -
  let ?c = "c\<lparr>address := a, address_registered := True\<rparr>"
  have "length a = 70" "a ! 69 = 0" using assms(3) by (simp_all add: address_ok_def)
  then have "take 69 a @ [0] = a" using take_Suc_conv_app_nth [of 69 a] by simp
  then have "address_ok (take 69 a @ [0])" using assms(3) by simp
  moreover have "miner_of ?c = (miner_of c)\<lparr>mi_address := Some (take 69 a)\<rparr>" by (simp add: miner_of_def frames_of_def)
  moreover have "mi_address (miner_of c) = None" using assms(2) by (simp add: miner_of_def)
  ultimately have "pool_step (pool_of s) (set_miner cid (miner_of ?c) (pool_of s))"
    using assms(1) by (simp add: Register)
  then show ?thesis using pool_of_upd [OF assms(1), of ?c] client_id [OF assms(1)] by simp
qed

text \<open>Reading a socket is not seen.\<close>

lemma simulated_buffer:
  assumes "client_of s cid = Some c"
  shows "pool_of (upd_client cid (c\<lparr>rx := b, rx_used := n, sess_in := es\<rparr>) s) = pool_of s"
proof -
  let ?c = "c\<lparr>rx := b, rx_used := n, sess_in := es\<rparr>"
  have "miner_of ?c = miner_of c" by (simp add: miner_of_def frames_of_def)
  then have "pool_of (upd_client cid ?c s) = set_miner cid (miner_of c) (pool_of s)"
    using pool_of_upd [OF assms, of ?c] client_id [OF assms] by simp
  also have "\<dots> = pool_of s" using assms by (intro set_miner_same) simp
  finally show ?thesis .
qed

interpretation pool: server_property "simulates p" for p
proof unfold_locales
  fix s t :: "'a server"
  assume s: "simulates p s"
  have each: "each stream_ok cut_ok s" using s by (simp add: simulates_def)
  note run = simulates_trans [OF s]
  have step: "simulates p u" if "each stream_ok cut_ok u" "pool_step (pool_of s) (pool_of u)" for u :: "'a server"
    using run [OF that(1)] that(2) by blast
  show "simulates p t" if "clients t = clients s" "released t = released s" "next_cid t = next_cid s"
    "have_work t = have_work s" "active_template t = active_template s" "active_template_length t = active_template_length s"
  proof -
    have "pool_of t = pool_of s" using that by (simp add: pool_of_def client_of_def)
    then show ?thesis using s that by (simp add: simulates_def each_def)
  qed
  show "simulates p (link_client s (stn_client_session_init (next_cid s) ins sends fd mode))" if "srv_ok s" for ins sends fd mode
    by (rule step [OF stream.whole.link [OF each that] simulated_link])
  show "simulates p (upd_client cid (c\<lparr>rx := b, rx_used := n, sess_in := es\<rparr>) s)" if "client_of s cid = Some c" for cid c b n es
    using run [OF stream.whole.buffer [OF each that]] simulated_buffer [OF that] by simp
  show "simulates p (upd_client cid (c\<lparr>hashrate := h\<rparr>) s)" if "srv_ok s" "client_of s cid = Some c"
    "h \<noteq> 0 \<longrightarrow> have_work s \<and> has_job c \<and> sent_job_id c = active_job_id s" for cid c h
    by (rule step [OF stream.whole.rate [OF each that] simulated_rate [OF that]])
  show "simulates p (upd_client cid (c\<lparr>address := a, address_registered := True\<rparr>) s)" if "srv_ok s" "client_of s cid = Some c"
    "\<not> address_registered c" "address_ok a" for cid c a
    by (rule step [OF stream.whole.registered [OF each that] simulated_address [OF that(2-4)]])
  show "simulates p (client_remove s cid)" if "distinct (ids s)" for cid
  proof (cases "client_of s cid")
    case (Some c)
    show ?thesis by (rule step [OF stream.whole.remove [OF each that] simulated_remove [OF Some that]])
  qed (simp add: client_remove_def s)
  show "simulates p (s\<lparr>chain_rpc := rpc\<rparr>)" for rpc
  proof -
    have "pool_of (s\<lparr>chain_rpc := rpc\<rparr>) = pool_of s" by (simp add: pool_of_def client_of_def)
    then show ?thesis using s by (simp add: simulates_def each_def)
  qed
  show "simulates p (snd (chain_transport_select s i))" for i
  proof -
    have "pool_of (snd (chain_transport_select s i)) = (if i < length (chain_config s) then pool_of (clear_work s) else pool_of s)"
      by (simp add: chain_transport_select_def Let_def pool_of_def client_of_def)
    then have "pool_step\<^sup>*\<^sup>* (pool_of s) (pool_of (snd (chain_transport_select s i)))"
      using simulated_clear [of s] by auto
    then show ?thesis by (rule run [OF stream.whole.select [OF each]])
  qed
  show "simulates p (clear_work s)" by (rule step [OF stream.whole.clear [OF each] simulated_clear])
  show "simulates p (with_template s q)" if "srv_ok (with_template s q)" for q
    by (rule step [OF stream.whole.template [OF each that] simulated_template [OF that]])
  show "simulates p (client_send_result s cid code)" if "distinct (ids s)" "client_of s cid = Some c"
    "address_registered c" "code = STN_RPC_CLIENT_OK \<longrightarrow> have_work s" for cid c code
    by (rule run [OF stream.whole.result [OF each that] simulated_result [OF each that]])
  show "simulates p (snd (client_send_job s cid))" if "srv_ok s" "client_of s cid = Some c" "address_registered c" for cid c
    by (rule run [OF stream.whole.job [OF each that] simulated_job [OF each that]])
qed

section \<open>The refinement\<close>

lemma pool_of_start:
  assumes "server_start log_ok loaded e1 e2 tel (stn_stratum_server_init tops u rmem mem pool solo) = (True, s)"
  shows "pool_of s = pool_empty"
proof -
  from server_start_parts [OF assms] obtain cfg c ok where parts: "cfg \<noteq> []" "listeners_open e1 e2 c = (ok, s)"
    "chain_transport_select ((stn_stratum_server_init tops u rmem mem pool solo)
       \<lparr>chain_config := cfg, active_chain_server := 0\<rparr>) 0 = (True, c)" by blast
  have "\<not> have_work c" "next_cid c = 0"
    using parts(1,3) by (auto simp: chain_transport_select_def Let_def stn_stratum_server_init_def clear_work_def
        clear_client_jobs_def)
  then have "\<not> have_work s" "next_cid s = 0"
    using parts(2) by (auto simp: listeners_open_def Let_def split: prod.splits if_splits)
  then show ?thesis
    using server_start_empty [OF assms] by (simp add: pool_of_def pool_empty_def client_of_def)
qed

text \<open>
  C6. The server refines the pool of miners. Whatever the miners, the Chain, the allocator and the
  sockets do, the server started from the initial state shows, when what it sent is read by the miner
  protocol, a run of the pool from the empty pool, and each iteration of its main loop is a run of pool steps:
  miners connect under fresh numbers, register a well-formed address once, are offered exactly the job on
  offer and only when registered, are answered only when registered and ACCEPTED only while there is work,
  get a hash rate only for the job on offer, leave with what they were sent, and lose job and rate when the work
  is lost. So what the pool keeps holds of the server: a miner that is taken to hold a job was sent that job
  last, and no number is used twice.
\<close>

theorem server_refines_pool:
  assumes "server_start log_ok loaded e1 e2 tel (stn_stratum_server_init tops u rmem mem pool solo) = (True, s0)"
    and "reachable s0 s" and "server_step s t"
  shows "pool_step\<^sup>*\<^sup>* pool_empty (pool_of s) \<and> pool_step\<^sup>*\<^sup>* (pool_of s) (pool_of t) \<and> pool_ok (pool_of t)"
proof -
  have start: "srv_ok s0" "each stream_ok cut_ok s0"
    using server_start_ok [OF assms(1)] server_start_empty [OF assms(1)] by (simp_all add: each_def)
  have "simulates pool_empty s0" using start(2) pool_of_start [OF assms(1)] by (simp add: simulates_def)
  then have run: "simulates pool_empty s" by (rule pool.keeps_reachable [OF assms(2) start(1)])
  then have "simulates (pool_of s) s" by (simp add: simulates_def)
  then have "simulates (pool_of s) t" by (rule pool.keeps_step [OF assms(3) reachable_ok [OF assms(2) start(1)]])
  then have "pool_step\<^sup>*\<^sup>* (pool_of s) (pool_of t)" "pool_step\<^sup>*\<^sup>* pool_empty (pool_of s)"
    using run by (simp_all add: simulates_def)
  then show ?thesis using pool_steps_ok [OF rtranclp_trans pool_empty_ok] by blast
qed

theorem server_refines_pool_witness:
  "\<exists>s. server_start True (Some sample_config) sample_open sample_open True
      (stn_stratum_server_init (sample_ops None) () [] [] sample_visit []) = (True, s) \<and>
      pool_step\<^sup>*\<^sup>* pool_empty (pool_of (server_tick s)) \<and> po_miners (pool_of (server_tick s)) 0 \<noteq> None"
proof -
  from sample_visited obtain s where s: "server_start True (Some sample_config) sample_open sample_open True
      (stn_stratum_server_init (sample_ops None) () [] [] sample_visit []) = (True, s)" "running s"
    "ids (server_tick s) = [0]" by (elim exE conjE) (rule that)
  have "po_miners (pool_of (server_tick s)) 0 \<noteq> None"
    using s(3) client_of_None [of "server_tick s" 0] by simp
  with server_refines_pool [OF s(1) reachable.start Tick [OF s(2)]] s(1) show ?thesis
    using rtranclp_trans by fast
qed

end
