(* ===== verification/Chain_Requests.thy ===== *)
theory Chain_Requests
  imports Server_Keeps Rpc_Transport
begin

text \<open>
  The server over the transport for Linux: what it puts on its connections to the Chain servers.
\<close>

section \<open>The server and its transport\<close>

text \<open>
  The server with the transport for Linux, whose memory is cleared like the rest of the server: its
  socket is 0.
\<close>

definition linux_ops :: "transport transport_ops" where
  "linux_ops = \<lparr>op_init = stn_rpc_linux_init, op_close = stn_rpc_linux_close, op_exchange = stn_rpc_linux_exchange\<rparr>"

definition zero_transport :: "addr_event list option list \<Rightarrow> transport" where
  "zero_transport resolve =
     \<lparr>tp_host = None, tp_port = 0, tp_socket = 0, tp_winsock = False, tp_in = [], tp_sends = [], tp_resolve = resolve,
      tp_wsa = [], tp_closed = [], tp_wire = []\<rparr>"

section \<open>One request\<close>

text \<open>A request of the server, in the frame of the RPC protocol, of which at most all bytes were sent.\<close>

definition request_sent :: "bytes \<times> nat \<Rightarrow> bool" where
  "request_sent w \<longleftrightarrow> snd w \<le> length (fst w) \<and> (\<exists>m i q. fst w = rpc_frame 1 m 0 i q \<and> chain_request m q)"

text \<open>Over an open connection the last request was sent in full.\<close>

definition wire_ok :: "transport \<Rightarrow> bool" where
  "wire_ok t \<longleftrightarrow> list_all request_sent (tp_wire t) \<and>
     (tp_socket t \<noteq> STN_INVALID_SOCKET \<and> tp_wire t \<noteq> [] \<longrightarrow> snd (last (tp_wire t)) = length (fst (last (tp_wire t))))"

lemma wire_ok_drop: "wire_ok t \<Longrightarrow> wire_ok (drop_socket t)"
  by (simp add: wire_ok_def)

lemma wire_ok_in: "wire_ok (t\<lparr>tp_in := es\<rparr>) = wire_ok t"
  by (simp add: wire_ok_def)

text \<open>The part of a request that was sent; a request sent in part drops the connection.\<close>

lemma tp_send_ok:
  assumes "tp_send send_all t request = (ok, u)" "list_all request_sent (tp_wire t)" "\<And>k. k \<le> length request \<Longrightarrow> request_sent (request, k)"
  shows "if ok then wire_ok u else list_all request_sent (tp_wire u)"
proof -
  obtain es out where out: "send_all (tp_sends t) request = (ok, es, out)"
    "u = t\<lparr>tp_sends := es, tp_wire := tp_wire t @ [(request, length out)]\<rparr>"
    using assms(1) by (auto simp: tp_send_def split: prod.splits)
  then have "length out \<le> length request" "ok \<Longrightarrow> out = request"
    using send_all_prefix [OF out(1)] by auto
  then show ?thesis using out(2) assms(2,3) by (simp add: wire_ok_def)
qed

lemma once_wire:
  assumes "exchange_once t request cap = (t', r)" "wire_ok t" "\<And>k. k \<le> length request \<Longrightarrow> request_sent (request, k)"
  shows "wire_ok t'"
proof -
  obtain ok1 t1 where c: "connect_socket t = (ok1, t1)" by fastforce
  have t1: "list_all request_sent (tp_wire t1)" using connect_socket_wire [OF c] assms(2) by (simp add: wire_ok_def)
  obtain ok2 t2 where s: "tp_send send_all t1 request = (ok2, t2)" by fastforce
  note sent = tp_send_ok [OF s t1 assms(3)]
  show ?thesis
  proof (cases "ok1 \<and> ok2")
    case False
    then show ?thesis
      using assms(1) c s sent t1 connect_socket_False [of t t1]
      by (auto simp: exchange_once_def exchange_with_def wire_ok_def split: if_splits)
  next
    case True
    then have "wire_ok t2" using sent by simp
    then show ?thesis
      using assms(1) c s True
      by (auto simp: exchange_once_def exchange_with_def tp_recv_def Let_def wire_ok_drop wire_ok_in split: if_splits prod.splits)
  qed
qed

lemma linux_wire:
  assumes "stn_rpc_linux_exchange t request cap = (t', r)" "wire_ok t" "\<And>k. k \<le> length request \<Longrightarrow> request_sent (request, k)"
  shows "wire_ok t'"
proof -
  obtain t1 r1 where one: "exchange_once t request cap = (t1, r1)" by fastforce
  have t1: "wire_ok t1" by (rule once_wire [OF one assms(2,3)])
  obtain t2 r2 where two: "exchange_once t1 request cap = (t2, r2)" by fastforce
  have "wire_ok t2" by (rule once_wire [OF two t1 assms(3)])
  then show ?thesis
    using assms(1,2) one two t1 by (auto simp: stn_rpc_linux_exchange_def split: if_splits option.splits)
qed

text \<open>A call makes one exchange at most.\<close>

lemma rpc_call_user:
  assumes "rpc_call c m payload n cap = (c', code, p)" "rc_exchange c = Some ex"
  shows "transport_user c' = transport_user c \<or>
    (\<exists>i k r. ex (transport_user c) (rpc_request m i (case payload of None \<Rightarrow> [] | Some q \<Rightarrow> q) n) k = (transport_user c', r))"
  using assms
  by (auto simp: rpc_call_def rpc_take_id_eq Let_def split: prod.splits if_splits option.splits)

section \<open>The whole server\<close>

definition linux_server_ok :: "transport server \<Rightarrow> bool" where
  "linux_server_ok s \<longleftrightarrow> ops s = linux_ops \<and> wire_ok (transport_user (chain_rpc s))"

lemma result_rpc: "chain_rpc (client_send_result s cid code) = chain_rpc s \<and> ops (client_send_result s cid code) = ops s"
  by (simp add: client_send_result_def split: option.split prod.split)

lemma job_rpc: "chain_rpc (snd (client_send_job s cid)) = chain_rpc s \<and> ops (snd (client_send_job s cid)) = ops s"
  by (simp add: client_send_job_def split: option.split prod.split)

lemma call_wire:
  assumes "linux_server_ok s" "srv_ok s" "rpc_call (chain_rpc s) m payload n cap = (rpc, code, p)"
    "n \<le> (case payload of None \<Rightarrow> 0 | Some q \<Rightarrow> length q)" "chain_request m (sent_payload payload n)"
  shows "linux_server_ok (s\<lparr>chain_rpc := rpc\<rparr>)"
proof -
  let ?q = "case payload of None \<Rightarrow> [] | Some q \<Rightarrow> q"
  have ex: "rc_exchange (chain_rpc s) = Some stn_rpc_linux_exchange"
    using assms(1,2) by (simp add: linux_server_ok_def srv_ok_def chain_ok_def linux_ops_def)
  have "n \<le> length ?q" "take n ?q = sent_payload payload n" using assms(4) by (auto simp: sent_payload_def split: option.splits)
  then have "rpc_request m i ?q n = rpc_frame 1 m 0 i (sent_payload payload n)" for i by (simp add: rpc_request_frame)
  then have "request_sent (rpc_request m i ?q n, k)" if "k \<le> length (rpc_request m i ?q n)" for i k
    using that assms(5) by (auto simp: request_sent_def)
  then have "wire_ok (transport_user rpc)"
    using rpc_call_user [OF assms(3) ex] linux_wire assms(1) by (auto simp: linux_server_ok_def)
  then show ?thesis using assms(1) by (simp add: linux_server_ok_def)
qed

interpretation wire: server_property linux_server_ok
proof unfold_locales
  fix s :: "transport server"
  assume s: "linux_server_ok s"
  show "linux_server_ok (s\<lparr>chain_rpc := rpc\<rparr>)"
    if "srv_ok s" "rpc_call (chain_rpc s) m payload n cap = (rpc, code, p)"
      "n \<le> (case payload of None \<Rightarrow> 0 | Some q \<Rightarrow> length q)" "chain_request m (sent_payload payload n)"
    for m payload n cap rpc code p
    by (rule call_wire [OF s that])
  show "linux_server_ok (snd (chain_transport_select s i))" for i
    using s wire_ok_drop [of "transport_user (chain_rpc s)"]
    by (simp add: chain_transport_select_def Let_def linux_server_ok_def stn_rpc_client_init_def)
      (simp add: linux_ops_def stn_rpc_linux_init_def stn_rpc_linux_close_def wire_ok_def)
qed (simp_all add: linux_server_ok_def result_rpc job_rpc link_client_def with_template_def)

lemma linux_start:
  assumes "server_start log_ok loaded e1 e2 tel (stn_stratum_server_init linux_ops (zero_transport r) rmem mem pool solo) = (True, s)"
  shows "linux_server_ok s"
proof -
  from server_start_parts [OF assms] obtain cfg c ok where parts: "cfg \<noteq> []" "listeners_open e1 e2 c = (ok, s)"
    "chain_transport_select ((stn_stratum_server_init linux_ops (zero_transport r) rmem mem pool solo)
       \<lparr>chain_config := cfg, active_chain_server := 0\<rparr>) 0 = (True, c)" by blast
  let ?i = "(stn_stratum_server_init linux_ops (zero_transport r) rmem mem pool solo)\<lparr>chain_config := cfg, active_chain_server := 0\<rparr>"
  have "linux_server_ok ?i"
    by (simp add: linux_server_ok_def stn_stratum_server_init_def zero_transport_def wire_ok_def)
  then have "linux_server_ok c" using wire.select [of ?i 0] parts(3) by simp
  then show ?thesis
    using parts(2) by (auto simp: linux_server_ok_def listeners_open_def Let_def split: prod.splits if_splits)
qed

text \<open>
  C7. Everything that the program on Linux ever sends to a Chain server is a request of the RPC protocol, and
  nothing else: a poll for work with an empty payload, a share, or a block. A share carries a well-formed miner
  address and a nonce under which the digest of the header in it is within ten times the Chain target of that
  header, capped at \<open>2 ^ 255 - 1\<close>; a block carries a well-formed address and a nonce under which its digest is
  within its Chain target. So no miner can make the server forward work without its proof. Over an open
  connection the last request was sent in full, so a request that was cut short is never followed on its connection.
\<close>

theorem chain_requests:
  assumes "server_start log_ok loaded e1 e2 tel (stn_stratum_server_init linux_ops (zero_transport r) rmem mem pool solo) = (True, s0)"
    and "reachable s0 s"
  shows "let t = transport_user (chain_rpc s) in
    (\<forall>(w, k) \<in> set (tp_wire t). k \<le> length w \<and> (\<exists>m i q. w = rpc_frame 1 m 0 i q \<and> chain_request m q)) \<and>
    (tp_socket t \<noteq> STN_INVALID_SOCKET \<and> tp_wire t \<noteq> [] \<longrightarrow> snd (last (tp_wire t)) = length (fst (last (tp_wire t))))"
proof -
  have "linux_server_ok s"
    by (rule wire.keeps_reachable [OF assms(2) server_start_ok [OF assms(1)] linux_start [OF assms(1)]])
  then show ?thesis by (fastforce simp: linux_server_ok_def wire_ok_def request_sent_def list_all_iff Let_def)
qed

text \<open>A Chain server that takes the connection, and then does not answer.\<close>

definition sample_silent :: "addr_event list option list" where
  "sample_silent = [Some [Addr_Connected 8 True [] []]]"

lemma silent_exchange:
  assumes "tp_resolve t = sample_silent" "tp_socket t = STN_INVALID_SOCKET" "tp_host t \<noteq> None" "24 \<le> cap" "q \<noteq> []"
  shows "\<exists>u. stn_rpc_linux_exchange t q cap = (u, None) \<and> tp_wire u = tp_wire t @ [(q, length q)]"
proof -
  have send: "send_all [] q = (True, [], q)" using assms(5) by (cases q) simp_all
  have recv: "recv_all 24 [] = (False, [], [])" by (simp add: recv_all.simps)
  define u where "u = t\<lparr>tp_resolve := [], tp_socket := STN_INVALID_SOCKET, tp_in := [], tp_sends := [],
      tp_closed := tp_closed t @ [8], tp_wire := tp_wire t @ [(q, length q)]\<rparr>"
  have one: "exchange_once t q cap = (u, None)"
    using assms by (simp add: exchange_once_def exchange_with_def connect_socket_def take_resolve_def sample_silent_def
        tp_send_def tp_recv_def send recv drop_socket_def u_def)
  have two: "exchange_once u q cap = (u, None)"
    by (simp add: exchange_once_def exchange_with_def connect_socket_def take_resolve_def u_def)
  have "stn_rpc_linux_exchange t q cap = (u, None)"
    using assms(3,4) by (auto simp: stn_rpc_linux_exchange_def one two)
  then show ?thesis by (simp add: u_def)
qed

lemma sample_polled:
  "\<exists>s. server_start True (Some sample_config) sample_open sample_open True
      (stn_stratum_server_init linux_ops (zero_transport sample_silent) [] [] [] []) = (True, s) \<and> running s \<and>
      tp_wire (transport_user (chain_rpc (server_tick s))) \<noteq> []"
proof -
  let ?t = "stn_rpc_linux_init (stn_rpc_linux_close (zero_transport sample_silent)) (Some [97]) 1"
  let ?q = "rpc_request 0x2002 1 [] 0"
  have t: "tp_resolve ?t = sample_silent" "tp_socket ?t = - 1" "tp_host ?t \<noteq> None" "?q \<noteq> []"
    by (simp_all add: stn_rpc_linux_init_def stn_rpc_linux_close_def drop_socket_def zero_transport_def
        rpc_request_frame [of 0 "[]", simplified] rpc_frame_def STNC_def)
  from silent_exchange [OF this(1-3) _ this(4), of 1052041] obtain u where
    u: "stn_rpc_linux_exchange ?t ?q 1052041 = (u, None)" "tp_wire u \<noteq> []" by auto
  show ?thesis
    apply (simp add: server_start_def Let_def sample_config_def chain_transport_select_def active_chain_def
        listeners_open_def stn_mining_listener_open_def stn_mining_listener_init_def sample_open_def
        clear_work_def clear_client_jobs_def stn_stratum_server_init_def)
    apply (simp add: server_tick_def Let_def accept_clients_def accept_from_listener.simps stn_session_acceptor_accept_def
        stn_mining_listener_accept_def service_clients_def for_clients_def send_pending_jobs_def)
    apply (simp add: refresh_work_def stn_rpc_client_mining_template_def rpc_call_def stn_rpc_client_init_def
        rpc_take_id_def linux_ops_def u Let_def chain_transport_next_def chain_transport_select_def clear_work_def
        clear_client_jobs_def)
    apply (simp add: stn_rpc_linux_init_def stn_rpc_linux_close_def u)
    done
qed

theorem chain_requests_witness:
  "\<exists>s w k m i q. server_start True (Some sample_config) sample_open sample_open True
      (stn_stratum_server_init linux_ops (zero_transport sample_silent) [] [] [] []) = (True, s) \<and>
      (w, k) \<in> set (tp_wire (transport_user (chain_rpc (server_tick s)))) \<and> w = rpc_frame 1 m 0 i q \<and> chain_request m q"
proof -
  from sample_polled obtain s where s: "server_start True (Some sample_config) sample_open sample_open True
      (stn_stratum_server_init linux_ops (zero_transport sample_silent) [] [] [] []) = (True, s)" "running s"
    "tp_wire (transport_user (chain_rpc (server_tick s))) \<noteq> []" by (elim exE conjE) (rule that)
  then obtain w k where w: "(w, k) \<in> set (tp_wire (transport_user (chain_rpc (server_tick s))))"
    by (metis hd_in_set surj_pair)
  have "reachable s (server_tick s)" by (rule reachable.step [OF reachable.start Tick [OF s(2)]])
  from chain_requests [OF s(1) this] w s(1) show ?thesis unfolding Let_def by fast
qed

end
