(* ===== verification/Chain_Connections.thy ===== *)
theory Chain_Connections
  imports Chain_Requests "HOL-Library.Multiset"
begin

text \<open>
  The descriptors of the server's connections to the Chain over the transport for Linux: each one that connecting
  creates is closed once, or is the one of the open connection.
\<close>

section \<open>The transport\<close>

text \<open>The descriptors that the loop over the addresses creates: it stops at the first connection.\<close>

fun addrs_fds :: "addr_event list \<Rightarrow> int list" where
  "addrs_fds [] = []"
| "addrs_fds (Addr_No_Socket # as) = addrs_fds as"
| "addrs_fds (Addr_Refused fd # as) = fd # addrs_fds as"
| "addrs_fds (Addr_Connected fd timeouts ins sends # as) = [fd]"

definition resolve_fds :: "addr_event list option list \<Rightarrow> int list" where
  "resolve_fds rs = concat (map (\<lambda>r. case r of None \<Rightarrow> [] | Some as \<Rightarrow> addrs_fds as) rs)"

definition valid_fds :: "int list \<Rightarrow> int multiset" where
  "valid_fds fds = filter_mset (\<lambda>fd. fd \<noteq> STN_INVALID_SOCKET) (mset fds)"

definition transport_fds :: "transport \<Rightarrow> int multiset" where
  "transport_fds t = valid_fds (tp_closed t @ tp_socket t # resolve_fds (tp_resolve t))"

lemma transport_fds_drop: "transport_fds (drop_socket t) = transport_fds t"
  by (simp add: transport_fds_def valid_fds_def drop_socket_def)

lemma connect_addrs_fds:
  "connect_addrs as = (conn, closed) \<Longrightarrow>
   addrs_fds as = closed @ (case conn of None \<Rightarrow> [] | Some (fd, timeouts, ins, sends) \<Rightarrow> [fd])"
  by (induction as arbitrary: closed rule: connect_addrs.induct) (auto split: prod.splits)

lemma transport_fds_connect:
  assumes "connect_socket t = (ok, u)"
  shows "transport_fds u = transport_fds t"
proof (cases "tp_socket t = STN_INVALID_SOCKET \<and> tp_resolve t \<noteq> [] \<and> hd (tp_resolve t) \<noteq> None")
  case False
  then show ?thesis
    using assms by (cases "tp_socket t = STN_INVALID_SOCKET"; cases "tp_resolve t")
      (auto simp: connect_socket_def take_resolve_def transport_fds_def resolve_fds_def)
next
  case True
  then obtain as rs where as: "tp_resolve t = Some as # rs" by (cases "tp_resolve t") auto
  obtain conn closed where c: "connect_addrs as = (conn, closed)" by fastforce
  show ?thesis
    using assms True connect_addrs_fds [OF c]
    by (cases conn)
      (auto simp: connect_socket_def take_resolve_def as c Let_def transport_fds_def valid_fds_def resolve_fds_def
        split: if_splits)
qed

lemma transport_fds_once:
  assumes "exchange_once t request cap = (u, r)"
  shows "transport_fds u = transport_fds t"
proof -
  obtain ok c where c: "connect_socket t = (ok, c)" by fastforce
  have same: "transport_fds (v\<lparr>tp_in := es\<rparr>) = transport_fds v"
    "transport_fds (v\<lparr>tp_sends := ss, tp_wire := w\<rparr>) = transport_fds v" for v es ss w
    by (simp_all add: transport_fds_def)
  show ?thesis
    using assms transport_fds_connect [OF c]
    by (auto simp: exchange_once_def exchange_with_def c tp_send_def tp_recv_def Let_def same transport_fds_drop
        split: prod.splits if_splits)
qed

lemma transport_fds_exchange:
  "stn_rpc_linux_exchange t request cap = (u, r) \<Longrightarrow> transport_fds u = transport_fds t"
  by (auto simp: stn_rpc_linux_exchange_def split: if_splits prod.splits option.splits dest!: transport_fds_once)

section \<open>The server\<close>

definition connections :: "int multiset \<Rightarrow> transport server \<Rightarrow> bool" where
  "connections T s \<longleftrightarrow> ops s = linux_ops \<and> transport_fds (transport_user (chain_rpc s)) = T"

lemma select_connections: "connections T s \<Longrightarrow> connections T (snd (chain_transport_select s i))"
  using transport_fds_drop [of "transport_user (chain_rpc s)"]
  by (simp add: connections_def chain_transport_select_def Let_def stn_rpc_client_init_def linux_ops_def
      stn_rpc_linux_init_def stn_rpc_linux_close_def transport_fds_def)

interpretation connection: server_property "connections T" for T
proof unfold_locales
  fix s :: "transport server"
  assume s: "connections T s"
  show "connections T (snd (chain_transport_select s i))" for i by (rule select_connections [OF s])
  show "connections T (s\<lparr>chain_rpc := rpc\<rparr>)"
    if "srv_ok s" "rpc_call (chain_rpc s) m payload n cap = (rpc, code, p)"
      "n \<le> (case payload of None \<Rightarrow> 0 | Some q \<Rightarrow> length q)" "chain_request m (sent_payload payload n)"
    for m payload n cap rpc code p
  proof -
    have "rc_exchange (chain_rpc s) = Some stn_rpc_linux_exchange"
      using s that(1) by (simp add: connections_def srv_ok_def chain_ok_def linux_ops_def)
    from rpc_call_user [OF that(2) this] show ?thesis
      using s transport_fds_exchange by (auto simp: connections_def)
  qed
qed (simp_all add: connections_def result_rpc job_rpc link_client_def with_template_def)

text \<open>Closing the transport.\<close>

lemma close_connections:
  assumes "connections T s"
  shows "tp_socket (op_close (ops s) (transport_user (chain_rpc s))) = STN_INVALID_SOCKET \<and>
    transport_fds (op_close (ops s) (transport_user (chain_rpc s))) = T"
  using assms transport_fds_drop [of "transport_user (chain_rpc s)"]
  by (simp add: connections_def linux_ops_def stn_rpc_linux_close_def)

lemma start_connections:
  assumes "connections T s"
  shows "connections T (snd (server_start log_ok loaded e1 e2 tel s))"
proof (cases "log_ok \<and> (\<exists>cfg. loaded = Some cfg \<and> cfg \<noteq> [])")
  case False
  then show ?thesis using assms by (auto simp: server_start_def connections_def split: option.split)
next
  case True
  then obtain cfg where cfg: log_ok "loaded = Some cfg" "cfg \<noteq> []" by blast
  let ?i = "s\<lparr>chain_config := cfg, active_chain_server := 0\<rparr>"
  obtain sel x where sel: "chain_transport_select ?i 0 = (sel, x)" by fastforce
  have "connections T ?i" using assms by (simp add: connections_def)
  then have x: "connections T x" using select_connections [of T ?i 0] sel by simp
  obtain opened y where y: "listeners_open e1 e2 x = (opened, y)" by fastforce
  have listen: "connections T y" "connections T (listeners_close y)"
  proof -
    show "connections T y" using x y
      by (auto simp: connections_def listeners_open_def Let_def split: prod.splits if_splits)
    then show "connections T (listeners_close y)"
      by (simp add: connections_def listeners_close_def Let_def split: prod.split)
  qed
  show ?thesis using cfg sel x y listen by (simp add: server_start_def Let_def)
qed

end
