(* ===== verification/Config_Props.thy ===== *)
theory Config_Props
  imports Chain_Config
begin

text \<open>
  The configuration parser loses no memory and no file, accepts only usable servers, and reads back
  what a printer writes, in order.
\<close>

section \<open>Accounting and validity\<close>

text \<open>The blocks that a configuration owns: one for each host and one for the array.\<close>

definition owns :: "config_entry list \<Rightarrow> int" where
  "owns servers = int (length servers) + (if servers = [] then 0 else 1)"

definition owns_opt :: "bytes option \<Rightarrow> int" where
  "owns_opt p = (if p = None then 0 else 1)"

definition entry_ok :: "config_entry \<Rightarrow> bool" where
  "entry_ok e \<longleftrightarrow> cfg_host e \<noteq> [] \<and> 0 \<notin> set (cfg_host e) \<and> cfg_port e \<noteq> 0"

text \<open>From \<open>m\<close> to \<open>m'\<close> there are \<open>k\<close> more live blocks and no more open files.\<close>

definition balance :: "cmem \<Rightarrow> cmem \<Rightarrow> int \<Rightarrow> bool" where
  "balance m m' k \<longleftrightarrow> cm_live m' = cm_live m + k \<and> cm_files m' = cm_files m"

named_theorems memory \<open>what the primitives do to the counts\<close>

lemma balance_refl [memory]: "balance m m 0"
  by (simp add: balance_def)

lemma balance_malloc [memory]: "cm_malloc m = (got, m') \<Longrightarrow> balance m m' (if got then 1 else 0)"
  by (auto simp: cm_malloc_def balance_def split: prod.splits)

lemma balance_free [memory]: "balance m (cm_free p m') k \<longleftrightarrow> balance m m' (k + owns_opt p)"
  by (auto simp: cm_free_def balance_def owns_opt_def)

lemma balance_trans: "balance m n j \<Longrightarrow> balance n k i \<Longrightarrow> balance m k (j + i)"
  by (simp add: balance_def)

lemma set_skip_space: "set (skip_space p) \<subseteq> set p"
  by (induction p) auto

lemma skip_space_set: "skip_space p = c # cs \<Longrightarrow> set cs \<subseteq> set p"
  using set_skip_space [of p] by auto

lemma scan_string_set: "scan_string p = Some (n, raw, rest) \<Longrightarrow> set raw \<subseteq> set p \<and> set rest \<subseteq> set p"
proof (induction p arbitrary: n raw rest rule: scan_string.induct)
  case (2 c cs)
  then show ?case by (fastforce split: if_splits list.splits)
qed simp

text \<open>The buffer for the copy is exactly large enough.\<close>

lemma copy_string_length:
  "scan_string p = Some (n, raw, rest) \<Longrightarrow> copy_string raw = Some v \<Longrightarrow> length v = n"
proof (induction p arbitrary: n raw rest v rule: scan_string.induct)
  case (2 c cs)
  consider "c = 0x22" | "c = 0x5c" | "c \<noteq> 0x22" "c \<noteq> 0x5c" by blast
  then show ?case
  proof cases
    case 2
    then obtain d ds k raw' where cs: "cs = d # ds" and scan: "scan_string ds = Some (k, raw', rest)"
      and raw: "n = k + 1" "raw = c # d # raw'"
      using "2.prems"(1) by (auto split: list.splits)
    then obtain x w where "copy_string raw' = Some w" "v = x # w"
      using "2.prems"(2) 2 by (auto split: option.splits)
    then show ?thesis using "2.IH"(1) [OF _ 2 cs scan] 2 raw by simp
  next
    case 3
    then obtain k raw' where scan: "scan_string cs = Some (k, raw', rest)" and raw: "n = k + 1" "raw = c # raw'"
      using "2.prems"(1) by auto
    then obtain w where "copy_string raw' = Some w" "v = c # w"
      using "2.prems"(2) 3 by auto
    then show ?thesis using "2.IH"(2) [OF 3 scan] raw by simp
  qed (use "2.prems" in simp)
qed simp

lemma copy_string_set: "copy_string raw = Some v \<Longrightarrow> 0 \<notin> set raw \<Longrightarrow> 0 \<notin> set v"
proof (induction raw arbitrary: v rule: copy_string.induct)
  case (2 c cs)
  then show ?case
    by (auto simp: escape_value_def split: if_splits list.splits option.splits)
qed simp

lemma parse_string_post:
  assumes "parse_string p m = (r, m')"
  shows "case r of
      None \<Rightarrow> balance m m' 0
    | Some (v, rest) \<Rightarrow> balance m m' 1 \<and> set rest \<subseteq> set p \<and> (0 \<notin> set p \<longrightarrow> 0 \<notin> set v)"
proof (cases "skip_space p")
  case Nil
  then show ?thesis using assms by (auto simp: parse_string_def memory)
next
  case (Cons c start)
  note start = skip_space_set [OF Cons]
  show ?thesis
  proof (cases "c = 0x22 \<and> scan_string start \<noteq> None")
    case False
    then show ?thesis
      using assms Cons by (cases "scan_string start") (auto simp: parse_string_def memory split: if_splits)
  next
    case True
    then obtain n raw rest where scan: "scan_string start = Some (n, raw, rest)" by auto
    note sets = scan_string_set [OF scan]
    obtain got k where mal: "cm_malloc m = (got, k)" by fastforce
    show ?thesis
    proof (cases "copy_string raw")
      case None
      then show ?thesis
        using assms Cons True scan mal balance_malloc [OF mal]
        by (cases got) (auto simp: parse_string_def memory owns_opt_def)
    next
      case (Some v)
      have "0 \<notin> set v" if "0 \<notin> set p"
        using copy_string_set [OF Some] sets start that by blast
      then show ?thesis
        using assms Cons True scan mal balance_malloc [OF mal] Some sets start
        by (auto simp: parse_string_def split: if_splits)
    qed
  qed
qed

lemma parse_digits_set: "parse_digits v b p = Some (w, b', rest) \<Longrightarrow> set rest \<subseteq> set p"
  by (induction v b p rule: parse_digits.induct) (auto simp: Let_def split: if_splits)

lemma parse_digits_bound: "parse_digits v b p = Some (w, b', rest) \<Longrightarrow> v \<le> 65535 \<Longrightarrow> w \<le> 65535"
proof (induction v b p rule: parse_digits.induct)
  case (2 v b c cs)
  show ?case
  proof (cases "isdigit c")
    case True
    then have "unat (c - 48) \<le> 9"
      by (auto simp: isdigit_def unat_sub word_le_nat_alt)
    then show ?thesis
      using 2 True by (auto simp: Let_def split: if_splits)
  qed (use 2 in simp)
qed simp

lemma parse_port_post: "parse_port p = Some (port, rest) \<Longrightarrow> port \<noteq> 0 \<and> set rest \<subseteq> set p"
proof -
  assume "parse_port p = Some (port, rest)"
  then obtain v b where d: "parse_digits 0 False (skip_space p) = Some (v, b, rest)" "v \<noteq> 0"
    and port: "port = of_nat v"
    by (auto simp: parse_port_def split: option.splits prod.splits if_splits)
  have "v < 2 ^ 16" using parse_digits_bound [OF d(1)] by simp
  then have "unat port = v" unfolding port by (simp add: unat_of_nat)
  then show ?thesis using d parse_digits_set [OF d(1)] set_skip_space [of p] by auto
qed

lemma expect_set: "expect p c = Some rest \<Longrightarrow> set rest \<subseteq> set p"
  by (auto simp: expect_def split: list.splits if_splits dest: skip_space_set)

text \<open>The variables of \<open>parse_server\<close> between two members.\<close>

definition vars_ok :: "server_vars \<Rightarrow> bool" where
  "vars_ok e \<longleftrightarrow> (sv_have_host e \<longleftrightarrow> sv_host e \<noteq> None) \<and>
     (\<forall>h. sv_host e = Some h \<longrightarrow> h \<noteq> [] \<and> 0 \<notin> set h) \<and> (sv_have_port e \<longrightarrow> sv_port e \<noteq> 0)"

lemma server_member_post:
  assumes "server_member p e m = (r, e', m')" "vars_ok e" "0 \<notin> set p"
  shows "balance m m' (owns_opt (sv_host e') - owns_opt (sv_host e)) \<and>
    (case r of None \<Rightarrow> True | Some rest \<Rightarrow> vars_ok e' \<and> set rest \<subseteq> set p)"
proof -
  obtain r1 m1 where s1: "parse_string p m = (r1, m1)" by fastforce
  show ?thesis
  proof (cases r1)
    case None
    then show ?thesis using assms s1 parse_string_post [OF s1] by (auto simp: server_member_def)
  next
    case (Some x)
    obtain key p1 where x: "x = (key, p1)" by fastforce
    note key = parse_string_post [OF s1, unfolded Some x, simplified]
    show ?thesis
    proof (cases "expect p1 0x3a")
      case None
      then show ?thesis
        using assms(1) s1 Some x key by (auto simp: server_member_def memory owns_opt_def)
    next
      case (Some p2)
      note ex = expect_set [OF Some]
      obtain r2 m2 where s2: "parse_string p2 m1 = (r2, m2)" by fastforce
      note host = parse_string_post [OF s2]
      have p2: "0 \<notin> set p2" "set p2 \<subseteq> set p" using ex key assms(3) by auto
      have both: "balance m m2 2" if "r2 \<noteq> None"
        using balance_trans [of m m1 1 m2 1] key host that by auto
      have one: "balance m m2 1" if "r2 = None"
        using balance_trans [of m m1 1 m2 0] key host that by auto
      show ?thesis
      proof (cases "key = host_key \<and> \<not> sv_have_host e")
        case True
        have no_host: "sv_host e = None" using True assms(2) by (auto simp: vars_ok_def)
        show ?thesis
        proof (cases r2)
          case None
          then show ?thesis
            using assms(1) s1 \<open>r1 = Some x\<close> x Some s2 True both one no_host
            by (auto simp: server_member_def memory owns_opt_def)
        next
          case (Some y)
          then show ?thesis
            using assms(1,2) s1 \<open>r1 = Some x\<close> x \<open>expect p1 0x3a = Some p2\<close> s2 True both one no_host host p2
            by (cases y) (auto simp: server_member_def Let_def memory owns_opt_def vars_ok_def split: if_splits)
        qed
      next
        case False
        then show ?thesis
          using assms(1,2) s1 \<open>r1 = Some x\<close> x Some key p2 parse_port_post [of p2]
          by (auto simp: server_member_def memory owns_opt_def vars_ok_def split: if_splits option.splits prod.splits)
      qed
    qed
  qed
qed

lemma server_finish_post:
  assumes "server_finish p e m = (r, m')" "vars_ok e"
  shows "case r of
      None \<Rightarrow> balance m m' (- owns_opt (sv_host e))
    | Some (entry, rest) \<Rightarrow> balance m m' (1 - owns_opt (sv_host e)) \<and> entry_ok entry \<and> rest = p"
  using assms by (auto simp: server_finish_def memory vars_ok_def owns_opt_def entry_ok_def split: if_splits)

lemma server_members_post:
  assumes "server_members p e m = (r, m')" "vars_ok e" "0 \<notin> set p"
  shows "case r of
      None \<Rightarrow> balance m m' (- owns_opt (sv_host e))
    | Some (entry, rest) \<Rightarrow> balance m m' (1 - owns_opt (sv_host e)) \<and> entry_ok entry \<and> set rest \<subseteq> set p"
  using assms
proof (induction p e m arbitrary: r m' rule: server_members.induct)
  case (1 p e m)
  let ?p = "skip_space p"
  note sp = set_skip_space [of p]
  show ?case
  proof (cases "?p \<noteq> [] \<and> hd ?p = 0x7d")
    case True
    have "set (tl ?p) \<subseteq> set p" using sp set_subset_Cons by (cases ?p) auto
    then show ?thesis
      using server_finish_post [of "tl ?p" e m r m'] "1.prems" True
      by (auto simp: server_members.simps [of p] Let_def split: option.splits)
  next
    case False
    obtain q e1 m1 where mem: "server_member ?p e m = (q, e1, m1)" by (rule prod_cases3)
    have "0 \<notin> set ?p" using "1.prems"(3) sp by auto
    note post = server_member_post [OF mem "1.prems"(2) this]
    have fail: "balance m (cm_free (sv_host e1) m1) (- owns_opt (sv_host e))"
      using post by (simp add: memory)
    show ?thesis
    proof (cases "\<exists>p1 c cs. q = Some p1 \<and> skip_space p1 = c # cs \<and> (c = 0x2c \<or> c = 0x7d)")
      case nogo: False
      then have "r = None \<and> m' = cm_free (sv_host e1) m1"
        using "1.prems"(1) False mem
        by (auto simp: server_members.simps [of p] Let_def split: option.splits list.splits if_splits)
      then show ?thesis using fail by simp
    next
      case True
      then obtain p1 c cs where q: "q = Some p1" and cs: "skip_space p1 = c # cs" and c: "c = 0x2c \<or> c = 0x7d"
        by blast
      have sub: "set cs \<subseteq> set p" "0 \<notin> set cs" "vars_ok e1"
        using post q sp skip_space_set [OF cs] "1.prems"(3) by auto
      have "case r of
          None \<Rightarrow> balance m1 m' (- owns_opt (sv_host e1))
        | Some (entry, rest) \<Rightarrow> balance m1 m' (1 - owns_opt (sv_host e1)) \<and> entry_ok entry \<and> set rest \<subseteq> set cs"
      proof (cases "c = 0x2c")
        case True
        then have run: "server_members cs e1 m1 = (r, m')"
          using "1.prems"(1) False mem q cs by (simp add: server_members.simps [of p] Let_def)
        show ?thesis
          by (rule "1.IH" [OF refl False mem [symmetric] q refl cs True run sub(3,2)])
      next
        case no: False
        then have "server_finish cs e1 m1 = (r, m')"
          using "1.prems"(1) False mem q cs c by (simp add: server_members.simps [of p] Let_def)
        from server_finish_post [OF this sub(3)] show ?thesis by (auto split: option.splits)
      qed
      then show ?thesis
        using post sub(1) by (auto simp: balance_def split: option.splits)
    qed
  qed
qed

lemma parse_server_post:
  assumes "parse_server p m = (r, m')" "0 \<notin> set p"
  shows "case r of
      None \<Rightarrow> balance m m' 0
    | Some (entry, rest) \<Rightarrow> balance m m' 1 \<and> entry_ok entry \<and> set rest \<subseteq> set p"
proof (cases "expect p 0x7b")
  case None
  then show ?thesis using assms by (auto simp: parse_server_def memory)
next
  case (Some q)
  let ?e = "\<lparr>sv_host = None, sv_port = 0, sv_have_host = False, sv_have_port = False\<rparr>"
  have "server_members q ?e m = (r, m')" using assms(1) Some by (simp add: parse_server_def)
  from server_members_post [OF this] expect_set [OF Some] assms(2) show ?thesis
    by (fastforce simp: vars_ok_def owns_opt_def split: option.splits)
qed

lemma append_server_post:
  assumes "append_server servers entry m = (ok, servers', m')"
  shows "servers' = (if ok then servers @ [entry] else servers) \<and>
    balance m m' (if ok \<and> servers = [] then 1 else 0)"
  using assms by (auto simp: append_server_def balance_def Let_def split: if_splits prod.splits)

lemma servers_loop_post:
  assumes "servers_loop p servers m = (r, servers', m')" "list_all entry_ok servers" "0 \<notin> set p"
  shows "balance m m' (owns servers' - owns servers) \<and> list_all entry_ok servers' \<and>
    (case r of None \<Rightarrow> True | Some rest \<Rightarrow> servers' \<noteq> [] \<and> set rest \<subseteq> set p)"
  using assms
proof (induction p servers m arbitrary: r servers' m' rule: servers_loop.induct)
  case (1 p servers m)
  obtain x m1 where ps: "parse_server p m = (x, m1)" by fastforce
  note post = parse_server_post [OF ps "1.prems"(3)]
  show ?case
  proof (cases x)
    case None
    then show ?thesis using "1.prems" ps post by (auto simp: servers_loop.simps [of p])
  next
    case (Some y)
    obtain entry q where y: "y = (entry, q)" by fastforce
    note parsed = post [unfolded Some y, simplified]
    obtain ok servers1 m2 where app: "append_server servers entry m1 = (ok, servers1, m2)" by (rule prod_cases3)
    note appended = append_server_post [OF app]
    show ?thesis
    proof (cases ok)
      case False
      then show ?thesis
        using "1.prems" ps Some y app parsed appended
        by (auto simp: servers_loop.simps [of p] cm_free_def balance_def)
    next
      case True
      have grown: "balance m m2 (owns servers1 - owns servers)" "list_all entry_ok servers1" "servers1 \<noteq> []"
        using parsed appended True "1.prems"(2) by (auto simp: balance_def owns_def)
      show ?thesis
      proof (cases "\<exists>cs. skip_space q = 0x2c # cs")
        case True
        then obtain cs where cs: "skip_space q = 0x2c # cs" by blast
        have sub: "set cs \<subseteq> set p" "0 \<notin> set cs"
          using skip_space_set [OF cs] parsed "1.prems"(3) by auto
        have run: "servers_loop cs servers1 m2 = (r, servers', m')"
          using "1.prems"(1) ps Some y app \<open>ok\<close> cs by (simp add: servers_loop.simps [of p])
        have "\<not> \<not> ok" using \<open>ok\<close> by simp
        from "1.IH" [OF ps [symmetric] Some y [symmetric] app [symmetric] refl this cs refl run grown(2) sub(2)]
        show ?thesis using grown(1) sub(1) by (auto simp: balance_def split: option.splits)
      next
        case False
        then show ?thesis
          using "1.prems"(1) ps Some y app \<open>ok\<close> grown parsed skip_space_set [of q]
          by (auto simp: servers_loop.simps [of p] split: list.splits if_splits)
      qed
    qed
  qed
qed

lemma parse_servers_post:
  assumes "parse_servers p servers m = (r, servers', m')" "list_all entry_ok servers" "0 \<notin> set p"
  shows "balance m m' (owns servers' - owns servers) \<and> list_all entry_ok servers' \<and>
    (case r of None \<Rightarrow> True | Some rest \<Rightarrow> servers' \<noteq> [] \<and> set rest \<subseteq> set p)"
proof (cases "expect p 0x5b")
  case None
  then show ?thesis using assms by (simp add: parse_servers_def memory)
next
  case (Some q)
  note q = expect_set [OF Some]
  show ?thesis
  proof (cases "skip_space q \<noteq> [] \<and> hd (skip_space q) = 0x5d")
    case True
    then show ?thesis using assms Some by (auto simp: parse_servers_def memory)
  next
    case False
    then have run: "servers_loop (skip_space q) servers m = (r, servers', m')"
      using assms(1) Some by (auto simp: parse_servers_def Let_def)
    have "0 \<notin> set (skip_space q)" using q set_skip_space [of q] assms(3) by auto
    from servers_loop_post [OF run assms(2) this] show ?thesis
      using q set_skip_space [of q] by (fastforce split: option.splits)
  qed
qed

lemma config_member_post:
  assumes "config_member p h servers m = (r, servers', m')" "list_all entry_ok servers" "0 \<notin> set p"
  shows "balance m m' (owns servers' - owns servers) \<and> list_all entry_ok servers' \<and>
    (case r of None \<Rightarrow> True | Some rest \<Rightarrow> servers' \<noteq> [] \<and> \<not> h \<and> set rest \<subseteq> set p)"
proof -
  obtain x m1 where ps: "parse_string p m = (x, m1)" by fastforce
  note key = parse_string_post [OF ps]
  show ?thesis
  proof (cases "\<exists>k q q2. x = Some (k, q) \<and> expect q 0x3a = Some q2 \<and> k = servers_key \<and> \<not> h")
    case False
    then show ?thesis
      using assms ps key
      by (auto simp: config_member_def memory owns_opt_def split: option.splits prod.splits if_splits)
  next
    case True
    then obtain q q2 where x: "x = Some (servers_key, q)" and ex: "expect q 0x3a = Some q2" and h: "\<not> h" by blast
    obtain r2 s2 m2 where run: "parse_servers q2 servers m1 = (r2, s2, m2)" by (rule prod_cases3)
    have sub: "set q2 \<subseteq> set p" "0 \<notin> set q2" using expect_set [OF ex] key x assms(3) by auto
    note post = parse_servers_post [OF run assms(2) sub(2)]
    have "r = r2" "servers' = s2" "m' = cm_free (Some servers_key) m2"
      using assms(1) ps x ex h run by (auto simp: config_member_def)
    then show ?thesis
      using post key x h sub(1) by (auto simp: balance_def cm_free_def split: option.splits)
  qed
qed

lemma config_members_post:
  assumes "config_members p h servers m = (ok, servers', m')" "list_all entry_ok servers" "0 \<notin> set p"
  shows "balance m m' (owns servers' - owns servers) \<and> list_all entry_ok servers' \<and> (ok \<longrightarrow> servers' \<noteq> [])"
  using assms
proof (induction p h servers m arbitrary: ok servers' m' rule: config_members.induct)
  case (1 p h servers m)
  let ?p = "skip_space p"
  show ?case
  proof (cases "?p \<noteq> [] \<and> hd ?p = 0x7d")
    case True
    then show ?thesis
      using "1.prems" by (auto simp: config_members.simps [of p] config_finish_def memory)
  next
    case False
    obtain q s1 m1 where mem: "config_member ?p h servers m = (q, s1, m1)" by (rule prod_cases3)
    have "0 \<notin> set ?p" using "1.prems"(3) set_skip_space [of p] by auto
    note post = config_member_post [OF mem "1.prems"(2) this]
    show ?thesis
    proof (cases "\<exists>p1 cs. q = Some p1 \<and> skip_space p1 = 0x2c # cs")
      case no: False
      then have "servers' = s1 \<and> m' = m1 \<and> (ok \<longrightarrow> s1 \<noteq> [])"
        using "1.prems"(1) False mem
        by (auto simp: config_members.simps [of p] Let_def config_finish_def
            split: option.splits list.splits if_splits)
      then show ?thesis using post by simp
    next
      case True
      then obtain p1 cs where q: "q = Some p1" and cs: "skip_space p1 = 0x2c # cs" by blast
      have sub: "0 \<notin> set cs"
        using post q skip_space_set [OF cs] set_skip_space [of p] "1.prems"(3) by auto
      have run: "config_members cs True s1 m1 = (ok, servers', m')"
        using "1.prems"(1) False mem q cs by (simp add: config_members.simps [of p] Let_def)
      from "1.IH" [OF refl False mem [symmetric] q refl cs refl run conjunct1 [OF conjunct2 [OF post]] sub] post
      show ?thesis by (auto simp: balance_def)
    qed
  qed
qed

lemma parse_config_post:
  assumes "parse_config p [] m = (ok, servers', m')" "0 \<notin> set p"
  shows "balance m m' (owns servers') \<and> list_all entry_ok servers' \<and> (ok \<longrightarrow> servers' \<noteq> [])"
proof (cases "expect p 0x7b")
  case None
  then show ?thesis using assms by (simp add: parse_config_def memory owns_def)
next
  case (Some q)
  have "0 \<notin> set q" using expect_set [OF Some] assms(2) by auto
  with config_members_post [of q False "[]" m ok servers' m'] assms(1) Some
  show ?thesis by (simp add: parse_config_def owns_def)
qed

lemma read_file_post:
  "read_file e m = (r, m') \<Longrightarrow> balance m m' (owns_opt r) \<and> (\<forall>text. r = Some text \<longrightarrow> fe_open e \<and> text = take (nat (fe_tell e)) (fe_data e))"
  by (auto simp: read_file_def Let_def cm_fopen_def cm_fclose_def cm_malloc_def cm_free_def owns_opt_def
      balance_def split: if_splits prod.splits)

lemma free_hosts: "balance m (fold (\<lambda>entry. cm_free (Some (cfg_host entry))) servers m') k \<longleftrightarrow>
    balance m m' (k + int (length servers))"
  by (induction servers arbitrary: m' k) (auto simp: balance_free owns_opt_def algebra_simps)

lemma config_close_balance:
  "balance m (snd (stn_chain_config_close servers m')) k \<longleftrightarrow> balance m m' (k + owns servers)"
  by (simp add: stn_chain_config_close_def Let_def balance_free free_hosts owns_def owns_opt_def algebra_simps)

lemma c_text_no_nul: "0 \<notin> set (c_text text)"
  by (auto simp: c_text_def dest: set_takeWhileD)

lemma config_load_post:
  assumes "stn_chain_config_load (Some config) (Some e) m = (ok, config', m')"
  shows "\<exists>servers. config' = Some servers \<and> balance m m' (owns servers - owns config) \<and>
    (if ok then servers \<noteq> [] \<and> list_all entry_ok servers else servers = config)"
proof -
  obtain r m1 where rf: "read_file e m = (r, m1)" by fastforce
  note read = read_file_post [OF rf]
  show ?thesis
  proof (cases r)
    case None
    then show ?thesis using assms rf read by (simp add: stn_chain_config_load_def owns_opt_def)
  next
    case (Some raw)
    obtain fine loaded m2 where pc: "parse_config (c_text raw) [] m1 = (fine, loaded, m2)" by (rule prod_cases3)
    note parsed = parse_config_post [OF pc c_text_no_nul]
    have total: "balance m (cm_free (Some raw) m2) (owns loaded)"
      using read parsed Some by (simp add: balance_def cm_free_def owns_opt_def)
    show ?thesis
    proof (cases fine)
      case True
      then show ?thesis
        using assms rf Some pc parsed total
        by (auto simp: stn_chain_config_load_def config_close_balance)
    next
      case False
      then show ?thesis
        using assms rf Some pc parsed total
        by (auto simp: stn_chain_config_load_def config_close_balance)
    qed
  qed
qed

section \<open>Loading\<close>

text \<open>
  Loading a configuration either succeeds, and then there is at least one server
  and every server has a non-empty host without a NUL and a port other than 0, or it fails and leaves
  the configuration as it was: on every path of the reader and the parser, whatever the file holds and
  whichever allocation or file operation fails.
\<close>

theorem config_load_valid:
  assumes "stn_chain_config_load (Some config) (Some e) m = (ok, config', m')"
  shows "if ok then \<exists>servers. config' = Some servers \<and> servers \<noteq> [] \<and> list_all entry_ok servers
    else config' = Some config"
  using config_load_post [OF assms] by auto

text \<open>
  The text is the only member of the array, with a trailing comma and an escaped quote in the host:
  \<^verbatim>\<open>{"chain_servers":[{"host":"a\"","port":80,}]}\<close>.
\<close>

definition sample_text :: bytes where
  "sample_text = [0x7b, 0x22] @ servers_key @ [0x22, 0x3a, 0x5b, 0x7b, 0x22] @ host_key @
     [0x22, 0x3a, 0x22, 0x61, 0x5c, 0x22, 0x22, 0x2c, 0x22] @ port_key @
     [0x22, 0x3a, 0x38, 0x30, 0x2c, 0x7d, 0x5d, 0x7d]"

definition sample_env :: file_env where
  "sample_env = \<lparr>fe_open = True, fe_seek_end = True, fe_tell = 45, fe_seek_set = True, fe_data = sample_text\<rparr>"

definition sample_mem :: cmem where
  "sample_mem = \<lparr>cm_script = [], cm_live = 0, cm_files = 0\<rparr>"

lemma sample_load: "stn_chain_config_load (Some []) (Some sample_env) sample_mem =
    (True, Some [\<lparr>cfg_host = [0x61, 0x22], cfg_port = 80\<rparr>], sample_mem\<lparr>cm_live := 2\<rparr>)"
  by (simp add: stn_chain_config_load_def read_file_def sample_env_def sample_mem_def Let_def cm_fopen_def
      cm_fclose_def cm_malloc_def cm_free_def sample_text_def host_key_def port_key_def servers_key_def
      c_text_def parse_config_def expect_def isspace_def config_members.simps config_member_def parse_string_def
      parse_servers_def servers_loop.simps parse_server_def server_members.simps server_member_def
      server_finish_def escape_value_def parse_port_def isdigit_def append_server_def config_finish_def
      stn_chain_config_close_def)

theorem config_load_valid_witness:
  "\<exists>servers. Some [\<lparr>cfg_host = [0x61, 0x22], cfg_port = 80\<rparr>] = Some servers \<and> servers \<noteq> [] \<and> list_all entry_ok servers"
  using config_load_valid [OF sample_load] by simp

text \<open>
  Loading keeps the books: whatever fails, every block that it allocated is either
  owned by the configuration afterwards or released, the previous configuration is released exactly when
  it is replaced, and no file stays open.
\<close>

theorem config_no_leak:
  "case stn_chain_config_load (Some config) path m of
     (ok, config', m') \<Rightarrow> cm_live m' - owns (the config') = cm_live m - owns config \<and> cm_files m' = cm_files m"
proof (cases path)
  case None
  then show ?thesis by (simp add: stn_chain_config_load_def)
next
  case (Some e)
  obtain ok config' m' where load: "stn_chain_config_load (Some config) (Some e) m = (ok, config', m')"
    by (rule prod_cases3)
  from config_load_post [OF load] Some load show ?thesis by (auto simp: balance_def)
qed

end
