(* ===== verification/Text_Format.thy ===== *)
theory Text_Format
  imports Stn_Prelude
begin

text \<open>
  What the program uses of \<^verbatim>\<open>snprintf\<close>: string literals as bytes, and unsigned numbers in decimal and
  bytes in hexadecimal notation.
\<close>

definition lit :: "string \<Rightarrow> bytes" where
  "lit s = map of_char s"

fun decimal :: "nat \<Rightarrow> bytes" where
  "decimal n = (if n < 10 then [48 + of_nat n] else decimal (n div 10) @ [48 + of_nat (n mod 10)])"

declare decimal.simps [simp del]

text \<open>\<^verbatim>\<open>snprintf (output, size, ...)\<close> of a text: all of it, or a result that the callers take for a failure.\<close>

definition snprintf :: "nat \<Rightarrow> bytes \<Rightarrow> bytes option" where
  "snprintf n s = (if length s > 2147483647 \<or> length s \<ge> n then None else Some s)"

lemma length_lit [simp]: "length (lit s) = length s"
  by (simp add: lit_def)

lemma digit_bytes: "d < 10 \<Longrightarrow> d \<in> {0, 1, 2, 3, 4, 5, 6, 7, 8, 9 :: nat}"
  by auto

lemma decimal_digits: "c \<in> set (decimal n) \<Longrightarrow> 48 \<le> c \<and> c \<le> 57"
proof (induction n rule: decimal.induct)
  case (1 n)
  have "48 \<le> (48 + of_nat d :: byte) \<and> (48 + of_nat d :: byte) \<le> 57" if "d < 10" for d
    using digit_bytes [OF that] by auto
  then show ?case using 1 by (auto simp: decimal.simps [of n] split: if_splits)
qed

lemma decimal_not_Nil [simp]: "decimal n \<noteq> []"
  by (simp add: decimal.simps [of n])

lemma length_decimal: "n < 10 ^ k \<Longrightarrow> 0 < k \<Longrightarrow> length (decimal n) \<le> k"
proof (induction n arbitrary: k rule: decimal.induct)
  case (1 n)
  show ?case
  proof (cases "n < 10")
    case True
    then show ?thesis using "1.prems" by (simp add: decimal.simps [of n])
  next
    case False
    then obtain j where k: "k = Suc j" "0 < j" using "1.prems" by (cases k; cases "k - 1") auto
    then have "n div 10 < 10 ^ j" using "1.prems" by (simp add: less_mult_imp_div_less mult.commute)
    then show ?thesis using "1.IH" [OF False _ k(2)] False k by (simp add: decimal.simps [of n])
  qed
qed

text \<open>The number that a decimal notation stands for.\<close>

fun decimal_value :: "bytes \<Rightarrow> nat" where
  "decimal_value [] = 0"
| "decimal_value (c # cs) = unat (c - 48) * 10 ^ length cs + decimal_value cs"

lemma decimal_value_append: "decimal_value (xs @ ys) = decimal_value xs * 10 ^ length ys + decimal_value ys"
  by (induction xs) (simp_all add: algebra_simps power_add)

lemma decimal_value_decimal [simp]: "decimal_value (decimal n) = n"
proof (induction n rule: decimal.induct)
  case (1 n)
  have digit: "unat (48 + of_nat d - 48 :: byte) = d" if "d < 10" for d
    using digit_bytes [OF that] by auto
  show ?case
  proof (cases "n < 10")
    case True
    then show ?thesis using digit by (simp add: decimal.simps [of n])
  next
    case False
    then show ?thesis using 1 digit [of "n mod 10"] by (simp add: decimal.simps [of n] decimal_value_append)
  qed
qed

end
