(* ===== verification/Config_Text.thy ===== *)
theory Config_Text
  imports Config_Props Text_Format
begin

text \<open>
  Texts of configurations: the tokens that stand for a list of Chain servers, laid out with any white
  space between them and with the two members of a server in either order, are read back as that list.
\<close>

section \<open>Tokens and layouts\<close>

text \<open>A string literal, with the two characters escaped that have to be.\<close>

definition escaped :: "byte \<Rightarrow> bytes" where
  "escaped c = (if c = 0x22 \<or> c = 0x5c then [0x5c, c] else [c])"

definition quoted :: "bytes \<Rightarrow> bytes" where
  "quoted s = 0x22 # concat (map escaped s) @ [0x22]"

definition host_tokens :: "config_entry \<Rightarrow> bytes list" where
  "host_tokens e = [quoted host_key, [0x3a], quoted (cfg_host e)]"

definition port_tokens :: "config_entry \<Rightarrow> bytes list" where
  "port_tokens e = [quoted port_key, [0x3a], decimal (unat (cfg_port e))]"

text \<open>The flag says that the port comes before the host.\<close>

definition server_tokens :: "bool \<times> config_entry \<Rightarrow> bytes list" where
  "server_tokens = (\<lambda>(swapped, e).
     [0x7b] # (if swapped then port_tokens e @ [0x2c] # host_tokens e
               else host_tokens e @ [0x2c] # port_tokens e) @ [[0x7d]])"

fun array_tokens :: "(bool \<times> config_entry) list \<Rightarrow> bytes list" where
  "array_tokens [] = []"
| "array_tokens [x] = server_tokens x @ [[0x5d]]"
| "array_tokens (x # y # xs) = server_tokens x @ [0x2c] # array_tokens (y # xs)"

definition config_tokens :: "(bool \<times> config_entry) list \<Rightarrow> bytes list" where
  "config_tokens xs = [0x7b] # quoted servers_key # [0x3a] # [0x5b] # array_tokens xs @ [[0x7d]]"

text \<open>The text consists of the tokens in order, with white space before, between and after them.\<close>

inductive laid_out :: "bytes list \<Rightarrow> bytes \<Rightarrow> bool" where
  end_space: "list_all isspace w \<Longrightarrow> laid_out [] w"
| token: "list_all isspace w \<Longrightarrow> laid_out ts q \<Longrightarrow> laid_out (t # ts) (w @ t @ q)"

inductive_cases laid_out_NilE: "laid_out [] p"
inductive_cases laid_out_ConsE: "laid_out (t # ts) p"

section \<open>Reading the tokens\<close>

lemma skip_layout: "list_all isspace w \<Longrightarrow> skip_space (w @ q) = skip_space q"
  by (induction w) auto

lemma expect_token:
  assumes "laid_out ([c] # ts) p" "\<not> isspace c"
  obtains q where "expect p c = Some q" "laid_out ts q"
proof -
  from assms(1) obtain w q where "p = w @ [c] @ q" "list_all isspace w" "laid_out ts q"
    by (elim laid_out_ConsE)
  with assms(2) that show ?thesis by (simp add: expect_def skip_layout)
qed

lemma skip_token:
  assumes "laid_out ((c # t) # ts) p" "\<not> isspace c"
  obtains q where "skip_space p = c # t @ q" "laid_out ts q"
proof -
  from assms(1) obtain w q where "p = w @ (c # t) @ q" "list_all isspace w" "laid_out ts q"
    by (elim laid_out_ConsE)
  with assms(2) that show ?thesis by (simp add: skip_layout)
qed

lemma scan_quoted: "scan_string (concat (map escaped s) @ 0x22 # q) = Some (length s, concat (map escaped s), q)"
  by (induction s) (auto simp: escaped_def)

lemma copy_quoted: "copy_string (concat (map escaped s)) = Some s"
  by (induction s) (auto simp: escaped_def escape_value_def)

text \<open>An allocator that never fails.\<close>

abbreviation plenty :: "cmem \<Rightarrow> bool" where
  "plenty m \<equiv> cm_script m = []"

lemma plenty_simps [simp]:
  "plenty m \<Longrightarrow> cm_malloc m = (True, m\<lparr>cm_live := cm_live m + 1\<rparr>)"
  "cm_script (cm_free p m) = cm_script m"
  by (simp_all add: cm_malloc_def cm_free_def)

lemma parse_string_token:
  assumes "laid_out (quoted s # ts) p" "plenty m"
  obtains q m' where "parse_string p m = (Some (s, q), m')" "plenty m'" "laid_out ts q"
proof -
  from assms(1) obtain q where "skip_space p = 0x22 # (concat (map escaped s) @ [0x22]) @ q" "laid_out ts q"
    unfolding quoted_def by (rule skip_token) (simp add: isspace_def)
  with assms(2) that show ?thesis by (simp add: parse_string_def scan_quoted copy_quoted)
qed

lemma decimal_Cons: "\<exists>c t. decimal n = c # t \<and> isdigit c"
  using decimal_digits [of "hd (decimal n)" n] by (cases "decimal n") (auto simp: isdigit_def)

lemma digit_step:
  assumes "d < 10" "v * 10 + d < 65536"
  shows "parse_digits v b ((48 + of_nat d) # q) = parse_digits (v * 10 + d) True q"
proof -
  have "d \<in> {0, 1, 2, 3, 4, 5, 6, 7, 8, 9}" using assms(1) by auto
  then have "isdigit (48 + of_nat d)" "unat (of_nat d :: byte) = d"
    by (auto simp: isdigit_def)
  then show ?thesis using assms by (auto simp: Let_def)
qed

lemma parse_decimal: "n < 65536 \<Longrightarrow> parse_digits 0 b (decimal n @ q) = parse_digits n True q"
proof (induction n arbitrary: q rule: decimal.induct)
  case (1 n)
  show ?case
  proof (cases "n < 10")
    case True
    then show ?thesis using digit_step [of n 0 b q] by (simp add: decimal.simps [of n])
  next
    case False
    then show ?thesis
      using "1.IH" [of "(48 + of_nat (n mod 10)) # q"] digit_step [of "n mod 10" "n div 10" True q] "1.prems"
      by (simp add: decimal.simps [of n])
  qed
qed

lemma parse_digits_stop: "q = [] \<or> \<not> isdigit (hd q) \<Longrightarrow> parse_digits v b q = Some (v, b, q)"
  by (cases q) auto

lemma space_no_digit: "isspace c \<Longrightarrow> \<not> isdigit c"
  by (auto simp: isspace_def isdigit_def word_le_nat_alt)

lemma parse_port_token:
  assumes "laid_out (decimal (unat port) # [c] # ts) p" "port \<noteq> 0" "\<not> isdigit c"
  obtains q where "parse_port p = Some (port, q)" "laid_out ([c] # ts) q"
proof -
  obtain x t where dec: "decimal (unat port) = x # t" "isdigit x" using decimal_Cons by blast
  have "\<not> isspace x" using dec space_no_digit by blast
  with assms(1) dec obtain q where q: "skip_space p = decimal (unat port) @ q" "laid_out ([c] # ts) q"
    by (metis append_Cons skip_token)
  have "\<not> isdigit (hd q)"
  proof -
    from q(2) obtain w r where "q = w @ [c] @ r" "list_all isspace w" by (elim laid_out_ConsE)
    then show ?thesis using assms(3) space_no_digit by (cases w) auto
  qed
  moreover have "unat port < 65536" using unsigned_less [of port, where ?'a = nat] by simp
  moreover have "unat port \<noteq> 0" using assms(2) by (simp add: unat_eq_zero)
  ultimately show ?thesis
    using q that by (simp add: parse_port_def parse_decimal parse_digits_stop)
qed


section \<open>Reading a configuration\<close>

definition no_vars :: server_vars where
  "no_vars = \<lparr>sv_host = None, sv_port = 0, sv_have_host = False, sv_have_port = False\<rparr>"

lemma char_classes:
  "\<not> isspace 0x7b" "\<not> isspace 0x7d" "\<not> isspace 0x5b" "\<not> isspace 0x5d" "\<not> isspace 0x2c" "\<not> isspace 0x3a" "\<not> isspace 0x22"
  "\<not> isdigit 0x2c" "\<not> isdigit 0x7d"
  by (simp_all add: isspace_def isdigit_def)

lemma read_host:
  assumes "laid_out (host_tokens e @ ts) p" "plenty m" "\<not> sv_have_host v" "cfg_host e \<noteq> []"
  obtains q m' where
    "server_member p v m = (Some q, v\<lparr>sv_host := Some (cfg_host e), sv_have_host := True\<rparr>, m')"
    "plenty m'" "laid_out ts q"
proof -
  from assms(1) have "laid_out (quoted host_key # [0x3a] # quoted (cfg_host e) # ts) p" by (simp add: host_tokens_def)
  from parse_string_token [OF this assms(2)] obtain q1 m1 where
    1: "parse_string p m = (Some (host_key, q1), m1)" "plenty m1" "laid_out ([0x3a] # quoted (cfg_host e) # ts) q1"
    by blast
  from expect_token [OF 1(3) char_classes(6)] obtain q2 where
    2: "expect q1 0x3a = Some q2" "laid_out (quoted (cfg_host e) # ts) q2" by blast
  from parse_string_token [OF 2(2) 1(2)] obtain q3 m3 where
    3: "parse_string q2 m1 = (Some (cfg_host e, q3), m3)" "plenty m3" "laid_out ts q3" by blast
  show ?thesis using that 1 2 3 assms(3,4) by (simp add: server_member_def Let_def)
qed

lemma read_port:
  assumes "laid_out (port_tokens e @ [c] # ts) p" "plenty m" "\<not> sv_have_port v" "cfg_port e \<noteq> 0" "\<not> isdigit c"
  obtains q m' where
    "server_member p v m = (Some q, v\<lparr>sv_port := cfg_port e, sv_have_port := True\<rparr>, m')"
    "plenty m'" "laid_out ([c] # ts) q"
proof -
  from assms(1) have "laid_out (quoted port_key # [0x3a] # decimal (unat (cfg_port e)) # [c] # ts) p"
    by (simp add: port_tokens_def)
  from parse_string_token [OF this assms(2)] obtain q1 m1 where
    1: "parse_string p m = (Some (port_key, q1), m1)" "plenty m1"
      "laid_out ([0x3a] # decimal (unat (cfg_port e)) # [c] # ts) q1"
    by blast
  from expect_token [OF 1(3) char_classes(6)] obtain q2 where
    2: "expect q1 0x3a = Some q2" "laid_out (decimal (unat (cfg_port e)) # [c] # ts) q2" by blast
  from parse_port_token [OF 2(2) assms(4,5)] obtain q3 where
    3: "parse_port q2 = Some (cfg_port e, q3)" "laid_out ([c] # ts) q3" by blast
  show ?thesis using that 1 2 3 assms(3) by (simp add: server_member_def port_key_def host_key_def)
qed

text \<open>A member never begins with the closing brace.\<close>

lemma member_start:
  assumes "laid_out (quoted k # ts) p"
  shows "skip_space p \<noteq> []" "hd (skip_space p) = 0x22" "skip_space (skip_space p) = skip_space p"
proof -
  obtain q where "skip_space p = 0x22 # (concat (map escaped k) @ [0x22]) @ q"
    using assms unfolding quoted_def by (rule skip_token) (simp add: isspace_def)
  then show "skip_space p \<noteq> []" "hd (skip_space p) = 0x22" "skip_space (skip_space p) = skip_space p"
    by (simp_all add: isspace_def)
qed

lemma laid_out_skip: "laid_out (quoted k # ts) p \<Longrightarrow> laid_out (quoted k # ts) (skip_space p)"
  using token [of "[]" ts _ "quoted k"] unfolding quoted_def
  by (elim skip_token) (auto simp: isspace_def)

lemma members_step:
  assumes "laid_out (quoted k # ts) p" "server_member (skip_space p) v m = (Some q, v', m')"
    and "skip_space q = c # cs" "c = 0x2c \<or> c = 0x7d"
  shows "server_members p v m = (if c = 0x2c then server_members cs v' m' else server_finish cs v' m')"
  using assms member_start [OF assms(1)] by (auto simp: server_members.simps [of p] Let_def)

lemma skip_mark:
  assumes "laid_out ([c] # ts) p" "\<not> isspace c"
  obtains q where "skip_space p = c # q" "laid_out ts q"
  using skip_token [OF assms] that by auto

lemma no_vars_simps [simp]: "\<not> sv_have_host no_vars" "\<not> sv_have_port no_vars"
  by (simp_all add: no_vars_def)

lemma parse_server_host_first:
  assumes "laid_out ([0x7b] # host_tokens e @ [0x2c] # port_tokens e @ [0x7d] # ts) p"
    and "plenty m" "cfg_host e \<noteq> []" "cfg_port e \<noteq> 0"
  obtains q m' where "parse_server p m = (Some (e, q), m')" "plenty m'" "laid_out ts q"
proof -
  let ?v = "no_vars\<lparr>sv_host := Some (cfg_host e), sv_have_host := True\<rparr>"
  let ?w = "?v\<lparr>sv_port := cfg_port e, sv_have_port := True\<rparr>"
  have no_port: "\<not> sv_have_port ?v" by simp
  from expect_token [OF assms(1) char_classes(1)] obtain a where
    a: "expect p 0x7b = Some a" "laid_out (host_tokens e @ [0x2c] # port_tokens e @ [0x7d] # ts) a" by blast
  then have "laid_out (host_tokens e @ [0x2c] # port_tokens e @ [0x7d] # ts) (skip_space a)"
    using laid_out_skip [of host_key] by (simp add: host_tokens_def)
  from read_host [OF this assms(2) no_vars_simps(1) assms(3)] obtain b m1 where
    b: "server_member (skip_space a) no_vars m = (Some b, ?v, m1)" "plenty m1"
      "laid_out ([0x2c] # port_tokens e @ [0x7d] # ts) b"
    by blast
  from skip_mark [OF b(3) char_classes(5)] obtain c where
    c: "skip_space b = 0x2c # c" "laid_out (port_tokens e @ [0x7d] # ts) c" by blast
  then have "laid_out (port_tokens e @ [0x7d] # ts) (skip_space c)"
    using laid_out_skip [of port_key] by (simp add: port_tokens_def)
  from read_port [OF this b(2) no_port assms(4) char_classes(9)] obtain d m2 where
    d: "server_member (skip_space c) ?v m1 = (Some d, ?w, m2)" "plenty m2" "laid_out ([0x7d] # ts) d"
    by blast
  from skip_mark [OF d(3) char_classes(2)] obtain r where r: "skip_space d = 0x7d # r" "laid_out ts r" by blast
  have "server_members a no_vars m = server_members c ?v m1"
    using members_step [OF _ b(1) c(1)] a(2) by (simp add: host_tokens_def)
  also have "\<dots> = server_finish r ?w m2"
    using members_step [OF _ d(1) r(1)] c(2) by (simp add: port_tokens_def)
  finally show ?thesis using that a(1) d(2) r(2) by (simp add: parse_server_def server_finish_def no_vars_def)
qed

lemma parse_server_port_first:
  assumes "laid_out ([0x7b] # port_tokens e @ [0x2c] # host_tokens e @ [0x7d] # ts) p"
    and "plenty m" "cfg_host e \<noteq> []" "cfg_port e \<noteq> 0"
  obtains q m' where "parse_server p m = (Some (e, q), m')" "plenty m'" "laid_out ts q"
proof -
  let ?v = "no_vars\<lparr>sv_port := cfg_port e, sv_have_port := True\<rparr>"
  let ?w = "?v\<lparr>sv_host := Some (cfg_host e), sv_have_host := True\<rparr>"
  have no_host: "\<not> sv_have_host ?v" by simp
  from expect_token [OF assms(1) char_classes(1)] obtain a where
    a: "expect p 0x7b = Some a" "laid_out (port_tokens e @ [0x2c] # host_tokens e @ [0x7d] # ts) a" by blast
  then have "laid_out (port_tokens e @ [0x2c] # host_tokens e @ [0x7d] # ts) (skip_space a)"
    using laid_out_skip [of port_key] by (simp add: port_tokens_def)
  from read_port [OF this assms(2) no_vars_simps(2) assms(4) char_classes(8)] obtain b m1 where
    b: "server_member (skip_space a) no_vars m = (Some b, ?v, m1)" "plenty m1"
      "laid_out ([0x2c] # host_tokens e @ [0x7d] # ts) b"
    by blast
  from skip_mark [OF b(3) char_classes(5)] obtain c where
    c: "skip_space b = 0x2c # c" "laid_out (host_tokens e @ [0x7d] # ts) c" by blast
  then have "laid_out (host_tokens e @ [0x7d] # ts) (skip_space c)"
    using laid_out_skip [of host_key] by (simp add: host_tokens_def)
  from read_host [OF this b(2) no_host assms(3)] obtain d m2 where
    d: "server_member (skip_space c) ?v m1 = (Some d, ?w, m2)" "plenty m2" "laid_out ([0x7d] # ts) d"
    by blast
  from skip_mark [OF d(3) char_classes(2)] obtain r where r: "skip_space d = 0x7d # r" "laid_out ts r" by blast
  have "server_members a no_vars m = server_members c ?v m1"
    using members_step [OF _ b(1) c(1)] a(2) by (simp add: port_tokens_def)
  also have "\<dots> = server_finish r ?w m2"
    using members_step [OF _ d(1) r(1)] c(2) by (simp add: host_tokens_def)
  finally show ?thesis using that a(1) d(2) r(2) by (simp add: parse_server_def server_finish_def no_vars_def)
qed

lemma parse_server_tokens:
  assumes "laid_out (server_tokens x @ ts) p" "plenty m" "cfg_host (snd x) \<noteq> []" "cfg_port (snd x) \<noteq> 0"
  obtains q m' where "parse_server p m = (Some (snd x, q), m')" "plenty m'" "laid_out ts q"
proof (cases "fst x")
  case True
  with assms(1) have "laid_out ([0x7b] # port_tokens (snd x) @ [0x2c] # host_tokens (snd x) @ [0x7d] # ts) p"
    by (simp add: server_tokens_def split_beta)
  from parse_server_port_first [OF this assms(2-4)] that show ?thesis by blast
next
  case False
  with assms(1) have "laid_out ([0x7b] # host_tokens (snd x) @ [0x2c] # port_tokens (snd x) @ [0x7d] # ts) p"
    by (simp add: server_tokens_def split_beta)
  from parse_server_host_first [OF this assms(2-4)] that show ?thesis by blast
qed

lemma servers_loop_tokens:
  assumes "xs \<noteq> []" "laid_out (array_tokens xs @ ts) p" "plenty m" "list_all entry_ok (map snd xs)"
    and "length servers + length xs < 2 ^ 60"
  shows "\<exists>q m'. servers_loop p servers m = (Some q, servers @ map snd xs, m') \<and> plenty m' \<and> laid_out ts q"
  using assms
proof (induction xs arbitrary: p servers m rule: array_tokens.induct)
  case (2 x)
  from "2.prems" have tok: "laid_out (server_tokens x @ [0x5d] # ts) p" and ok: "cfg_host (snd x) \<noteq> []" "cfg_port (snd x) \<noteq> 0"
    by (simp_all add: entry_ok_def)
  from parse_server_tokens [OF tok "2.prems"(3) ok] obtain q m1 where
    q: "parse_server p m = (Some (snd x, q), m1)" "plenty m1" "laid_out ([0x5d] # ts) q" by blast
  from skip_mark [OF q(3) char_classes(4)] obtain r where r: "skip_space q = 0x5d # r" "laid_out ts r" by blast
  show ?case
    using "2.prems"(5) q r by (simp add: servers_loop.simps [of p] append_server_def Let_def)
next
  case (3 x y xs)
  from "3.prems" have tok: "laid_out (server_tokens x @ [0x2c] # array_tokens (y # xs) @ ts) p"
    and ok: "cfg_host (snd x) \<noteq> []" "cfg_port (snd x) \<noteq> 0"
    by (simp_all add: entry_ok_def)
  from parse_server_tokens [OF tok "3.prems"(3) ok] obtain q m1 where
    q: "parse_server p m = (Some (snd x, q), m1)" "plenty m1" "laid_out ([0x2c] # array_tokens (y # xs) @ ts) q" by blast
  from skip_mark [OF q(3) char_classes(5)] obtain r where
    r: "skip_space q = 0x2c # r" "laid_out (array_tokens (y # xs) @ ts) r" by blast
  obtain m2 where app: "append_server servers (snd x) m1 = (True, servers @ [snd x], m2)" "plenty m2"
    using "3.prems"(5) q(2) by (simp add: append_server_def Let_def)
  have "\<exists>q m'. servers_loop r (servers @ [snd x]) m2 = (Some q, (servers @ [snd x]) @ map snd (y # xs), m') \<and>
      plenty m' \<and> laid_out ts q"
    by (rule "3.IH") (use r(2) app(2) "3.prems"(4,5) in simp_all)
  then show ?case
    using q(1) app(1) r(1) by (auto simp: servers_loop.simps [of p])
qed simp

lemma end_of_text: "laid_out [] r \<Longrightarrow> skip_space r = []"
  by (elim laid_out_NilE) (use skip_layout [of r "[]"] in simp)

lemma array_start:
  assumes "laid_out (array_tokens xs @ ts) p" "xs \<noteq> []"
  obtains q where "skip_space p = 0x7b # q" "laid_out (array_tokens xs @ ts) (skip_space p)"
proof -
  obtain us where us: "array_tokens xs = [0x7b] # us"
    using assms(2) by (cases xs rule: array_tokens.cases) (auto simp: server_tokens_def split_beta)
  then have tok: "laid_out ((0x7b # []) # us @ ts) p" using assms(1) by simp
  from skip_token [OF this char_classes(1)] obtain q where q: "skip_space p = 0x7b # q" "laid_out (us @ ts) q"
    by auto
  moreover have "laid_out (array_tokens xs @ ts) (skip_space p)"
    using token [OF _ q(2), of "[]" "[0x7b]"] us q(1) by simp
  ultimately show ?thesis using that by blast
qed

lemma parse_config_tokens:
  assumes "laid_out (config_tokens xs) p" "plenty m" "xs \<noteq> []" "list_all entry_ok (map snd xs)" "length xs < 2 ^ 60"
  obtains m' where "parse_config p [] m = (True, map snd xs, m')"
proof -
  from assms(1) have "laid_out ([0x7b] # quoted servers_key # [0x3a] # [0x5b] # array_tokens xs @ [[0x7d]]) p"
    by (simp add: config_tokens_def)
  from expect_token [OF this char_classes(1)] obtain a where
    a: "expect p 0x7b = Some a" "laid_out (quoted servers_key # [0x3a] # [0x5b] # array_tokens xs @ [[0x7d]]) a" by blast
  from parse_string_token [OF laid_out_skip [OF a(2)] assms(2)] obtain b m1 where
    b: "parse_string (skip_space a) m = (Some (servers_key, b), m1)" "plenty m1"
      "laid_out ([0x3a] # [0x5b] # array_tokens xs @ [[0x7d]]) b"
    by blast
  from expect_token [OF b(3) char_classes(6)] obtain c where
    c: "expect b 0x3a = Some c" "laid_out ([0x5b] # array_tokens xs @ [[0x7d]]) c" by blast
  from expect_token [OF c(2) char_classes(3)] obtain d where
    d: "expect c 0x5b = Some d" "laid_out (array_tokens xs @ [[0x7d]]) d" by blast
  from array_start [OF d(2) assms(3)] obtain d2 where
    d2: "skip_space d = 0x7b # d2" "laid_out (array_tokens xs @ [[0x7d]]) (skip_space d)" by blast
  obtain e m2 where loop: "servers_loop (skip_space d) [] m1 = (Some e, map snd xs, m2)" "laid_out [[0x7d]] e"
    using servers_loop_tokens [OF assms(3) d2(2) b(2) assms(4), of "[]"] assms(5) by auto
  have servers: "parse_servers c [] m1 = (Some e, map snd xs, m2)"
    using d(1) d2(1) loop(1) by (simp add: parse_servers_def)
  from skip_mark [OF loop(2) char_classes(2)] obtain r where r: "skip_space e = 0x7d # r" "laid_out [] r" by blast
  have "config_members a False [] m = (True, map snd xs, cm_free (Some servers_key) m2)"
    using member_start [OF a(2)] b(1) c(1) servers r end_of_text [OF r(2)] assms(3)
    by (simp add: config_members.simps [of a] Let_def config_member_def config_finish_def)
  then show ?thesis using that a(1) by (simp add: parse_config_def)
qed

lemma laid_out_no_nul: "laid_out ts p \<Longrightarrow> \<forall>t \<in> set ts. 0 \<notin> set t \<Longrightarrow> 0 \<notin> set p"
  by (induction rule: laid_out.induct) (auto simp: list_all_iff isspace_def)

lemma quoted_no_nul: "0 \<notin> set s \<Longrightarrow> 0 \<notin> set (quoted s)"
  by (auto simp: quoted_def escaped_def)

lemma decimal_no_nul: "0 \<notin> set (decimal n)"
  using decimal_digits [of 0 n] by auto

lemma key_no_nul: "0 \<notin> set host_key" "0 \<notin> set port_key" "0 \<notin> set servers_key"
  by (simp_all add: host_key_def port_key_def servers_key_def)

lemma server_tokens_no_nul: "entry_ok (snd x) \<Longrightarrow> \<forall>t \<in> set (server_tokens x). 0 \<notin> set t"
  by (simp add: server_tokens_def host_tokens_def port_tokens_def entry_ok_def split_beta decimal_no_nul
      quoted_no_nul key_no_nul)

lemma array_tokens_no_nul: "list_all entry_ok (map snd xs) \<Longrightarrow> \<forall>t \<in> set (array_tokens xs). 0 \<notin> set t"
  by (induction xs rule: array_tokens.induct) (use server_tokens_no_nul in \<open>auto\<close>)

lemma config_tokens_no_nul: "list_all entry_ok (map snd xs) \<Longrightarrow> \<forall>t \<in> set (config_tokens xs). 0 \<notin> set t"
  using array_tokens_no_nul [of xs] by (simp add: config_tokens_def quoted_no_nul key_no_nul ball_Un)

definition file_of :: "bytes \<Rightarrow> file_env" where
  "file_of raw = \<lparr>fe_open = True, fe_seek_end = True, fe_tell = int (length raw), fe_seek_set = True, fe_data = raw\<rparr>"

lemma read_file_of:
  assumes "plenty m" "length raw < 2 ^ 63"
  obtains m' where "read_file (file_of raw) m = (Some raw, m')" "plenty m'"
proof -
  have "length raw < 9223372036854775808" using assms(2) by simp
  then have "int (length raw) < 9223372036854775808" by linarith
  with assms that show ?thesis
    by (simp add: read_file_def file_of_def Let_def cm_fopen_def cm_fclose_def)
qed

text \<open>
  C39. A configuration file is read back as the list of servers that it was written
  for, in order: whatever white space stands between the tokens and whichever member of a server comes
  first, loading succeeds and yields exactly those hosts and ports, quotes and backslashes in a host
  included. The port is any 16 bit number but 0, the host any non-empty string without a NUL.
\<close>

theorem config_round_trip:
  assumes "laid_out (config_tokens xs) raw" and "length raw < 2 ^ 63"
    and "xs \<noteq> []" and "list_all entry_ok (map snd xs)" and "length xs < 2 ^ 60" and "cm_script m = []"
  shows "\<exists>m'. stn_chain_config_load (Some config) (Some (file_of raw)) m = (True, Some (map snd xs), m')"
proof -
  from read_file_of [OF assms(6,2)] obtain m1 where rf: "read_file (file_of raw) m = (Some raw, m1)" "plenty m1"
    by blast
  have "0 \<notin> set raw" using laid_out_no_nul [OF assms(1)] config_tokens_no_nul [OF assms(4)] by blast
  then have "c_text raw = raw" by (auto simp: c_text_def takeWhile_eq_all_conv)
  moreover from parse_config_tokens [OF assms(1) rf(2) assms(3-5)] obtain m2 where
    "parse_config raw [] m1 = (True, map snd xs, m2)" by blast
  ultimately show ?thesis using rf(1) by (simp add: stn_chain_config_load_def)
qed

lemma laid_out_spaced: "list_all isspace w \<Longrightarrow> laid_out ts (concat (map (\<lambda>t. w @ t) ts))"
  by (induction ts) (auto intro: token end_space [of "[]", simplified])

theorem config_round_trip_witness:
  "\<exists>m'. stn_chain_config_load (Some [])
     (Some (file_of (concat (map (\<lambda>t. [10, 32] @ t)
        (config_tokens [(True, \<lparr>cfg_host = [0x61, 0x22], cfg_port = 65535\<rparr>), (False, \<lparr>cfg_host = [0x5c], cfg_port = 1\<rparr>)])))))
     \<lparr>cm_script = [], cm_live = 0, cm_files = 0\<rparr> =
   (True, Some [\<lparr>cfg_host = [0x61, 0x22], cfg_port = 65535\<rparr>, \<lparr>cfg_host = [0x5c], cfg_port = 1\<rparr>], m')"
proof -
  let ?xs = "[(True, \<lparr>cfg_host = [0x61, 0x22], cfg_port = 65535\<rparr>), (False, \<lparr>cfg_host = [0x5c], cfg_port = 1\<rparr>)]"
  have "laid_out (config_tokens ?xs) (concat (map (\<lambda>t. [10, 32] @ t) (config_tokens ?xs)))"
    by (rule laid_out_spaced) (simp add: isspace_def)
  moreover have "length (concat (map (\<lambda>t. [10, 32] @ t) (config_tokens ?xs))) < 2 ^ 63"
    by (simp add: config_tokens_def server_tokens_def host_tokens_def port_tokens_def quoted_def escaped_def
        host_key_def port_key_def servers_key_def decimal.simps)
  ultimately show ?thesis
    using config_round_trip [of ?xs _ "\<lparr>cm_script = [], cm_live = 0, cm_files = 0\<rparr>" "[]"]
    by (simp add: entry_ok_def)
qed

end
