(* ===== verification/Telemetry.thy ===== *)
theory Telemetry
  imports Sessions Text_Format
begin

text \<open>
  The telemetry service (\<^verbatim>\<open>src/stn_telemetry.c\<close>): the status page, the HTTP clients, and the snapshot
  through which the main thread hands the status to the worker thread. A character array in a structure
  is the C string that it holds; \<^verbatim>\<open>memset (..., '0', 64)\<close> makes 64 digits.

  As with the mining server, an HTTP client carries the script of its connection and an identity that
  stands for its address; looking up a client that is gone sets \<open>tel_fault\<close>. \<open>tc_wire\<close> records what was
  sent.
\<close>

section \<open>The status page\<close>

record tel_status =
  st_connected :: bool
  st_host :: "bytes option"
  st_port :: u16
  st_work :: bool
  st_miners :: nat
  st_hashrate :: u64
  st_job :: "bytes option"
  st_base :: "bytes option"
  st_target :: "bytes option"
  st_uptime :: u64

fun ends_head :: "bytes \<Rightarrow> bool" where
  "ends_head (a # b # c # d # cs) =
     (if a = 13 \<and> b = 10 \<and> c = 13 \<and> d = 10 then True else ends_head (b # c # d # cs))"
| "ends_head _ = False"

definition request_complete :: "bytes option \<Rightarrow> bool" where
  "request_complete request =
     (case request of None \<Rightarrow> False | Some r \<Rightarrow> if length r < 4 then False else ends_head r)"

definition copy_text :: "bytes \<Rightarrow> nat \<Rightarrow> bytes option \<Rightarrow> bytes" where
  "copy_text old output_size input =
     (if output_size = 0 then old
      else
        (case input of
           None \<Rightarrow> []
         | Some s \<Rightarrow> take (if length s \<ge> output_size then output_size - 1 else length s) s))"

definition status_request :: bytes where "status_request = lit ''GET /status ''"
definition root_request :: bytes where "root_request = lit ''GET / ''"

definition stn_telemetry_request_valid :: "bytes option \<Rightarrow> bool" where
  "stn_telemetry_request_valid request =
     (case request of
        None \<Rightarrow> False
      | Some r \<Rightarrow>
        if length r = 0 then False
        else if length r \<ge> length status_request \<and> take (length status_request) r = status_request then True
        else if length r \<ge> length root_request \<and> take (length root_request) r = root_request then True
        else False)"

definition quote :: bytes where "quote = [0x22]"

definition json_bool :: "bool \<Rightarrow> bytes" where
  "json_bool b = (if b then lit ''true'' else lit ''false'')"

text \<open>The format, with the pieces between its conversions.\<close>

definition status_text :: "tel_status \<Rightarrow> bytes" where
  "status_text st =
     lit ''{\"service\":\"STN-Stratum\",\"status\":\"running\",'' @
     lit ''\"chain_connected\":'' @ json_bool (st_connected st) @
     lit '',\"chain_host\":\"'' @ the (st_host st) @
     lit ''\",\"chain_port\":'' @ decimal (unat (st_port st)) @
     lit '',\"work_available\":'' @ json_bool (st_work st) @
     lit '',\"miners\":'' @ decimal (st_miners st) @
     lit '',\"hashrate\":'' @ decimal (unat (st_hashrate st)) @
     lit '',\"job_id\":\"'' @ the (st_job st) @
     lit ''\",\"base_id\":\"'' @ the (st_base st) @
     lit ''\",\"target\":\"'' @ the (st_target st) @
     lit ''\",\"uptime_seconds\":'' @ decimal (unat (st_uptime st)) @ lit ''}'' @ [10]"

definition stn_telemetry_status_json :: "tel_status option \<Rightarrow> nat \<Rightarrow> bytes option" where
  "stn_telemetry_status_json status output_size =
     (case status of
        None \<Rightarrow> None
      | Some st \<Rightarrow>
        if output_size = 0 \<or> st_host st = None \<or> st_job st = None \<or> st_base st = None \<or> st_target st = None
        then None
        else snprintf output_size (status_text st))"

definition crlf :: bytes where "crlf = [13, 10]"

definition response_head :: "nat \<Rightarrow> bytes" where
  "response_head body_length =
     lit ''HTTP/1.1 200 OK'' @ crlf @
     lit ''Content-Type: application/json'' @ crlf @
     lit ''Content-Length: '' @ decimal body_length @ crlf @
     lit ''Cache-Control: no-store'' @ crlf @
     lit ''Connection: close'' @ crlf @ crlf"

definition stn_telemetry_http_response :: "tel_status option \<Rightarrow> nat \<Rightarrow> bytes option" where
  "stn_telemetry_http_response status output_size =
     (if output_size = 0 then None
      else
        (case stn_telemetry_status_json status 2048 of
           None \<Rightarrow> None
         | Some body \<Rightarrow> snprintf output_size (response_head (length body) @ body)))"

definition not_found :: bytes where
  "not_found = lit ''HTTP/1.1 404 Not Found'' @ crlf @ lit ''Content-Length: 0'' @ crlf @
     lit ''Connection: close'' @ crlf @ crlf"

section \<open>The snapshot\<close>

record tel_snapshot =
  sn_connected :: bool
  sn_host :: bytes
  sn_port :: u16
  sn_work :: bool
  sn_miners :: nat
  sn_hashrate :: u64
  sn_job :: bytes
  sn_base :: bytes
  sn_target :: bytes
  sn_uptime :: u64

abbreviation (input) "STN_TELEMETRY_HOST_SIZE \<equiv> (256 :: nat)"
abbreviation (input) "STN_TELEMETRY_HEX_SIZE \<equiv> (65 :: nat)"

definition snapshot_zero :: tel_snapshot where
  "snapshot_zero =
     \<lparr>sn_connected = False, sn_host = [], sn_port = 0, sn_work = False, sn_miners = 0, sn_hashrate = 0,
      sn_job = replicate 64 0x30, sn_base = replicate 64 0x30, sn_target = replicate 64 0x30, sn_uptime = 0\<rparr>"

text \<open>The assignments between the two stores to the sequence number, in order.\<close>

definition snapshot_writes :: "tel_status \<Rightarrow> (tel_snapshot \<Rightarrow> tel_snapshot) list" where
  "snapshot_writes st =
     [\<lambda>n. n\<lparr>sn_connected := st_connected st\<rparr>,
      \<lambda>n. n\<lparr>sn_host := copy_text (sn_host n) STN_TELEMETRY_HOST_SIZE (st_host st)\<rparr>,
      \<lambda>n. n\<lparr>sn_port := st_port st\<rparr>,
      \<lambda>n. n\<lparr>sn_work := st_work st\<rparr>,
      \<lambda>n. n\<lparr>sn_miners := st_miners st\<rparr>,
      \<lambda>n. n\<lparr>sn_hashrate := st_hashrate st\<rparr>,
      \<lambda>n. n\<lparr>sn_job := copy_text (sn_job n) STN_TELEMETRY_HEX_SIZE (st_job st)\<rparr>,
      \<lambda>n. n\<lparr>sn_base := copy_text (sn_base n) STN_TELEMETRY_HEX_SIZE (st_base st)\<rparr>,
      \<lambda>n. n\<lparr>sn_target := copy_text (sn_target n) STN_TELEMETRY_HEX_SIZE (st_target st)\<rparr>,
      \<lambda>n. n\<lparr>sn_uptime := st_uptime st\<rparr>]"

text \<open>The structure assignment \<^verbatim>\<open>*snapshot = service->snapshot\<close>, field by field.\<close>

definition snapshot_copies :: "(tel_snapshot \<Rightarrow> tel_snapshot \<Rightarrow> tel_snapshot) list" where
  "snapshot_copies =
     [\<lambda>a n. n\<lparr>sn_connected := sn_connected a\<rparr>, \<lambda>a n. n\<lparr>sn_host := sn_host a\<rparr>,
      \<lambda>a n. n\<lparr>sn_port := sn_port a\<rparr>, \<lambda>a n. n\<lparr>sn_work := sn_work a\<rparr>,
      \<lambda>a n. n\<lparr>sn_miners := sn_miners a\<rparr>, \<lambda>a n. n\<lparr>sn_hashrate := sn_hashrate a\<rparr>,
      \<lambda>a n. n\<lparr>sn_job := sn_job a\<rparr>, \<lambda>a n. n\<lparr>sn_base := sn_base a\<rparr>,
      \<lambda>a n. n\<lparr>sn_target := sn_target a\<rparr>, \<lambda>a n. n\<lparr>sn_uptime := sn_uptime a\<rparr>]"

text \<open>The status that the worker makes of its copy.\<close>

definition status_of_snapshot :: "tel_snapshot \<Rightarrow> tel_status" where
  "status_of_snapshot n =
     \<lparr>st_connected = sn_connected n, st_host = Some (sn_host n), st_port = sn_port n, st_work = sn_work n,
      st_miners = sn_miners n, st_hashrate = sn_hashrate n, st_job = Some (sn_job n),
      st_base = Some (sn_base n), st_target = Some (sn_target n), st_uptime = sn_uptime n\<rparr>"

section \<open>HTTP clients\<close>

text \<open>What \<^verbatim>\<open>send\<close> will return; an exhausted script means that the peer takes everything.\<close>

datatype tx_event = Tx_Some nat | Tx_Eintr | Tx_Again | Tx_Fail

text \<open>
  \<open>tc_request\<close> and \<open>tc_response\<close> are the used parts of the buffers, so that the lengths of the code are
  their lengths.
\<close>

record tel_client =
  tc_id :: nat
  tc_socket :: int
  tc_request :: bytes
  tc_response :: bytes
  tc_sent :: nat
  tc_connected :: int
  tc_rx :: "recv_event list"
  tc_tx :: "tx_event list"
  tc_wire :: bytes

definition prepare_response :: "tel_client \<Rightarrow> tel_status \<Rightarrow> bool \<times> tel_client" where
  "prepare_response c st =
     (if stn_telemetry_request_valid (Some (tc_request c)) then
        (case stn_telemetry_http_response (Some st) 4096 of
           None \<Rightarrow> (False, c)
         | Some r \<Rightarrow> (True, c\<lparr>tc_response := r, tc_sent := 0\<rparr>))
      else (True, c\<lparr>tc_response := not_found, tc_sent := 0\<rparr>))"

text \<open>The receive loop of \<open>client_tick\<close>; \<open>False\<close> means that the client is to be dropped.\<close>

function tel_receive :: "tel_client \<Rightarrow> tel_status \<Rightarrow> bool \<times> tel_client" where
  "tel_receive c st =
     (let remaining = 1024 - 1 - length (tc_request c) in
      if remaining = 0 then (False, c)
      else
        (case sock_recv remaining (tc_rx c) of
           (Got d, es) \<Rightarrow>
             (let c' = c\<lparr>tc_request := tc_request c @ d, tc_rx := es\<rparr> in
              if request_complete (Some (tc_request c')) then prepare_response c' st
              else tel_receive c' st)
         | (Got_Eof, es) \<Rightarrow> (False, c\<lparr>tc_rx := es\<rparr>)
         | (Got_Eintr, es) \<Rightarrow> tel_receive (c\<lparr>tc_rx := es\<rparr>) st
         | (Got_Again, es) \<Rightarrow> (True, c\<lparr>tc_rx := es\<rparr>)
         | (Got_Error, es) \<Rightarrow> (False, c\<lparr>tc_rx := es\<rparr>)))"
  by pat_completeness auto
termination
  by (relation "measure (\<lambda>(c, st). pending (tc_rx c))")
    (auto dest!: sock_recv_Got [OF sym] sock_recv_Eintr [OF sym])

declare tel_receive.simps [simp del]

datatype tel_sent = All_Sent | Send_Blocked | Send_Dropped

text \<open>The send loop: how it ended, the script left, the bytes sent.\<close>

fun tel_send :: "tx_event list \<Rightarrow> bytes \<Rightarrow> tel_sent \<times> tx_event list \<times> bytes" where
  "tel_send es [] = (All_Sent, es, [])"
| "tel_send [] p = (All_Sent, [], p)"
| "tel_send (Tx_Eintr # es) p = tel_send es p"
| "tel_send (Tx_Again # es) p = (Send_Blocked, es, [])"
| "tel_send (Tx_Fail # es) p = (Send_Dropped, es, [])"
| "tel_send (Tx_Some k # es) p =
     (if k = 0 then (Send_Dropped, es, [])
      else
        (let sent = min k (length p) in
         case tel_send es (drop sent p) of (r, es', out) \<Rightarrow> (r, es', take sent p @ out)))"

definition client_expired :: "tel_client \<Rightarrow> int \<Rightarrow> bool" where
  "client_expired c now \<longleftrightarrow> tc_connected c \<noteq> 0 \<and> now \<ge> tc_connected c \<and> now - tc_connected c \<ge> 2"

definition client_tick :: "tel_client \<Rightarrow> tel_status \<Rightarrow> int \<Rightarrow> bool \<times> tel_client" where
  "client_tick c st now =
     (case (if length (tc_response c) = 0 then tel_receive c st else (True, c)) of
        (go, c) \<Rightarrow>
          if \<not> go then (False, c)
          else if length (tc_response c) > 0 then
            (case tel_send (tc_tx c) (drop (tc_sent c) (tc_response c)) of
               (r, es, out) \<Rightarrow>
                 (let c = c\<lparr>tc_tx := es, tc_sent := tc_sent c + length out, tc_wire := tc_wire c @ out\<rparr> in
                  if r = Send_Dropped then (False, c)
                  else if tc_sent c = length (tc_response c) then (False, c)
                  else if client_expired c now then (False, c)
                  else (True, c)))
          else if client_expired c now then (False, c)
          else (True, c))"

section \<open>The service\<close>

text \<open>What \<^verbatim>\<open>accept\<close> will return; every failure ends the loop.\<close>

datatype tel_accept = Tel_Conn nat bool "recv_event list" "tx_event list" | Tel_None

record tel_service =
  tel_listen :: int
  tel_clients :: "tel_client list"
  tel_count :: nat
  tel_port :: u16
  tel_running :: bool
  tel_started :: bool
  tel_sequence :: u32
  tel_snap :: tel_snapshot
  tel_accepts :: "tel_accept list"
  tel_mem :: "bool list"
  tel_next_id :: nat
  tel_closed :: "int list"
  tel_fault :: bool

definition stn_telemetry_service_init :: "u16 \<Rightarrow> tel_accept list \<Rightarrow> bool list \<Rightarrow> tel_service" where
  "stn_telemetry_service_init port accepts mem =
     \<lparr>tel_listen = STN_INVALID_SOCKET, tel_clients = [], tel_count = 0, tel_port = port,
      tel_running = False, tel_started = False, tel_sequence = 0, tel_snap = snapshot_zero,
      tel_accepts = accepts, tel_mem = mem, tel_next_id = 0, tel_closed = [], tel_fault = False\<rparr>"

definition tel_close_fd :: "int \<Rightarrow> tel_service \<Rightarrow> tel_service" where
  "tel_close_fd fd s = s\<lparr>tel_closed := tel_closed s @ [fd]\<rparr>"

definition tel_find :: "nat \<Rightarrow> tel_service \<Rightarrow> tel_client option" where
  "tel_find cid s = find (\<lambda>c. tc_id c = cid) (tel_clients s)"

text \<open>Unlinking, closing and freeing; a client that is not in the list is left alone.\<close>

definition tel_client_remove :: "nat \<Rightarrow> tel_service \<Rightarrow> tel_service" where
  "tel_client_remove cid s =
     (case tel_find cid s of
        None \<Rightarrow> s
      | Some c \<Rightarrow>
        (let s = s\<lparr>tel_clients := filter (\<lambda>d. tc_id d \<noteq> cid) (tel_clients s)\<rparr>;
             s = (if tc_socket c \<noteq> STN_INVALID_SOCKET then tel_close_fd (tc_socket c) s else s)
         in if tel_count s > 0 then s\<lparr>tel_count := tel_count s - 1\<rparr> else s))"

fun tel_accept_loop :: "tel_accept list \<Rightarrow> int \<Rightarrow> tel_service \<Rightarrow> tel_service" where
  "tel_accept_loop [] now s = s\<lparr>tel_accepts := []\<rparr>"
| "tel_accept_loop (Tel_None # es) now s = s\<lparr>tel_accepts := es\<rparr>"
| "tel_accept_loop (Tel_Conn fd nonblocking ins outs # es) now s =
     (if \<not> nonblocking then tel_accept_loop es now (tel_close_fd (int fd) s)
      else
        (case alloc_next (tel_mem s) of
           (got, mem) \<Rightarrow>
             (let s = s\<lparr>tel_mem := mem\<rparr> in
              if \<not> got then tel_accept_loop es now (tel_close_fd (int fd) s)
              else
                tel_accept_loop es now
                  (s\<lparr>tel_clients :=
                       \<lparr>tc_id = tel_next_id s, tc_socket = int fd, tc_request = [], tc_response = [],
                        tc_sent = 0, tc_connected = now, tc_rx = ins, tc_tx = outs, tc_wire = []\<rparr> # tel_clients s,
                     tel_next_id := tel_next_id s + 1,
                     tel_count := tel_count s + 1\<rparr>))))"

definition tel_accept_clients :: "int \<Rightarrow> tel_service \<Rightarrow> tel_service" where
  "tel_accept_clients now s = tel_accept_loop (tel_accepts s) now s"

definition tel_put :: "tel_client \<Rightarrow> tel_service \<Rightarrow> tel_service" where
  "tel_put c s = s\<lparr>tel_clients := map (\<lambda>d. if tc_id d = tc_id c then c else d) (tel_clients s)\<rparr>"

text \<open>The pointer \<^verbatim>\<open>next\<close> of a client.\<close>

fun tel_next :: "nat \<Rightarrow> tel_client list \<Rightarrow> nat option" where
  "tel_next cid [] = None"
| "tel_next cid (c # cs) =
     (if tc_id c = cid then (case cs of [] \<Rightarrow> None | d # _ \<Rightarrow> Some (tc_id d)) else tel_next cid cs)"

text \<open>The loop of \<open>network_tick\<close> from a client on, on fuel that bounds the length of the list.\<close>

fun tel_walk :: "nat \<Rightarrow> tel_status \<Rightarrow> int \<Rightarrow> nat option \<Rightarrow> tel_service \<Rightarrow> tel_service" where
  "tel_walk n st now None s = s"
| "tel_walk 0 st now (Some cid) s = s\<lparr>tel_fault := True\<rparr>"
| "tel_walk (Suc n) st now (Some cid) s =
     (case tel_find cid s of
        None \<Rightarrow> s\<lparr>tel_fault := True\<rparr>
      | Some c \<Rightarrow>
        (let next_id = tel_next cid (tel_clients s) in
         case client_tick c st now of
           (keep, c) \<Rightarrow>
             (let s = tel_put c s;
                  s = (if \<not> keep then tel_client_remove cid s else s)
              in tel_walk n st now next_id s)))"

text \<open>\<open>network_tick\<close> after \<open>snapshot_read\<close> has returned this copy of the snapshot.\<close>

definition network_tick :: "tel_snapshot \<Rightarrow> int \<Rightarrow> tel_service \<Rightarrow> tel_service" where
  "network_tick n now s =
     (let st = status_of_snapshot n;
          s = tel_accept_clients now s
      in tel_walk (length (tel_clients s)) st now (map_option tc_id (case tel_clients s of [] \<Rightarrow> None | c # _ \<Rightarrow> Some c)) s)"

definition stn_telemetry_service_open :: "open_env \<Rightarrow> bool \<Rightarrow> tel_service \<Rightarrow> bool \<times> tel_service" where
  "stn_telemetry_service_open e thread_ok s =
     (if tel_port s = 0 \<or> tel_started s then (False, s)
      else
        (let socket_fd = oe_socket e in
         if socket_fd = STN_INVALID_SOCKET then (False, s)
         else if \<not> oe_setsockopt e then (False, tel_close_fd socket_fd s)
         else if \<not> oe_bind e \<or> \<not> oe_listen e \<or> \<not> (oe_getfl e \<and> oe_setfl e)
         then (False, tel_close_fd socket_fd s)
         else
           (let s = s\<lparr>tel_listen := socket_fd, tel_running := True\<rparr> in
            if \<not> thread_ok then
              (False, (tel_close_fd socket_fd (s\<lparr>tel_running := False\<rparr>))\<lparr>tel_listen := STN_INVALID_SOCKET\<rparr>)
            else (True, s\<lparr>tel_started := True\<rparr>))))"

text \<open>\<open>snapshot_publish\<close> as a whole, and the loop and the last steps of \<open>stn_telemetry_service_close\<close>.\<close>

definition snapshot_publish :: "tel_status \<Rightarrow> tel_service \<Rightarrow> tel_service" where
  "snapshot_publish st s =
     (let sequence = tel_sequence s;
          s = s\<lparr>tel_sequence := sequence + 1\<rparr>;
          s = s\<lparr>tel_snap := fold (\<lambda>w n. w n) (snapshot_writes st) (tel_snap s)\<rparr>
      in s\<lparr>tel_sequence := sequence + 2\<rparr>)"

fun tel_remove_all :: "nat \<Rightarrow> tel_service \<Rightarrow> tel_service" where
  "tel_remove_all 0 s = (if tel_clients s \<noteq> [] then s\<lparr>tel_fault := True\<rparr> else s)"
| "tel_remove_all (Suc n) s =
     (case tel_clients s of [] \<Rightarrow> s | c # _ \<Rightarrow> tel_remove_all n (tel_client_remove (tc_id c) s))"

definition tel_close_finish :: "tel_service \<Rightarrow> tel_service" where
  "tel_close_finish s =
     (let s = tel_remove_all (length (tel_clients s)) s in
      if tel_listen s \<noteq> STN_INVALID_SOCKET
      then (tel_close_fd (tel_listen s) s)\<lparr>tel_listen := STN_INVALID_SOCKET\<rparr> else s)"

end
