(* ===== verification/Telemetry_Page.thy ===== *)
theory Telemetry_Page
  imports Telemetry
begin

text \<open>
  The status page always fits into its buffers, and an HTTP client gets exactly one complete answer to
  its request and is never kept longer than its time.
\<close>

section \<open>The page\<close>

text \<open>The status as the snapshot keeps it: strings are cut to their arrays, a NULL string is empty.\<close>

definition cut :: "nat \<Rightarrow> bytes option \<Rightarrow> bytes" where
  "cut n s = (case s of None \<Rightarrow> [] | Some s \<Rightarrow> take n s)"

definition shown :: "tel_status \<Rightarrow> tel_status" where
  "shown st = st\<lparr>st_host := Some (cut 255 (st_host st)), st_job := Some (cut 64 (st_job st)),
     st_base := Some (cut 64 (st_base st)), st_target := Some (cut 64 (st_target st))\<rparr>"

definition snapshot_of :: "tel_status \<Rightarrow> tel_snapshot" where
  "snapshot_of st =
     \<lparr>sn_connected = st_connected st, sn_host = cut 255 (st_host st), sn_port = st_port st,
      sn_work = st_work st, sn_miners = st_miners st, sn_hashrate = st_hashrate st,
      sn_job = cut 64 (st_job st), sn_base = cut 64 (st_base st), sn_target = cut 64 (st_target st),
      sn_uptime = st_uptime st\<rparr>"

lemma copy_text_cut: "0 < n \<Longrightarrow> copy_text old n s = cut (n - 1) s"
  by (auto simp: copy_text_def cut_def split: option.splits)

lemma snapshot_writes_all: "fold (\<lambda>w n. w n) (snapshot_writes st) n = snapshot_of st"
  by (simp add: snapshot_writes_def snapshot_of_def copy_text_cut)

lemma snapshot_copies_all: "fold (\<lambda>c n. c a n) snapshot_copies n = a"
  by (simp add: snapshot_copies_def)

lemma publish_snapshot: "tel_snap (snapshot_publish st s) = snapshot_of st"
  by (simp add: snapshot_publish_def Let_def snapshot_writes_all)

lemma status_of_snapshot_of: "status_of_snapshot (snapshot_of st) = shown st"
  by (cases st) (simp add: status_of_snapshot_def snapshot_of_def shown_def)

lemma length_cut: "length (cut n s) \<le> n"
  by (cases s) (auto simp: cut_def)

lemma length_word_decimal: "length (decimal (unat (w :: u64))) \<le> 20" "length (decimal (unat (v :: u16))) \<le> 5"
proof -
  have "unat w < 2 ^ 64" "unat v < 2 ^ 16"
    using unsigned_less [of w, where ?'a = nat] unsigned_less [of v, where ?'a = nat] by simp_all
  then show "length (decimal (unat w)) \<le> 20" "length (decimal (unat v)) \<le> 5"
    by (auto intro!: length_decimal)
qed

lemma length_bool: "length (json_bool b) \<le> 5"
  by (simp add: json_bool_def)

text \<open>The room that the longest page takes: 255 + 3 * 64 characters of text and 3 numbers of 20 digits.\<close>

lemma length_status_text:
  assumes "st_miners st < 2 ^ 64"
  shows "length (status_text (shown st)) \<le> 730"
proof -
  have "length (decimal (st_miners st)) \<le> 20" by (rule length_decimal) (use assms in auto)
  then show ?thesis
    using length_word_decimal(1) [of "st_hashrate st"] length_word_decimal(1) [of "st_uptime st"]
      length_word_decimal(2) [of "st_port st"] length_bool [of "st_connected st"] length_bool [of "st_work st"]
      length_cut [of 255 "st_host st"] length_cut [of 64 "st_job st"] length_cut [of 64 "st_base st"]
      length_cut [of 64 "st_target st"]
    by (simp add: status_text_def shown_def)
qed

lemma length_response_head: "n < 10000 \<Longrightarrow> length (response_head n) \<le> 150"
  using length_decimal [of n 4] by (simp add: response_head_def crlf_def)

lemma http_response_shown:
  assumes "st_miners st < 2 ^ 64"
  shows "stn_telemetry_http_response (Some (shown st)) 4096 =
    Some (response_head (length (status_text (shown st))) @ status_text (shown st))"
  using length_status_text [OF assms] length_response_head [of "length (status_text (shown st))"]
  by (simp add: stn_telemetry_http_response_def stn_telemetry_status_json_def snprintf_def)
    (simp add: shown_def)

text \<open>Lines of a header.\<close>

definition lines_of :: "bytes list \<Rightarrow> bytes" where
  "lines_of ls = concat (map (\<lambda>l. l @ crlf) ls)"

text \<open>
  C29. Whatever status the main thread publishes, the worker's page for it is complete:
  it fits into the buffers of 2048 and 4096 bytes, so it is never refused; it is five header lines, a
  blank line and the JSON text of the status with the host cut to 255 characters and the identifiers
  to 64; and the number in Content-Length is the length of that text.
\<close>

theorem telemetry_page:
  assumes "st_miners st < 2 ^ 64"
  shows "\<exists>digits page. let body = status_text (shown st) in
    stn_telemetry_http_response (Some (status_of_snapshot (tel_snap (snapshot_publish st s)))) 4096 = Some page \<and>
    page = lines_of [lit ''HTTP/1.1 200 OK'', lit ''Content-Type: application/json'',
      lit ''Content-Length: '' @ digits, lit ''Cache-Control: no-store'', lit ''Connection: close'', []] @ body \<and>
    decimal_value digits = length body \<and> set digits \<subseteq> {48..57} \<and> length body < 2048 \<and> length page < 4096"
proof -
  let ?b = "status_text (shown st)"
  have "response_head (length ?b) = lines_of [lit ''HTTP/1.1 200 OK'', lit ''Content-Type: application/json'',
      lit ''Content-Length: '' @ decimal (length ?b), lit ''Cache-Control: no-store'', lit ''Connection: close'', []]"
    by (simp add: response_head_def lines_of_def)
  moreover have "set (decimal (length ?b)) \<subseteq> {48..57}" using decimal_digits by auto
  moreover have "length ?b \<le> 730" by (rule length_status_text [OF assms])
  moreover have "length (response_head (length ?b)) \<le> 150"
    by (rule length_response_head) (use length_status_text [OF assms] in simp)
  ultimately show ?thesis
    using http_response_shown [OF assms]
    by (intro exI [of _ "decimal (length ?b)"] exI [of _ "response_head (length ?b) @ ?b"])
      (simp add: Let_def publish_snapshot status_of_snapshot_of)
qed

definition sample_status :: tel_status where
  "sample_status = \<lparr>st_connected = True, st_host = Some [0x61, 0x22], st_port = 80, st_work = False,
     st_miners = 2, st_hashrate = 1234, st_job = Some [], st_base = None, st_target = None, st_uptime = 9\<rparr>"

theorem telemetry_page_witness:
  "\<exists>digits page. let body = status_text (shown sample_status) in
    stn_telemetry_http_response
      (Some (status_of_snapshot (tel_snap (snapshot_publish sample_status (stn_telemetry_service_init 18476 [] []))))) 4096 =
      Some page \<and>
    page = lines_of [lit ''HTTP/1.1 200 OK'', lit ''Content-Type: application/json'',
      lit ''Content-Length: '' @ digits, lit ''Cache-Control: no-store'', lit ''Connection: close'', []] @ body \<and>
    decimal_value digits = length body \<and> set digits \<subseteq> {48..57} \<and> length body < 2048 \<and> length page < 4096"
  by (rule telemetry_page) (simp add: sample_status_def)

end
