(* ===== verification/Page_Reader.thy ===== *)
theory Page_Reader
  imports Telemetry_Page Chain_Config
begin

text \<open>
  A reader of the status page, written without regard to how the page is made: the text after the header of an
  HTTP answer, and the members of a JSON object of strings, numbers and truth values. It is what the
  theorems about the page read it with; strings end where the parser of the configuration ends them.
\<close>

section \<open>The text after the header\<close>

fun http_body :: "bytes \<Rightarrow> bytes" where
  "http_body (a # b # c # d # cs) =
     (if a = 13 \<and> b = 10 \<and> c = 13 \<and> d = 10 then cs else http_body (b # c # d # cs))"
| "http_body _ = []"

lemma http_body_step: "a \<noteq> 13 \<Longrightarrow> http_body (a # cs) = http_body cs"
  by (cases "(a # cs)" rule: http_body.cases) (auto elim: http_body.elims)

lemma http_body_line: "13 \<notin> set l \<Longrightarrow> c \<noteq> 13 \<Longrightarrow> http_body (l @ crlf @ c # cs) = http_body (c # cs)"
proof (induction l)
  case Nil
  have "http_body (13 # 10 # c # cs) = http_body (10 # c # cs)" using Nil(2) by (cases cs) auto
  then show ?case by (simp add: crlf_def http_body_step)
qed (simp add: http_body_step)

lemma http_body_end: "13 \<notin> set l \<Longrightarrow> http_body (l @ crlf @ crlf @ cs) = cs"
  by (induction l) (simp_all add: crlf_def http_body_step)

lemma http_body_response: "http_body (response_head n @ body) = body"
proof -
  have lines: "lit ''Content-Type: application/json'' = 67 # lit ''ontent-Type: application/json''"
    "lit ''Content-Length: '' @ cs = 67 # lit ''ontent-Length: '' @ cs"
    "lit ''Cache-Control: no-store'' = 67 # lit ''ache-Control: no-store''"
    "lit ''Connection: close'' = 67 # lit ''onnection: close''" for cs
    by (simp_all add: lit_def)
  have plain: "13 \<notin> set (lit ''HTTP/1.1 200 OK'')" "13 \<notin> set (67 # lit ''ontent-Type: application/json'')"
    "13 \<notin> set (67 # lit ''ontent-Length: '' @ decimal n)" "13 \<notin> set (67 # lit ''ache-Control: no-store'')"
    "13 \<notin> set (67 # lit ''onnection: close'')"
    using decimal_digits [of 13 n] by (auto simp: lit_def)
  have c: "(67 :: byte) \<noteq> 13" by simp
  note line = plain(1,2,3,4) [THEN http_body_line, OF c]
  show ?thesis
    using http_body_end [OF plain(5)] line
    by (simp only: response_head_def lines append_assoc append_Cons)
qed

section \<open>JSON\<close>

datatype json = JText bytes | JNumber nat | JBool bool

definition json_value :: "bytes \<Rightarrow> (json \<times> bytes) option" where
  "json_value cs =
     (case cs of
        [] \<Rightarrow> None
      | c # r \<Rightarrow>
        if c = 0x22 then map_option (\<lambda>(n, text, rest). (JText text, rest)) (scan_string r)
        else
          (let more = (\<lambda>c. c \<noteq> 0x2c \<and> c \<noteq> 0x7d); word = takeWhile more cs
           in Some (if word = lit ''true'' then JBool True else if word = lit ''false'' then JBool False
                    else JNumber (decimal_value word), dropWhile more cs)))"

text \<open>The members up to the closing brace, and what follows it; the fuel bounds their number.\<close>

fun json_members :: "nat \<Rightarrow> bytes \<Rightarrow> ((bytes \<times> json) list \<times> bytes) option" where
  "json_members (Suc n) (q # cs) =
     (if q \<noteq> 0x22 then None
      else
        (case scan_string cs of
           Some (_, key, colon # v) \<Rightarrow>
             if colon \<noteq> 0x3a then None
             else
               (case json_value v of
                  Some (x, c # rest) \<Rightarrow>
                    if c = 0x7d then Some ([(key, x)], rest)
                    else if c = 0x2c then map_option (\<lambda>(ms, rest). ((key, x) # ms, rest)) (json_members n rest)
                    else None
                | _ \<Rightarrow> None)
         | _ \<Rightarrow> None))"
| "json_members _ _ = None"

definition json_object :: "bytes \<Rightarrow> (bytes \<times> json) list option" where
  "json_object cs =
     (case cs of
        c # r \<Rightarrow> if c \<noteq> 0x7b then None
          else (case json_members (length r) r of
                  Some (ms, rest) \<Rightarrow> if rest = [] \<or> rest = [10] then Some ms else None
                | None \<Rightarrow> None)
      | [] \<Rightarrow> None)"

lemma scan_text: "0x22 \<notin> set a \<Longrightarrow> 0x5c \<notin> set a \<Longrightarrow> scan_string (a @ 0x22 # r) = Some (length a, a, r)"
  by (induction a) auto

lemma value_number:
  assumes "c = 0x2c \<or> c = 0x7d"
  shows "json_value (decimal n @ c # r) = Some (JNumber n, c # r)"
proof -
  let ?more = "\<lambda>c :: byte. c \<noteq> 0x2c \<and> c \<noteq> 0x7d"
  have d: "?more x \<and> x \<noteq> 0x22 \<and> x \<noteq> 116 \<and> x \<noteq> 102" if "x \<in> set (decimal n)" for x
    using decimal_digits [OF that] by auto
  then have w: "takeWhile ?more (decimal n @ c # r) = decimal n" "dropWhile ?more (decimal n @ c # r) = c # r"
    using assms by (auto simp: takeWhile_append dropWhile_append)
  obtain x xs where dec: "decimal n = x # xs" by (cases "decimal n") auto
  then have "x \<noteq> 0x22" "decimal n \<noteq> lit ''true''" "decimal n \<noteq> lit ''false''"
    using d [of x] by (auto simp: lit_def)
  then show ?thesis using w dec decimal_value_decimal [of n]
    by (simp add: json_value_def Let_def del: takeWhile.simps dropWhile.simps decimal_value.simps decimal_value_decimal)
qed

lemma value_bool: "c = 0x2c \<or> c = 0x7d \<Longrightarrow> json_value (json_bool b @ c # r) = Some (JBool b, c # r)"
  by (auto simp: json_value_def json_bool_def lit_def)

lemma value_text: "0x22 \<notin> set a \<Longrightarrow> 0x5c \<notin> set a \<Longrightarrow> json_value (0x22 # a @ 0x22 # r) = Some (JText a, r)"
  by (simp add: json_value_def scan_text)

lemma json_members_next:
  assumes "0x22 \<notin> set key" "0x5c \<notin> set key" "json_value v = Some (x, 0x2c # rest)"
  shows "json_members (Suc n) (0x22 # key @ 0x22 # 0x3a # v) =
    map_option (\<lambda>(ms, rest). ((key, x) # ms, rest)) (json_members n rest)"
  using assms by (simp add: scan_text)

lemma json_members_last:
  assumes "0x22 \<notin> set key" "0x5c \<notin> set key" "json_value v = Some (x, 0x7d # rest)"
  shows "json_members (Suc n) (0x22 # key @ 0x22 # 0x3a # v) = Some ([(key, x)], rest)"
  using assms by (simp add: scan_text)

section \<open>The page, read\<close>

abbreviation (input) "member key v \<equiv> 0x22 # lit key @ 0x22 # 0x3a # v"
abbreviation (input) "quoted a cs \<equiv> 0x22 # a @ 0x22 # cs"

lemma status_text_members:
  "status_text st = 0x7b #
     member ''service'' (quoted (lit ''STN-Stratum'') (0x2c #
     member ''status'' (quoted (lit ''running'') (0x2c #
     member ''chain_connected'' (json_bool (st_connected st) @ 0x2c #
     member ''chain_host'' (quoted (the (st_host st)) (0x2c #
     member ''chain_port'' (decimal (unat (st_port st)) @ 0x2c #
     member ''work_available'' (json_bool (st_work st) @ 0x2c #
     member ''miners'' (decimal (st_miners st) @ 0x2c #
     member ''hashrate'' (decimal (unat (st_hashrate st)) @ 0x2c #
     member ''job_id'' (quoted (the (st_job st)) (0x2c #
     member ''base_id'' (quoted (the (st_base st)) (0x2c #
     member ''target'' (quoted (the (st_target st)) (0x2c #
     member ''uptime_seconds'' (decimal (unat (st_uptime st)) @ 0x7d # [10]))))))))))))))))))"
  by (simp add: status_text_def lit_def)

definition plain_text :: "bytes \<Rightarrow> bool" where
  "plain_text a \<longleftrightarrow> 0x22 \<notin> set a \<and> 0x5c \<notin> set a"

lemma plain_lit:
  "plain_text (lit ''service'')" "plain_text (lit ''status'')" "plain_text (lit ''chain_connected'')"
  "plain_text (lit ''chain_host'')" "plain_text (lit ''chain_port'')" "plain_text (lit ''work_available'')"
  "plain_text (lit ''miners'')" "plain_text (lit ''hashrate'')" "plain_text (lit ''job_id'')"
  "plain_text (lit ''base_id'')" "plain_text (lit ''target'')" "plain_text (lit ''uptime_seconds'')"
  "plain_text (lit ''STN-Stratum'')" "plain_text (lit ''running'')"
  by (simp_all add: plain_text_def lit_def)

definition status_members :: "tel_status \<Rightarrow> (bytes \<times> json) list" where
  "status_members st =
     [(lit ''service'', JText (lit ''STN-Stratum'')), (lit ''status'', JText (lit ''running'')),
      (lit ''chain_connected'', JBool (st_connected st)), (lit ''chain_host'', JText (the (st_host st))),
      (lit ''chain_port'', JNumber (unat (st_port st))), (lit ''work_available'', JBool (st_work st)),
      (lit ''miners'', JNumber (st_miners st)), (lit ''hashrate'', JNumber (unat (st_hashrate st))),
      (lit ''job_id'', JText (the (st_job st))), (lit ''base_id'', JText (the (st_base st))),
      (lit ''target'', JText (the (st_target st))), (lit ''uptime_seconds'', JNumber (unat (st_uptime st)))]"

lemma next_text:
  "plain_text (lit key) \<Longrightarrow> plain_text a \<Longrightarrow> json_members (Suc n) (member key (quoted a (0x2c # r))) =
     map_option (\<lambda>(ms, rest). ((lit key, JText a) # ms, rest)) (json_members n r)"
  by (rule json_members_next) (simp_all add: plain_text_def value_text)

lemma next_number:
  "plain_text (lit key) \<Longrightarrow> json_members (Suc n) (member key (decimal k @ 0x2c # r)) =
     map_option (\<lambda>(ms, rest). ((lit key, JNumber k) # ms, rest)) (json_members n r)"
  by (rule json_members_next) (simp_all add: plain_text_def value_number)

lemma next_bool:
  "plain_text (lit key) \<Longrightarrow> json_members (Suc n) (member key (json_bool b @ 0x2c # r)) =
     map_option (\<lambda>(ms, rest). ((lit key, JBool b) # ms, rest)) (json_members n r)"
  by (rule json_members_next) (simp_all add: plain_text_def value_bool)

lemma last_number:
  "plain_text (lit key) \<Longrightarrow> json_members (Suc n) (member key (decimal k @ 0x7d # r)) = Some ([(lit key, JNumber k)], r)"
  by (rule json_members_last) (simp_all add: plain_text_def value_number)

lemma status_object:
  assumes "plain_text (the (st_host st))" "plain_text (the (st_job st))" "plain_text (the (st_base st))"
    "plain_text (the (st_target st))"
  shows "json_object (status_text st) = Some (status_members st)"
proof -
  define n where "n = length (tl (status_text st)) - 12"
  have "12 \<le> length (tl (status_text st))" by (simp add: status_text_members)
  then have n: "length (tl (status_text st)) = Suc (Suc (Suc (Suc (Suc (Suc (Suc (Suc (Suc (Suc (Suc (Suc n)))))))))))"
    by (simp add: n_def)
  have "json_members (length (tl (status_text st))) (tl (status_text st)) = Some (status_members st, [10])"
    unfolding n unfolding status_text_members list.sel
    using assms by (simp only: next_text next_number next_bool last_number plain_lit option.map prod.case status_members_def)
  then show ?thesis by (simp add: json_object_def status_text_members del: json_members.simps)
qed

end
