(* ===== verification/Telemetry_Client.thy ===== *)
theory Telemetry_Client
  imports Telemetry_Page
begin

text \<open>
  One HTTP client over its whole life: what it is sent depends on the bytes of its request, not on how
  they arrive, and it is one answer, never more.
\<close>

section \<open>Receiving\<close>

text \<open>The bytes that a connection still has to deliver.\<close>

fun rx_bytes :: "recv_event list \<Rightarrow> bytes" where
  "rx_bytes [] = []"
| "rx_bytes (Recv_Data d # es) = d @ rx_bytes es"
| "rx_bytes (_ # es) = rx_bytes es"

lemma sock_recv_bytes:
  "sock_recv n es = (r, es') \<Longrightarrow> rx_bytes es = (case r of Got d \<Rightarrow> d | _ \<Rightarrow> []) @ rx_bytes es'"
  by (induction n es arbitrary: r es' rule: sock_recv.induct) (auto split: if_splits)

lemma sock_recv_Got_bytes: "sock_recv n es = (Got d, es') \<Longrightarrow> rx_bytes es = d @ rx_bytes es'"
  using sock_recv_bytes by fastforce

lemma ends_head_append: "ends_head p \<Longrightarrow> ends_head (p @ q)"
  by (induction p rule: ends_head.induct) auto

lemma ends_head_13: "ends_head p \<Longrightarrow> 13 \<in> set p"
  by (induction p rule: ends_head.induct) (auto split: if_splits)

lemma ends_head_length: "ends_head p \<Longrightarrow> 4 \<le> length p"
  by (induction p rule: ends_head.induct) auto

lemma request_complete_iff: "request_complete (Some p) \<longleftrightarrow> ends_head p"
  using ends_head_length [of p] by (auto simp: request_complete_def)

text \<open>The verdict on a request does not depend on what follows the end of its header.\<close>

lemma prefix_of_complete:
  assumes "ends_head p" "13 \<notin> set w"
  shows "length w \<le> length (p @ q) \<and> take (length w) (p @ q) = w \<longleftrightarrow> length w \<le> length p \<and> take (length w) p = w"
proof (cases "length w \<le> length p")
  case False
  then have "take (length w) (p @ q) = w \<Longrightarrow> set p \<subseteq> set w"
    by (metis append_take_drop_id nle_le set_append sup_ge1 take_all take_append)
  then show ?thesis using False ends_head_13 [OF assms(1)] assms(2) by auto
qed simp

lemma valid_prefix:
  assumes "ends_head p"
  shows "stn_telemetry_request_valid (Some (p @ q)) = stn_telemetry_request_valid (Some p)"
proof -
  have "13 \<notin> set status_request" "13 \<notin> set root_request"
    by (simp_all add: status_request_def root_request_def lit_def)
  note status = prefix_of_complete [OF assms this(1), of q] and root = prefix_of_complete [OF assms this(2), of q]
  have "length p \<noteq> 0" "length (p @ q) \<noteq> 0" using ends_head_length [OF assms] by auto
  then show ?thesis unfolding stn_telemetry_request_valid_def option.case by (simp only: status root if_False)
qed

text \<open>The answer to a request under a status.\<close>

definition answer :: "tel_status \<Rightarrow> bytes \<Rightarrow> bytes \<Rightarrow> bool" where
  "answer st request r \<longleftrightarrow>
     (if stn_telemetry_request_valid (Some request) then stn_telemetry_http_response (Some st) 4096 = Some r
      else r = not_found)"

lemma answer_not_Nil: "answer st request r \<Longrightarrow> r \<noteq> []"
  by (auto simp: answer_def stn_telemetry_http_response_def snprintf_def not_found_def crlf_def response_head_def
      split: if_splits option.splits)

lemma answer_prefix: "ends_head p \<Longrightarrow> answer st (p @ q) r = answer st p r"
  by (simp add: answer_def valid_prefix)

text \<open>What a tick leaves alone.\<close>

definition same_peer :: "tel_client \<Rightarrow> tel_client \<Rightarrow> bool" where
  "same_peer c c' \<longleftrightarrow> tc_id c' = tc_id c \<and> tc_socket c' = tc_socket c \<and> tc_connected c' = tc_connected c"

lemma tel_receive_post:
  assumes "tel_receive c st = (go, c')" "length (tc_request c) \<le> 1023" "\<not> ends_head (tc_request c)" "tc_response c = []"
  shows "same_peer c c' \<and> tc_tx c' = tc_tx c \<and> tc_wire c' = tc_wire c \<and>
    tc_request c' @ rx_bytes (tc_rx c') = tc_request c @ rx_bytes (tc_rx c) \<and> length (tc_request c') \<le> 1023 \<and>
    (if tc_response c' = [] then tc_sent c' = tc_sent c \<and> (go \<longrightarrow> \<not> ends_head (tc_request c'))
     else go \<and> tc_sent c' = 0 \<and> ends_head (tc_request c') \<and> answer st (tc_request c') (tc_response c'))"
  using assms
proof (induction c st arbitrary: go c' rule: tel_receive.induct)
  case (1 c st)
  let ?room = "1024 - 1 - length (tc_request c)"
  show ?case
  proof (cases "?room = 0")
    case True
    then show ?thesis using "1.prems" by (simp add: tel_receive.simps [of c] same_peer_def)
  next
    case False
    obtain r es where rc: "sock_recv ?room (tc_rx c) = (r, es)" by fastforce
    note bytes = sock_recv_bytes [OF rc]
    show ?thesis
    proof (cases r)
      case (Got d)
      let ?c = "c\<lparr>tc_request := tc_request c @ d, tc_rx := es\<rparr>"
      have fits: "length (tc_request ?c) \<le> 1023"
        using sock_recv_Got [OF rc [unfolded Got]] False by auto
      show ?thesis
      proof (cases "request_complete (Some (tc_request ?c))")
        case True
        then have run: "prepare_response ?c st = (go, c')"
          using "1.prems"(1) False rc Got by (simp add: tel_receive.simps [of c] Let_def)
        show ?thesis
        proof (cases "stn_telemetry_http_response (Some st) 4096 = None \<and> stn_telemetry_request_valid (Some (tc_request ?c))")
          case no: True
          then have "\<not> go \<and> c' = ?c" using run by (simp add: prepare_response_def)
          then show ?thesis using "1.prems"(4) bytes Got fits by (simp add: same_peer_def)
        next
          case yes: False
          then obtain r where r: "go" "c' = ?c\<lparr>tc_response := r, tc_sent := 0\<rparr>" "answer st (tc_request ?c) r"
            using run by (auto simp: prepare_response_def answer_def split: if_splits option.splits)
          then show ?thesis
            using bytes Got fits True answer_not_Nil [OF r(3)] by (simp add: same_peer_def request_complete_iff)
        qed
      next
        case more: False
        then have run: "tel_receive ?c st = (go, c')"
          using "1.prems"(1) False rc Got by (simp add: tel_receive.simps [of c] Let_def)
        have "\<not> ends_head (tc_request ?c)" "tc_response ?c = []"
          using more "1.prems"(4) request_complete_iff by simp_all
        from "1.IH"(1) [OF refl False rc [symmetric] Got refl more run fits this] show ?thesis
          using bytes Got by (simp add: same_peer_def)
      qed
    next
      case Got_Eintr
      then have run: "tel_receive (c\<lparr>tc_rx := es\<rparr>) st = (go, c')"
        using "1.prems"(1) False rc by (simp add: tel_receive.simps [of c] Let_def)
      from "1.IH"(2) [OF refl False rc [symmetric] Got_Eintr run] show ?thesis
        using "1.prems"(2-4) bytes Got_Eintr by (simp add: same_peer_def)
    qed (use "1.prems" False rc bytes in \<open>auto simp: tel_receive.simps [of c] Let_def same_peer_def\<close>)
  qed
qed

section \<open>Sending\<close>

lemma tel_send_post:
  "tel_send es p = (r, es', out) \<Longrightarrow> \<exists>rest. p = out @ rest \<and> (r = All_Sent \<longrightarrow> rest = [])"
proof (induction es p arbitrary: r es' out rule: tel_send.induct)
  case (6 k es b bs)
  show ?case
  proof (cases "k = 0")
    case False
    let ?sent = "min k (length (b # bs))"
    obtain r2 e2 o2 where rest: "tel_send es (drop ?sent (b # bs)) = (r2, e2, o2)" by (rule prod_cases3)
    then have out: "r = r2" "out = take ?sent (b # bs) @ o2" using "6.prems" False by (auto simp: Let_def)
    from "6.IH" [OF False refl rest] obtain w where "drop ?sent (b # bs) = o2 @ w" "r2 = All_Sent \<longrightarrow> w = []"
      by blast
    then show ?thesis using out by (metis append_take_drop_id append.assoc)
  qed (use 6 in auto)
qed auto

section \<open>A life\<close>

text \<open>The ticks that a client sees, each with a status and a time, until it is dropped.\<close>

fun client_life :: "(tel_status \<times> int) list \<Rightarrow> tel_client \<Rightarrow> bool \<times> tel_client" where
  "client_life [] c = (True, c)"
| "client_life ((st, now) # ticks) c =
     (case client_tick c st now of (keep, c') \<Rightarrow> if keep then client_life ticks c' else (False, c'))"

text \<open>
  The invariant of a client that is given the statuses \<open>S\<close> and whose peer sends \<open>stream\<close>; the first
  argument says that it is still in the list.
\<close>

definition client_ok :: "bool \<Rightarrow> tel_status set \<Rightarrow> bytes \<Rightarrow> tel_client \<Rightarrow> bool" where
  "client_ok live S stream c \<longleftrightarrow>
     tc_request c @ rx_bytes (tc_rx c) = stream \<and> length (tc_request c) \<le> 1023 \<and>
     tc_sent c \<le> length (tc_response c) \<and> tc_wire c = take (tc_sent c) (tc_response c) \<and>
     (if tc_response c = [] then live \<longrightarrow> \<not> ends_head (tc_request c)
      else ends_head (tc_request c) \<and> (\<exists>st \<in> S. answer st (tc_request c) (tc_response c)))"

lemma client_ok_mono: "client_ok live S stream c \<Longrightarrow> S \<subseteq> T \<Longrightarrow> client_ok live T stream c"
  by (auto simp: client_ok_def split: if_splits)

lemma tick_receive_ok:
  assumes "(if length (tc_response c) = 0 then tel_receive c st else (True, c)) = (go, c')" "client_ok True S stream c"
  shows "client_ok go (insert st S) stream c' \<and> same_peer c c' \<and> (\<not> go \<longrightarrow> tc_response c' = [])"
proof (cases "tc_response c = []")
  case False
  then show ?thesis using assms client_ok_mono [of True S stream c "insert st S"] by (auto simp: same_peer_def)
next
  case True
  then have run: "tel_receive c st = (go, c')" using assms(1) by simp
  have "length (tc_request c) \<le> 1023" "\<not> ends_head (tc_request c)" "tc_sent c = 0" "tc_wire c = []"
    "tc_request c @ rx_bytes (tc_rx c) = stream"
    using assms(2) True by (simp_all add: client_ok_def)
  with tel_receive_post [OF run this(1,2) True] show ?thesis by (auto simp: client_ok_def split: if_splits)
qed

lemma client_tick_ok:
  assumes "client_tick c st now = (keep, c')" "client_ok True S stream c"
  shows "client_ok keep (insert st S) stream c' \<and> same_peer c c'"
proof -
  obtain go c1 where rc: "(if length (tc_response c) = 0 then tel_receive c st else (True, c)) = (go, c1)" by fastforce
  note received = tick_receive_ok [OF rc assms(2)]
  show ?thesis
  proof (cases "go \<and> tc_response c1 \<noteq> []")
    case False
    then have "c' = c1 \<and> (keep \<longrightarrow> go)"
      using assms(1) rc by (auto simp: client_tick_def split: if_splits)
    then show ?thesis using received False by (auto simp: client_ok_def split: if_splits)
  next
    case True
    obtain r es out where send: "tel_send (tc_tx c1) (drop (tc_sent c1) (tc_response c1)) = (r, es, out)"
      by (rule prod_cases3)
    from tel_send_post [OF send] obtain rest where rest: "drop (tc_sent c1) (tc_response c1) = out @ rest" by blast
    let ?c = "c1\<lparr>tc_tx := es, tc_sent := tc_sent c1 + length out, tc_wire := tc_wire c1 @ out\<rparr>"
    have c': "c' = ?c" using assms(1) rc True send by (auto simp: client_tick_def Let_def split: if_splits)
    have "tc_response c1 = take (tc_sent c1) (tc_response c1) @ out @ rest"
      using rest by (metis append_take_drop_id)
    then have "take (tc_sent c1 + length out) (tc_response c1) = take (tc_sent c1) (tc_response c1) @ out"
      using rest by (simp add: take_add)
    moreover have "tc_sent c1 + length out \<le> length (tc_response c1)"
      using arg_cong [OF rest, of length] conjunct1 [OF received] unfolding client_ok_def by auto
    ultimately show ?thesis using received True c' by (auto simp: client_ok_def same_peer_def)
  qed
qed

lemma client_life_ok:
  "client_life ticks c = (keep, c') \<Longrightarrow> client_ok True S stream c \<Longrightarrow>
   client_ok keep (S \<union> fst ` set ticks) stream c' \<and> same_peer c c'"
proof (induction ticks c arbitrary: S rule: client_life.induct)
  case (2 st now ticks c)
  obtain k c1 where tick: "client_tick c st now = (k, c1)" by fastforce
  note ok = client_tick_ok [OF tick "2.prems"(2)]
  show ?case
  proof (cases k)
    case True
    with "2.prems"(1) tick have "client_life ticks c1 = (keep, c')" by simp
    from "2.IH" [OF tick [symmetric] True this, of "insert st S"] ok True show ?thesis
      by (auto simp: same_peer_def)
  next
    case False
    then have "keep = False" "c' = c1" using "2.prems"(1) tick by simp_all
    then show ?thesis using ok False by (auto intro: client_ok_mono)
  qed
qed (auto simp: same_peer_def)

lemma fresh_ok: "tc_request c = [] \<Longrightarrow> tc_response c = [] \<Longrightarrow> tc_sent c = 0 \<Longrightarrow> tc_wire c = [] \<Longrightarrow>
    client_ok True {} (rx_bytes (tc_rx c)) c"
  by (simp add: client_ok_def)

text \<open>
  C24. Over its whole life, whatever the ticks, their statuses and times, the cutting of
  the stream, the would-blocks and the interruptions, an HTTP client is sent nothing or a front part
  of one single answer: the page of one of the statuses if its stream starts with a request for it, the
  404 otherwise, and then only if the first 1023 bytes that it sends contain a blank line.
\<close>

theorem telemetry_client:
  assumes "tc_request c = []" "tc_response c = []" "tc_sent c = 0" "tc_wire c = []"
    and "client_life ticks c = (keep, c')"
  shows "tc_wire c' = [] \<or>
    (ends_head (take 1023 (rx_bytes (tc_rx c))) \<and>
     (\<exists>st r n. st \<in> fst ` set ticks \<and> answer st (rx_bytes (tc_rx c)) r \<and> tc_wire c' = take n r))"
proof (cases "tc_response c' = []")
  case True
  then show ?thesis using client_life_ok [OF assms(5) fresh_ok [OF assms(1-4)]] by (simp add: client_ok_def)
next
  case False
  with client_life_ok [OF assms(5) fresh_ok [OF assms(1-4)]] obtain st where
    c': "tc_request c' @ rx_bytes (tc_rx c') = rx_bytes (tc_rx c)" "length (tc_request c') \<le> 1023"
      "tc_wire c' = take (tc_sent c') (tc_response c')" "ends_head (tc_request c')"
      "st \<in> fst ` set ticks" "answer st (tc_request c') (tc_response c')"
    by (auto simp: client_ok_def)
  have "take 1023 (rx_bytes (tc_rx c)) = tc_request c' @ take (1023 - length (tc_request c')) (rx_bytes (tc_rx c'))"
    using c'(1,2) by (metis take_all take_append)
  then have "ends_head (take 1023 (rx_bytes (tc_rx c)))" using ends_head_append c'(4) by simp
  moreover have "answer st (rx_bytes (tc_rx c)) (tc_response c')"
    using answer_prefix [OF c'(4), of st "rx_bytes (tc_rx c')"] c'(1,6) by simp
  ultimately show ?thesis using c'(3,5) by blast
qed

definition sample_request :: bytes where
  "sample_request = lit ''GET /status HTTP/1.1'' @ crlf @ lit ''Host: x'' @ crlf @ crlf"

definition sample_tel_client :: "recv_event list \<Rightarrow> tx_event list \<Rightarrow> tel_client" where
  "sample_tel_client es outs = \<lparr>tc_id = 0, tc_socket = 7, tc_request = [], tc_response = [], tc_sent = 0,
     tc_connected = 100, tc_rx = es, tc_tx = outs, tc_wire = []\<rparr>"

theorem telemetry_client_witness:
  "\<exists>keep c'. client_life [(shown sample_status, 100), (shown sample_status, 101)]
      (sample_tel_client [Recv_Data (take 5 sample_request), Recv_Again, Recv_Data (drop 5 sample_request)] [Tx_Some 9, Tx_Again]) =
      (keep, c') \<and>
    (tc_wire c' = [] \<or>
     (ends_head (take 1023 sample_request) \<and>
      (\<exists>st r n. st \<in> fst ` set [(shown sample_status, 100 :: int), (shown sample_status, 101)] \<and>
         answer st sample_request r \<and> tc_wire c' = take n r)))"
proof -
  let ?c = "sample_tel_client [Recv_Data (take 5 sample_request), Recv_Again, Recv_Data (drop 5 sample_request)] [Tx_Some 9, Tx_Again]"
  let ?ticks = "[(shown sample_status, 100), (shown sample_status, 101)]"
  obtain keep c' where life: "client_life ?ticks ?c = (keep, c')" by fastforce
  have "rx_bytes (tc_rx ?c) = sample_request" by (simp add: sample_tel_client_def)
  with telemetry_client [OF _ _ _ _ life] life show ?thesis by (simp add: sample_tel_client_def)
qed

section \<open>Answering\<close>

text \<open>Connections with nothing but data and interruptions, and peers that take everything in the end.\<close>

definition only_data :: "recv_event list \<Rightarrow> bool" where
  "only_data = list_all (\<lambda>e. case e of Recv_Data d \<Rightarrow> True | Recv_Eintr \<Rightarrow> True | _ \<Rightarrow> False)"

definition takes_all :: "tx_event list \<Rightarrow> bool" where
  "takes_all = list_all (\<lambda>e. case e of Tx_Some k \<Rightarrow> 0 < k | Tx_Eintr \<Rightarrow> True | _ \<Rightarrow> False)"

lemma sock_recv_only_data:
  "sock_recv n es = (r, es') \<Longrightarrow> only_data es \<Longrightarrow>
   only_data es' \<and> (case r of Got d \<Rightarrow> True | Got_Eintr \<Rightarrow> True | Got_Again \<Rightarrow> rx_bytes es = [] | _ \<Rightarrow> False)"
  by (induction n es arbitrary: r es' rule: sock_recv.induct) (auto simp: only_data_def split: if_splits recv_result.splits)

lemma tel_receive_all:
  assumes "only_data (tc_rx c)" "\<not> ends_head (tc_request c)" "length (tc_request c) \<le> 1023"
    and "ends_head (take 1023 (tc_request c @ rx_bytes (tc_rx c)))" "tc_response c = []"
    and "stn_telemetry_http_response (Some st) 4096 \<noteq> None"
  shows "fst (tel_receive c st) \<and> tc_response (snd (tel_receive c st)) \<noteq> []"
  using assms
proof (induction c st rule: tel_receive.induct)
  case (1 c st)
  let ?room = "1024 - 1 - length (tc_request c)"
  have room: "?room \<noteq> 0" using "1.prems"(2-4) by auto
  obtain r es where rc: "sock_recv ?room (tc_rx c) = (r, es)" by fastforce
  note quiet = sock_recv_only_data [OF rc "1.prems"(1)]
  show ?case
  proof (cases r)
    case (Got d)
    let ?c = "c\<lparr>tc_request := tc_request c @ d, tc_rx := es\<rparr>"
    have fits: "length (tc_request ?c) \<le> 1023"
      using sock_recv_Got [OF rc [unfolded Got]] room by auto
    show ?thesis
    proof (cases "request_complete (Some (tc_request ?c))")
      case True
      then have run: "tel_receive c st = prepare_response ?c st"
        using room rc Got by (simp add: tel_receive.simps [of c] Let_def)
      show ?thesis
        using "1.prems"(6) answer_not_Nil [of st "tc_request ?c"]
        by (auto simp: run prepare_response_def answer_def split: if_splits option.splits)
    next
      case more: False
      then have run: "tel_receive c st = tel_receive ?c st"
        using room rc Got by (simp add: tel_receive.simps [of c] Let_def)
      have "ends_head (take 1023 (tc_request ?c @ rx_bytes (tc_rx ?c)))"
        using "1.prems"(4) sock_recv_Got_bytes [OF rc [unfolded Got]] by simp
      from "1.IH"(1) [OF refl room rc [symmetric] Got refl more _ _ fits this] show ?thesis
        using quiet more "1.prems"(5,6) by (simp add: run request_complete_iff)
    qed
  next
    case Got_Eintr
    then have run: "tel_receive c st = tel_receive (c\<lparr>tc_rx := es\<rparr>) st"
      using room rc by (simp add: tel_receive.simps [of c] Let_def)
    from "1.IH"(2) [OF refl room rc [symmetric] Got_Eintr] show ?thesis
      using quiet "1.prems"(2-6) sock_recv_bytes [OF rc] Got_Eintr by (simp add: run)
  next
    case Got_Again
    then show ?thesis using quiet "1.prems"(2-4) by simp
  qed (use quiet in simp_all)
qed

lemma tel_send_all: "takes_all es \<Longrightarrow> \<exists>es'. tel_send es p = (All_Sent, es', p)"
proof (induction es p rule: tel_send.induct)
  case (6 k es b bs)
  then have k: "k \<noteq> 0" "takes_all es" by (auto simp: takes_all_def)
  let ?sent = "min k (length (b # bs))"
  from "6.IH" [OF k(1) refl k(2)] obtain es' where
    rest: "tel_send es (drop ?sent (b # bs)) = (All_Sent, es', drop ?sent (b # bs))" by blast
  have "tel_send (Tx_Some k # es) (b # bs) = (All_Sent, es', take ?sent (b # bs) @ drop ?sent (b # bs))"
    by (simp only: tel_send.simps Let_def rest k(1) if_False prod.case)
  then show ?case by (simp only: append_take_drop_id) blast
qed (auto simp: takes_all_def)

text \<open>
  A client whose request has arrived is served at once: if the bytes that wait in
  its socket contain a blank line within the first 1023, in whatever pieces and with whatever
  interruptions, and its peer takes what it is sent, in whatever pieces, then the next tick sends the
  whole answer to that request, the page of the published status or the 404, and ends the connection.
\<close>

theorem telemetry_answered:
  assumes "tc_request c = []" "tc_response c = []" "tc_wire c = []"
    and "only_data (tc_rx c)" "ends_head (take 1023 (rx_bytes (tc_rx c)))" "takes_all (tc_tx c)"
    and "st_miners st < 2 ^ 64"
  shows "fst (client_tick c (shown st) now) = False \<and>
    answer (shown st) (rx_bytes (tc_rx c)) (tc_wire (snd (client_tick c (shown st) now)))"
proof -
  obtain go c1 where rc: "tel_receive c (shown st) = (go, c1)" by fastforce
  have page: "stn_telemetry_http_response (Some (shown st)) 4096 \<noteq> None"
    using http_response_shown [OF assms(7)] by simp
  have go: "go" "tc_response c1 \<noteq> []"
    using tel_receive_all [of c "shown st"] assms page rc by simp_all
  have post: "tc_tx c1 = tc_tx c" "tc_wire c1 = []" "tc_sent c1 = 0" "ends_head (tc_request c1)"
    "tc_request c1 @ rx_bytes (tc_rx c1) = rx_bytes (tc_rx c)" "answer (shown st) (tc_request c1) (tc_response c1)"
    using tel_receive_post [OF rc] assms(1-3) go by auto
  obtain es where send: "tel_send (tc_tx c1) (tc_response c1) = (All_Sent, es, tc_response c1)"
    using tel_send_all assms(6) post(1) by metis
  have "client_tick c (shown st) now =
      (False, c1\<lparr>tc_tx := es, tc_sent := length (tc_response c1), tc_wire := tc_response c1\<rparr>)"
    using assms(2) rc go post(2,3) send by (simp add: client_tick_def Let_def)
  then show ?thesis using answer_prefix [OF post(4), of "shown st" "rx_bytes (tc_rx c1)"] post(5,6) by simp
qed

theorem telemetry_answered_witness:
  "fst (client_tick (sample_tel_client [Recv_Data (take 5 sample_request), Recv_Eintr, Recv_Data (drop 5 sample_request)]
      [Tx_Some 9, Tx_Eintr]) (shown sample_status) 100) = False \<and>
   answer (shown sample_status) sample_request
     (tc_wire (snd (client_tick (sample_tel_client
        [Recv_Data (take 5 sample_request), Recv_Eintr, Recv_Data (drop 5 sample_request)]
        [Tx_Some 9, Tx_Eintr]) (shown sample_status) 100)))"
proof -
  let ?c = "sample_tel_client [Recv_Data (take 5 sample_request), Recv_Eintr, Recv_Data (drop 5 sample_request)]
      [Tx_Some 9, Tx_Eintr]"
  have bytes: "rx_bytes (tc_rx ?c) = sample_request" by (simp add: sample_tel_client_def)
  have "ends_head sample_request" "length sample_request \<le> 1023"
    by (simp_all add: sample_request_def lit_def crlf_def)
  then have "ends_head (take 1023 (rx_bytes (tc_rx ?c)))" by (simp add: bytes)
  then show ?thesis
    using telemetry_answered [of ?c sample_status 100] bytes
    by (simp add: sample_tel_client_def only_data_def takes_all_def sample_status_def)
qed

end
