(* ===== verification/Telemetry_Service.thy ===== *)
theory Telemetry_Service
  imports Telemetry_Client "HOL-Library.Multiset"
begin

text \<open>
  The worker's part of the telemetry service: what a pass of \<open>network_tick\<close> does to the list of clients,
  the descriptors it opens and closes, and the release of everything at the end.
\<close>

section \<open>A pass over the clients\<close>

definition kept :: "tel_status \<Rightarrow> int \<Rightarrow> tel_client list \<Rightarrow> tel_client list" where
  "kept st now cs = map snd (filter fst (map (\<lambda>c. client_tick c st now) cs))"

definition dropped :: "tel_status \<Rightarrow> int \<Rightarrow> tel_client list \<Rightarrow> int list" where
  "dropped st now cs = map tc_socket (filter (\<lambda>c. \<not> fst (client_tick c st now)) cs)"

definition tel_ok :: "tel_service \<Rightarrow> bool" where
  "tel_ok s \<longleftrightarrow> distinct (map tc_id (tel_clients s)) \<and>
     (\<forall>c \<in> set (tel_clients s). tc_id c < tel_next_id s \<and> 0 \<le> tc_socket c) \<and>
     tel_count s = length (tel_clients s) \<and> \<not> tel_fault s"

lemma tel_okI [intro?]:
  "distinct (map tc_id (tel_clients s)) \<Longrightarrow>
   (\<And>c. c \<in> set (tel_clients s) \<Longrightarrow> tc_id c < tel_next_id s \<and> 0 \<le> tc_socket c) \<Longrightarrow>
   tel_count s = length (tel_clients s) \<Longrightarrow> \<not> tel_fault s \<Longrightarrow> tel_ok s"
  by (simp add: tel_ok_def)

lemma tick_same_peer:
  assumes "client_tick c st now = (keep, c')"
  shows "same_peer c c'"
proof -
  have receive: "same_peer c (snd (tel_receive c st))" for c
  proof (induction c st rule: tel_receive.induct)
    case (1 c st)
    then show ?case
      by (subst tel_receive.simps)
        (fastforce simp: Let_def same_peer_def prepare_response_def split: prod.splits recv_result.splits option.splits)
  qed
  obtain go c1 where rc: "(if length (tc_response c) = 0 then tel_receive c st else (True, c)) = (go, c1)" by fastforce
  have "same_peer c c1" using rc receive [of c] by (auto simp: same_peer_def split: if_splits)
  then show ?thesis
    using assms rc by (auto simp: client_tick_def Let_def same_peer_def split: if_splits prod.splits)
qed

lemma kept_sub:
  "d \<in> set (kept st now cs) \<Longrightarrow> \<exists>c \<in> set cs. client_tick c st now = (True, d) \<and> same_peer c d"
proof -
  assume "d \<in> set (kept st now cs)"
  then obtain c where c: "c \<in> set cs" "fst (client_tick c st now)" "d = snd (client_tick c st now)"
    by (auto simp: kept_def)
  then have "client_tick c st now = (True, d)" by (simp add: prod_eq_iff)
  with c(1) show ?thesis using tick_same_peer by blast
qed

lemma find_middle:
  "distinct (map tc_id (pre @ c # cs)) \<Longrightarrow> find (\<lambda>d. tc_id d = tc_id c) (pre @ c # cs) = Some c"
  by (induction pre) auto

lemma next_middle:
  "distinct (map tc_id (pre @ c # cs)) \<Longrightarrow>
   tel_next (tc_id c) (pre @ c # cs) = map_option tc_id (case cs of [] \<Rightarrow> None | d # _ \<Rightarrow> Some d)"
  by (induction pre) (auto split: list.splits)

lemma put_middle:
  "distinct (map tc_id (pre @ c # cs)) \<Longrightarrow> tc_id c' = tc_id c \<Longrightarrow>
   map (\<lambda>d. if tc_id d = tc_id c then c' else d) (pre @ c # cs) = pre @ c' # cs"
  by (induction pre) (auto intro!: map_idI, metis imageI)

lemma unlink_middle:
  "distinct (map tc_id (pre @ c # cs)) \<Longrightarrow> filter (\<lambda>d. tc_id d \<noteq> tc_id c) (pre @ c # cs) = pre @ cs"
  by (induction pre) (auto intro!: filter_True, metis imageI)

lemma tel_walk_spec:
  assumes "tel_clients s = pre @ cs" "tel_ok s" "length cs \<le> n"
  shows "tel_walk n st now (map_option tc_id (case cs of [] \<Rightarrow> None | c # _ \<Rightarrow> Some c)) s =
    s\<lparr>tel_clients := pre @ kept st now cs, tel_count := length pre + length (kept st now cs),
      tel_closed := tel_closed s @ dropped st now cs\<rparr>"
  using assms
proof (induction cs arbitrary: pre s n)
  case Nil
  then show ?case by (simp add: kept_def dropped_def tel_ok_def)
next
  case (Cons c cs)
  obtain m where n: "n = Suc m" "length cs \<le> m" using Cons.prems(3) by (cases n) auto
  have dist: "distinct (map tc_id (pre @ c # cs))" and count: "tel_count s = length (pre @ c # cs)"
    using Cons.prems(1,2) by (simp_all add: tel_ok_def)
  obtain keep c' where tick: "client_tick c st now = (keep, c')" by fastforce
  have peer: "tc_id c' = tc_id c" "tc_socket c' = tc_socket c" "0 \<le> tc_socket c"
    using tick_same_peer [OF tick] Cons.prems(1,2) by (simp_all add: same_peer_def tel_ok_def)
  have found: "tel_find (tc_id c) s = Some c"
    using find_middle [OF dist] Cons.prems(1) by (simp add: tel_find_def)
  have following: "tel_next (tc_id c) (tel_clients s) = map_option tc_id (case cs of [] \<Rightarrow> None | d # _ \<Rightarrow> Some d)"
    using next_middle [OF dist] Cons.prems(1) by simp
  have put: "tel_put c' s = s\<lparr>tel_clients := pre @ c' # cs\<rparr>"
    using put_middle [OF dist peer(1)] Cons.prems(1) peer(1) by (simp add: tel_put_def)
  have dist': "distinct (map tc_id (pre @ c' # cs))" using dist peer(1) by simp
  show ?case
  proof (cases keep)
    case True
    have "tel_ok (tel_put c' s)"
      using Cons.prems(1,2) peer dist' by (auto simp: put tel_ok_def)
    from Cons.IH [of "tel_put c' s" "pre @ [c']", OF _ this n(2)] show ?thesis
      using tick True n(1) found following by (simp add: put kept_def dropped_def)
  next
    case False
    have removed: "tel_client_remove (tc_id c) (tel_put c' s) =
        s\<lparr>tel_clients := pre @ cs, tel_closed := tel_closed s @ [tc_socket c], tel_count := length (pre @ cs)\<rparr>"
      using find_middle [OF dist'] unlink_middle [OF dist'] peer count
      by (simp add: tel_client_remove_def put tel_find_def Let_def tel_close_fd_def)
    have "tel_ok (s\<lparr>tel_clients := pre @ cs, tel_closed := tel_closed s @ [tc_socket c], tel_count := length (pre @ cs)\<rparr>)"
      using Cons.prems(1,2) dist by (auto simp: tel_ok_def)
    from Cons.IH [OF _ this n(2), of pre] show ?thesis
      using tick False n(1) found following by (simp add: removed kept_def dropped_def)
  qed
qed

section \<open>Accepting\<close>

fun fds_of :: "tel_accept list \<Rightarrow> int list" where
  "fds_of [] = []"
| "fds_of (Tel_Conn fd nonblocking ins outs # es) = int fd # fds_of es"
| "fds_of (Tel_None # es) = fds_of es"

text \<open>Every descriptor that was or will be accepted: open with a client, closed, or still to come.\<close>

definition tel_fds :: "tel_service \<Rightarrow> int multiset" where
  "tel_fds s = mset (tel_closed s) + mset (map tc_socket (tel_clients s)) + mset (fds_of (tel_accepts s))"

text \<open>What accepting and serving leave alone.\<close>

definition tel_frame :: "tel_service \<Rightarrow> tel_service \<Rightarrow> bool" where
  "tel_frame s s' \<longleftrightarrow> tel_listen s' = tel_listen s \<and> tel_port s' = tel_port s \<and> tel_running s' = tel_running s \<and>
     tel_started s' = tel_started s \<and> tel_sequence s' = tel_sequence s \<and> tel_snap s' = tel_snap s"

lemma tel_accept_loop_post:
  assumes "tel_ok s"
  shows "tel_ok (tel_accept_loop es now s) \<and> tel_frame s (tel_accept_loop es now s) \<and>
    tel_fds (tel_accept_loop es now s) =
      mset (tel_closed s) + mset (map tc_socket (tel_clients s)) + mset (fds_of es) \<and>
    (\<forall>c \<in> set (tel_clients (tel_accept_loop es now s)). c \<in> set (tel_clients s) \<or> tc_connected c = now)"
  using assms
proof (induction es now s rule: tel_accept_loop.induct)
  case (3 fd nonblocking ins outs es now s)
  have closed: "tel_ok (tel_close_fd (int fd) (s\<lparr>tel_mem := mem\<rparr>))" for mem
    using "3.prems" by (simp add: tel_ok_def tel_close_fd_def)
  obtain got mem where mem: "alloc_next (tel_mem s) = (got, mem)" by fastforce
  show ?case
  proof (cases "nonblocking \<and> got")
    case False
    then show ?thesis
    proof (cases nonblocking)
      case True
      then show ?thesis
        using "3.IH"(2) [of got mem] mem False closed [of mem]
        by (auto simp: tel_close_fd_def tel_frame_def)
    next
      case no: False
      then show ?thesis using "3.IH"(1) closed [of "tel_mem s"] by (auto simp: tel_close_fd_def tel_frame_def)
    qed
  next
    case True
    let ?c = "\<lparr>tc_id = tel_next_id s, tc_socket = int fd, tc_request = [], tc_response = [],
        tc_sent = 0, tc_connected = now, tc_rx = ins, tc_tx = outs, tc_wire = []\<rparr>"
    let ?s = "s\<lparr>tel_mem := mem, tel_clients := ?c # tel_clients s, tel_next_id := tel_next_id s + 1,
        tel_count := tel_count s + 1\<rparr>"
    have "tel_ok ?s" using "3.prems" by (fastforce simp: tel_ok_def)
    moreover have "tel_accept_loop (Tel_Conn fd nonblocking ins outs # es) now s = tel_accept_loop es now ?s"
      using True mem by (simp add: Let_def)
    ultimately show ?thesis
      using "3.IH"(3) [of got mem] mem True by (auto simp: tel_frame_def)
  qed
qed (auto simp: tel_ok_def tel_fds_def tel_frame_def)

lemma mset_dropped: "mset (map tc_socket cs) = mset (dropped st now cs) + mset (map tc_socket (kept st now cs))"
proof (induction cs)
  case (Cons c cs)
  obtain keep c' where tick: "client_tick c st now = (keep, c')" by fastforce
  with tick_same_peer [OF this] Cons show ?case by (auto simp: dropped_def kept_def same_peer_def)
qed (simp add: dropped_def kept_def)

lemma network_tick_eq:
  assumes "tel_ok s"
  shows "network_tick n now s = (let a = tel_accept_clients now s; st = status_of_snapshot n in
    a\<lparr>tel_clients := kept st now (tel_clients a), tel_count := length (kept st now (tel_clients a)),
      tel_closed := tel_closed a @ dropped st now (tel_clients a)\<rparr>)"
  using tel_walk_spec [of "tel_accept_clients now s" "[]" "tel_clients (tel_accept_clients now s)"]
    tel_accept_loop_post [OF assms, of "tel_accepts s" now]
  by (simp add: network_tick_def Let_def tel_accept_clients_def)

lemma distinct_kept: "distinct (map tc_id cs) \<Longrightarrow> distinct (map tc_id (kept st now cs))"
proof (induction cs)
  case (Cons c cs)
  obtain keep c' where tick: "client_tick c st now = (keep, c')" by fastforce
  have "tc_id c \<notin> tc_id ` set (kept st now cs)"
    using Cons.prems kept_sub [of _ st now cs] by (fastforce simp: same_peer_def)
  then show ?case using Cons tick tick_same_peer [OF tick] by (auto simp: kept_def same_peer_def)
qed (simp add: kept_def)

lemma network_tick_post:
  assumes "tel_ok s"
  shows "tel_ok (network_tick n now s)" "tel_frame s (network_tick n now s)" "tel_fds (network_tick n now s) = tel_fds s"
proof -
  let ?a = "tel_accept_clients now s" and ?st = "status_of_snapshot n"
  have a: "tel_ok ?a" "tel_frame s ?a" "tel_fds ?a = tel_fds s"
    using tel_accept_loop_post [OF assms, of "tel_accepts s" now] by (simp_all add: tel_accept_clients_def tel_fds_def)
  have "tc_id d < tel_next_id ?a \<and> 0 \<le> tc_socket d" if "d \<in> set (kept ?st now (tel_clients ?a))" for d
    using kept_sub [OF that] a(1) by (auto simp: tel_ok_def same_peer_def)
  then show "tel_ok (network_tick n now s)"
    using a(1) distinct_kept [of "tel_clients ?a"] by (auto simp: network_tick_eq [OF assms] Let_def tel_ok_def)
  show "tel_frame s (network_tick n now s)"
    using a(2) by (simp add: network_tick_eq [OF assms] Let_def tel_frame_def)
  show "tel_fds (network_tick n now s) = tel_fds s"
    using a(3) mset_dropped [of "tel_clients ?a" ?st now] by (simp add: network_tick_eq [OF assms] Let_def tel_fds_def add.assoc)
qed

lemma tick_expired: "client_tick c st now = (True, d) \<Longrightarrow> \<not> client_expired d now"
  by (auto simp: client_tick_def Let_def split: if_splits prod.splits)

end
