(* ===== verification/Telemetry_Threads.thy ===== *)
theory Telemetry_Threads
  imports Telemetry_Service
begin

text \<open>
  The two threads of the telemetry service: the main thread publishes snapshots and closes the service,
  the worker reads snapshots and serves the clients. Every load and store of the sequence number, and
  every assignment to or from a field of the shared snapshot, is a step of its own, and the steps of
  the threads interleave in any order. Steps take effect in program order; that the program asks for
  less than this from the memory is noted in the findings of the manifest.
\<close>

section \<open>Steps\<close>

text \<open>
  Where the main thread is: in its loop, within \<open>snapshot_publish\<close> with its local \<open>sequence\<close>, the
  assignments to come and, as a ghost, the status, waiting for the worker in
  \<open>stn_telemetry_service_close\<close>, or past it.
\<close>

datatype tel_main =
    Main_Loop
  | Main_Publish u32 "(tel_snapshot \<Rightarrow> tel_snapshot) list" tel_status
  | Main_Join
  | Main_Closed

text \<open>
  Where the worker is: at the head of its loop; before the first load in \<open>snapshot_read\<close>; within the
  assignment, with \<open>before\<close>, the fields to come and the copy so far; past \<open>snapshot_read\<close>, with the copy;
  or gone. The numbers are ghosts: how many snapshots were published when the read began and ended.
\<close>

datatype tel_worker =
    Work_Head
  | Work_Before
  | Work_Copy u32 nat "(tel_snapshot \<Rightarrow> tel_snapshot \<Rightarrow> tel_snapshot) list" tel_snapshot
  | Work_Have nat nat tel_snapshot
  | Work_Exit

text \<open>\<open>ty_published\<close> is a ghost, too: the statuses published so far.\<close>

record tel_sys =
  ty_service :: tel_service
  ty_main :: tel_main
  ty_worker :: tel_worker
  ty_published :: "tel_status list"

definition published_count :: "tel_sys \<Rightarrow> nat" where
  "published_count x = length (ty_published x)"

text \<open>The content of the shared snapshot after \<open>k\<close> publications.\<close>

definition snapshot_at :: "tel_sys \<Rightarrow> nat \<Rightarrow> tel_snapshot" where
  "snapshot_at x k = (if k = 0 then snapshot_zero else snapshot_of (ty_published x ! (k - 1)))"

definition tel_start :: "tel_service \<Rightarrow> tel_sys" where
  "tel_start s = \<lparr>ty_service = s, ty_main = Main_Loop, ty_worker = Work_Head, ty_published = []\<rparr>"

definition publish_begin :: "tel_status \<Rightarrow> tel_sys \<Rightarrow> tel_sys" where
  "publish_begin st x =
     (let s = ty_service x; sequence = tel_sequence s in
      x\<lparr>ty_service := s\<lparr>tel_sequence := sequence + 1\<rparr>, ty_main := Main_Publish sequence (snapshot_writes st) st\<rparr>)"

definition publish_end :: "u32 \<Rightarrow> tel_status \<Rightarrow> tel_sys \<Rightarrow> tel_sys" where
  "publish_end sequence st x =
     x\<lparr>ty_service := (ty_service x)\<lparr>tel_sequence := sequence + 2\<rparr>, ty_main := Main_Loop,
       ty_published := ty_published x @ [st]\<rparr>"

definition close_begin :: "tel_sys \<Rightarrow> tel_sys" where
  "close_begin x = x\<lparr>ty_service := (ty_service x)\<lparr>tel_running := False\<rparr>, ty_main := Main_Join\<rparr>"

text \<open>After \<^verbatim>\<open>pthread_join\<close>.\<close>

definition close_end :: "tel_sys \<Rightarrow> tel_sys" where
  "close_end x = x\<lparr>ty_service := tel_close_finish ((ty_service x)\<lparr>tel_started := False\<rparr>), ty_main := Main_Closed\<rparr>"

text \<open>The body of the loop of \<open>snapshot_read\<close>: the first load, and the second load with the test.\<close>

definition read_before :: "tel_snapshot \<Rightarrow> tel_sys \<Rightarrow> tel_worker" where
  "read_before garbage x =
     (let before = tel_sequence (ty_service x) in
      if before AND 1 \<noteq> 0 then Work_Before else Work_Copy before (published_count x) snapshot_copies garbage)"

definition read_after :: "u32 \<Rightarrow> nat \<Rightarrow> tel_snapshot \<Rightarrow> tel_sys \<Rightarrow> tel_worker" where
  "read_after before k l x =
     (let after = tel_sequence (ty_service x) in
      if before \<noteq> after \<or> after AND 1 \<noteq> 0 then Work_Before else Work_Have k (published_count x) l)"

inductive tel_step :: "tel_sys \<Rightarrow> tel_sys \<Rightarrow> bool" where
  Publish_Begin: "ty_main x = Main_Loop \<Longrightarrow> tel_step x (publish_begin st x)"
| Publish_Write: "ty_main x = Main_Publish q (w # ws) st \<Longrightarrow>
    tel_step x (x\<lparr>ty_service := (ty_service x)\<lparr>tel_snap := w (tel_snap (ty_service x))\<rparr>,
                  ty_main := Main_Publish q ws st\<rparr>)"
| Publish_End: "ty_main x = Main_Publish q [] st \<Longrightarrow> tel_step x (publish_end q st x)"
| Close_Begin: "ty_main x = Main_Loop \<Longrightarrow> tel_step x (close_begin x)"
| Close_End: "ty_main x = Main_Join \<Longrightarrow> ty_worker x = Work_Exit \<Longrightarrow> tel_step x (close_end x)"
| Worker_Head: "ty_worker x = Work_Head \<Longrightarrow>
    tel_step x (x\<lparr>ty_worker := if tel_running (ty_service x) then Work_Before else Work_Exit\<rparr>)"
| Read_Before: "ty_worker x = Work_Before \<Longrightarrow> tel_step x (x\<lparr>ty_worker := read_before garbage x\<rparr>)"
| Read_Field: "ty_worker x = Work_Copy b k (c # cs) l \<Longrightarrow>
    tel_step x (x\<lparr>ty_worker := Work_Copy b k cs (c (tel_snap (ty_service x)) l)\<rparr>)"
| Read_After: "ty_worker x = Work_Copy b k [] l \<Longrightarrow> tel_step x (x\<lparr>ty_worker := read_after b k l x\<rparr>)"
| Worker_Serve: "ty_worker x = Work_Have k j l \<Longrightarrow>
    tel_step x (x\<lparr>ty_service := network_tick l now (ty_service x), ty_worker := Work_Head\<rparr>)"

section \<open>The snapshot\<close>

definition publishing :: "tel_sys \<Rightarrow> bool" where
  "publishing x \<longleftrightarrow> (case ty_main x of Main_Publish q ws st \<Rightarrow> True | _ \<Rightarrow> False)"

text \<open>
  The sequence number counts the snapshots twice and is odd during a publication; outside of one the
  shared snapshot is that of the last status published, within one it will be that of the next.
\<close>

definition seq_ok :: "tel_sys \<Rightarrow> bool" where
  "seq_ok x \<longleftrightarrow>
     tel_sequence (ty_service x) = of_nat (2 * published_count x) + (if publishing x then 1 else 0) \<and>
     (case ty_main x of
        Main_Publish q ws st \<Rightarrow>
          q = of_nat (2 * published_count x) \<and> fold (\<lambda>w n. w n) ws (tel_snap (ty_service x)) = snapshot_of st
      | _ \<Rightarrow> tel_snap (ty_service x) = snapshot_at x (published_count x))"

text \<open>What the worker has copied is of the current snapshot, unless one was published since the read began.\<close>

definition read_ok :: "tel_sys \<Rightarrow> bool" where
  "read_ok x \<longleftrightarrow>
     (case ty_worker x of
        Work_Copy b k cs l \<Rightarrow>
          k \<le> published_count x \<and> b = of_nat (2 * k) \<and>
          (published_count x = k \<and> \<not> publishing x \<longrightarrow>
             fold (\<lambda>c n. c (snapshot_at x k) n) cs l = snapshot_at x k)
      | Work_Have k j l \<Rightarrow>
          k \<le> j \<and> j \<le> published_count x \<and> (j - k < 2 ^ 31 \<longrightarrow> l = snapshot_at x k)
      | _ \<Rightarrow> True)"

lemma odd_word: "(of_nat (2 * n) + 1 :: u32) AND 1 \<noteq> 0" "(of_nat (2 * n) :: u32) AND 1 = 0"
  by (simp_all add: and_one_eq odd_iff_mod_2_eq_one flip: even_iff_mod_2_eq_zero)

lemma sequence_inj:
  assumes "(of_nat (2 * a) :: u32) = of_nat (2 * b)" "b \<le> a" "a - b < 2 ^ 31"
  shows "a = b"
proof -
  have "(2 * a) mod 2 ^ 32 = (2 * b) mod 2 ^ 32"
    using assms(1) by (simp add: word_of_nat_eq_iff take_bit_eq_mod del: of_nat_mult)
  then have "2 ^ 32 dvd 2 * a - 2 * b"
    using assms(2) by (simp add: mod_eq_dvd_iff_nat)
  moreover have "2 * a - 2 * b < 2 ^ 32" using assms(3) by simp
  ultimately have "2 * a - 2 * b = 0" using nat_dvd_not_less by blast
  then show ?thesis using assms(2) by simp
qed

lemma snapshot_at_append: "k \<le> published_count x \<Longrightarrow>
    snapshot_at (x\<lparr>ty_published := ty_published x @ [st]\<rparr>) k = snapshot_at x k"
  by (auto simp: snapshot_at_def published_count_def nth_append)

text \<open>The service below the snapshot: what the worker does to it is invisible here.\<close>

lemma serve_snapshot:
  assumes "tel_ok s"
  shows "tel_sequence (network_tick l now s) = tel_sequence s" "tel_snap (network_tick l now s) = tel_snap s"
    "tel_running (network_tick l now s) = tel_running s" "tel_started (network_tick l now s) = tel_started s"
    "tel_listen (network_tick l now s) = tel_listen s"
  using network_tick_post(2) [OF assms, of l now] by (simp_all add: tel_frame_def)

lemma close_finish_snapshot:
  "tel_sequence (tel_close_finish s) = tel_sequence s" "tel_snap (tel_close_finish s) = tel_snap s"
proof -
  have remove: "tel_sequence (tel_client_remove c s) = tel_sequence s" "tel_snap (tel_client_remove c s) = tel_snap s" for c s
    by (simp_all add: tel_client_remove_def Let_def tel_close_fd_def split: option.split)
  have "tel_sequence (tel_remove_all n s) = tel_sequence s \<and> tel_snap (tel_remove_all n s) = tel_snap s" for n
    by (induction n s rule: tel_remove_all.induct) (auto simp: remove split: list.splits)
  then show "tel_sequence (tel_close_finish s) = tel_sequence s" "tel_snap (tel_close_finish s) = tel_snap s"
    by (simp_all add: tel_close_finish_def Let_def tel_close_fd_def)
qed

lemma seq_ok_step:
  assumes "tel_step x y" "seq_ok x" "tel_ok (ty_service x)"
  shows "seq_ok y"
  using assms(1)
proof cases
  case (Publish_Begin st)
  then show ?thesis
    using assms(2) by (simp add: seq_ok_def publish_begin_def Let_def publishing_def published_count_def snapshot_writes_all)
next
  case (Publish_Write q w ws st)
  then show ?thesis using assms(2) by (simp add: seq_ok_def publishing_def published_count_def)
next
  case (Publish_End q st)
  then show ?thesis
    using assms(2) by (simp add: seq_ok_def publish_end_def publishing_def published_count_def snapshot_at_def)
next
  case Close_Begin
  then show ?thesis
    using assms(2) by (simp add: seq_ok_def close_begin_def publishing_def published_count_def snapshot_at_def)
next
  case Close_End
  then show ?thesis
    using assms(2)
    by (simp add: seq_ok_def close_end_def publishing_def published_count_def snapshot_at_def close_finish_snapshot)
next
  case (Worker_Serve k j l now)
  then show ?thesis
    using assms(2) serve_snapshot [OF assms(3)]
    by (simp add: seq_ok_def publishing_def published_count_def snapshot_at_def split: tel_main.splits)
qed (use assms(2) in \<open>simp_all add: seq_ok_def publishing_def published_count_def snapshot_at_def split: tel_main.splits\<close>)

lemma read_ok_step:
  assumes "tel_step x y" "seq_ok x" "read_ok x"
  shows "read_ok y"
  using assms(1)
proof cases
  case (Publish_Begin st)
  then show ?thesis
    using assms(3)
    by (simp add: read_ok_def publish_begin_def Let_def publishing_def published_count_def snapshot_at_def
        split: tel_worker.splits)
next
  case (Publish_Write q w ws st)
  then show ?thesis
    using assms(3) by (simp add: read_ok_def publishing_def published_count_def snapshot_at_def split: tel_worker.splits)
next
  case (Publish_End q st)
  then show ?thesis
    using assms(3)
    by (auto simp: read_ok_def publish_end_def publishing_def published_count_def snapshot_at_def nth_append
        split: tel_worker.splits)
next
  case Close_Begin
  then show ?thesis
    using assms(3)
    by (auto simp: read_ok_def close_begin_def publishing_def published_count_def snapshot_at_def split: tel_worker.splits)
next
  case Close_End
  then show ?thesis by (simp add: read_ok_def close_end_def)
next
  case (Read_Before garbage)
  have "\<not> publishing x \<Longrightarrow> tel_sequence (ty_service x) = of_nat (2 * published_count x)"
    "publishing x \<Longrightarrow> tel_sequence (ty_service x) AND 1 \<noteq> 0"
    using assms(2) odd_word by (simp_all add: seq_ok_def)
  then show ?thesis
    using Read_Before
    by (auto simp: read_ok_def read_before_def Let_def snapshot_copies_all publishing_def published_count_def snapshot_at_def)
next
  case (Read_Field b k c cs l)
  then show ?thesis
    using assms(2,3)
    by (auto simp: read_ok_def seq_ok_def publishing_def published_count_def snapshot_at_def split: tel_main.splits)
next
  case (Read_After b k l)
  have seq: "tel_sequence (ty_service x) = of_nat (2 * published_count x) + (if publishing x then 1 else 0)"
    using assms(2) by (simp add: seq_ok_def)
  have old: "k \<le> published_count x" "b = of_nat (2 * k)"
    "published_count x = k \<Longrightarrow> \<not> publishing x \<Longrightarrow> l = snapshot_at x k"
    using assms(3) Read_After(2) by (simp_all add: read_ok_def)
  show ?thesis
  proof (cases "b \<noteq> tel_sequence (ty_service x) \<or> tel_sequence (ty_service x) AND 1 \<noteq> 0")
    case True
    then show ?thesis using Read_After by (simp add: read_ok_def read_after_def Let_def)
  next
    case False
    then have quiet: "\<not> publishing x" using seq odd_word(1) [of "published_count x"] by (cases "publishing x") simp_all
    then have "(of_nat (2 * published_count x) :: u32) = of_nat (2 * k)" using False seq old(2) by simp
    then have whole: "published_count x - k < 2 ^ 31 \<longrightarrow> l = snapshot_at x k"
      using sequence_inj old(1,3) quiet by blast
    have "read_after b k l x = Work_Have k (published_count x) l"
      using False unfolding read_after_def Let_def by (simp only: if_False)
    then have "ty_worker y = Work_Have k (published_count x) l" "published_count y = published_count x"
      "snapshot_at y k = snapshot_at x k"
      using Read_After(1) by (simp_all add: published_count_def snapshot_at_def)
    then show ?thesis using whole old(1) unfolding read_ok_def by simp
  qed
qed (simp_all add: read_ok_def)

section \<open>The service and the threads\<close>

text \<open>
  Who may touch the clients: the worker as long as it runs, the main thread after it has ended. The
  worker ends only when it was told to.
\<close>

definition threads_ok :: "tel_sys \<Rightarrow> bool" where
  "threads_ok x \<longleftrightarrow>
     (case ty_main x of
        Main_Join \<Rightarrow> \<not> tel_running (ty_service x)
      | Main_Closed \<Rightarrow> \<not> tel_running (ty_service x) \<and> \<not> tel_started (ty_service x) \<and> ty_worker x = Work_Exit \<and>
          tel_clients (ty_service x) = [] \<and> tel_listen (ty_service x) = STN_INVALID_SOCKET
      | _ \<Rightarrow> tel_running (ty_service x) \<and> ty_worker x \<noteq> Work_Exit)"

text \<open>All descriptors of the service, the listening one included, wherever they are.\<close>

definition all_fds :: "tel_service \<Rightarrow> int multiset" where
  "all_fds s = tel_fds s + (if tel_listen s = STN_INVALID_SOCKET then {#} else {#tel_listen s#})"

lemma tel_remove_all_post:
  assumes "tel_ok s" "length (tel_clients s) = n"
  shows "tel_ok (tel_remove_all n s) \<and> tel_clients (tel_remove_all n s) = [] \<and> tel_fds (tel_remove_all n s) = tel_fds s \<and>
    tel_listen (tel_remove_all n s) = tel_listen s \<and> tel_running (tel_remove_all n s) = tel_running s \<and>
    tel_started (tel_remove_all n s) = tel_started s"
  using assms
proof (induction n arbitrary: s)
  case (Suc n)
  then obtain c cs where cs: "tel_clients s = c # cs" "length cs = n" by (cases "tel_clients s") auto
  let ?s = "tel_client_remove (tc_id c) s"
  have dist: "distinct (map tc_id ([] @ c # cs))" and count: "tel_count s = Suc n" and fd: "0 \<le> tc_socket c"
    using Suc.prems cs by (simp_all add: tel_ok_def)
  have s: "?s = s\<lparr>tel_clients := cs, tel_closed := tel_closed s @ [tc_socket c], tel_count := n\<rparr>"
    using unlink_middle [OF dist] cs count fd
    by (simp add: tel_client_remove_def tel_find_def Let_def tel_close_fd_def)
  have ok: "tel_ok ?s" "length (tel_clients ?s) = n" using Suc.prems(1) cs by (auto simp: s tel_ok_def)
  have same: "tel_fds ?s = tel_fds s" "tel_listen ?s = tel_listen s" "tel_running ?s = tel_running s"
    "tel_started ?s = tel_started s"
    using cs by (simp_all add: s tel_fds_def)
  have "tel_remove_all (Suc n) s = tel_remove_all n ?s" using cs by simp
  then show ?case using Suc.IH [OF ok] by (simp only: same simp_thms)
qed simp

lemma close_finish_post:
  assumes "tel_ok s"
  shows "tel_ok (tel_close_finish s) \<and> tel_clients (tel_close_finish s) = [] \<and>
    tel_listen (tel_close_finish s) = STN_INVALID_SOCKET \<and> all_fds (tel_close_finish s) = all_fds s \<and>
    tel_running (tel_close_finish s) = tel_running s \<and> tel_started (tel_close_finish s) = tel_started s"
  using tel_remove_all_post [OF assms refl]
  by (auto simp: tel_close_finish_def Let_def all_fds_def tel_fds_def tel_close_fd_def tel_ok_def)

definition service_ok :: "int multiset \<Rightarrow> tel_sys \<Rightarrow> bool" where
  "service_ok M x \<longleftrightarrow> tel_ok (ty_service x) \<and> all_fds (ty_service x) = M \<and> threads_ok x"

lemma tel_ok_shared [simp]:
  "tel_ok (s\<lparr>tel_sequence := q\<rparr>) = tel_ok s" "tel_ok (s\<lparr>tel_snap := n\<rparr>) = tel_ok s"
  "tel_ok (s\<lparr>tel_running := b\<rparr>) = tel_ok s" "tel_ok (s\<lparr>tel_started := b\<rparr>) = tel_ok s"
  by (simp_all add: tel_ok_def)

lemma all_fds_shared [simp]:
  "all_fds (s\<lparr>tel_sequence := q\<rparr>) = all_fds s" "all_fds (s\<lparr>tel_snap := n\<rparr>) = all_fds s"
  "all_fds (s\<lparr>tel_running := b\<rparr>) = all_fds s" "all_fds (s\<lparr>tel_started := b\<rparr>) = all_fds s"
  by (simp_all add: all_fds_def tel_fds_def)

lemma threads_ok_simps:
  "ty_main x = Main_Loop \<Longrightarrow> threads_ok x \<longleftrightarrow> tel_running (ty_service x) \<and> ty_worker x \<noteq> Work_Exit"
  "ty_main x = Main_Publish q ws st \<Longrightarrow> threads_ok x \<longleftrightarrow> tel_running (ty_service x) \<and> ty_worker x \<noteq> Work_Exit"
  "ty_main x = Main_Join \<Longrightarrow> threads_ok x \<longleftrightarrow> \<not> tel_running (ty_service x)"
  by (simp_all add: threads_ok_def)

lemma worker_step_threads:
  assumes "threads_ok x" "ty_worker x \<noteq> Work_Exit" "w \<noteq> Work_Exit \<or> \<not> tel_running (ty_service x)"
  shows "threads_ok (x\<lparr>ty_worker := w\<rparr>)"
  using assms by (auto simp: threads_ok_def split: tel_main.splits)

lemma read_not_exit [simp]: "read_before garbage x \<noteq> Work_Exit" "read_after b k l x \<noteq> Work_Exit"
  by (simp_all add: read_before_def read_after_def Let_def)

lemma service_ok_step:
  assumes "tel_step x y" "service_ok M x"
  shows "service_ok M y"
proof -
  have ok: "tel_ok (ty_service x)" "all_fds (ty_service x) = M" "threads_ok x"
    using assms(2) by (simp_all add: service_ok_def)
  from assms(1) show ?thesis
  proof cases
    case (Publish_Begin st)
    then show ?thesis
      using ok by (simp add: service_ok_def publish_begin_def Let_def threads_ok_simps)
  next
    case (Publish_Write q w ws st)
    then show ?thesis using ok by (simp add: service_ok_def threads_ok_simps)
  next
    case (Publish_End q st)
    then show ?thesis using ok by (simp add: service_ok_def publish_end_def threads_ok_simps)
  next
    case Close_Begin
    then show ?thesis using ok by (simp add: service_ok_def close_begin_def threads_ok_simps)
  next
    case Close_End
    then show ?thesis
      using ok close_finish_post [of "(ty_service x)\<lparr>tel_started := False\<rparr>"]
      by (simp add: service_ok_def close_end_def threads_ok_def)
  next
    case (Worker_Serve k j l now)
    have "threads_ok y"
      using Worker_Serve ok(1,3) serve_snapshot [OF ok(1)] by (auto simp: threads_ok_def split: tel_main.splits)
    moreover have "all_fds (network_tick l now (ty_service x)) = all_fds (ty_service x)"
      using network_tick_post [OF ok(1), of l now] by (simp add: all_fds_def tel_frame_def)
    ultimately show ?thesis
      using Worker_Serve ok network_tick_post(1) [OF ok(1), of l now] by (simp add: service_ok_def)
  qed (use ok in \<open>simp_all add: service_ok_def worker_step_threads\<close>)
qed

definition sys_ok :: "int multiset \<Rightarrow> tel_sys \<Rightarrow> bool" where
  "sys_ok M x \<longleftrightarrow> service_ok M x \<and> seq_ok x \<and> read_ok x"

lemma sys_ok_steps: "tel_step\<^sup>*\<^sup>* x y \<Longrightarrow> sys_ok M x \<Longrightarrow> sys_ok M y"
proof (induction rule: rtranclp_induct)
  case (step y z)
  then have ok: "service_ok M y" "seq_ok y" "read_ok y" by (simp_all add: sys_ok_def)
  then have "tel_ok (ty_service y)" by (simp add: service_ok_def)
  then show ?case
    using service_ok_step [OF step.hyps(2) ok(1)] seq_ok_step [OF step.hyps(2) ok(2)]
      read_ok_step [OF step.hyps(2) ok(2,3)]
    by (simp add: sys_ok_def)
qed simp

lemma sys_ok_open:
  assumes "stn_telemetry_service_open e thread_ok (stn_telemetry_service_init port accepts mem) = (True, s)"
  shows "sys_ok (mset (fds_of accepts) + {#oe_socket e#}) (tel_start s)"
proof -
  have "s = (stn_telemetry_service_init port accepts mem)\<lparr>tel_listen := oe_socket e, tel_running := True, tel_started := True\<rparr>"
    "oe_socket e \<noteq> STN_INVALID_SOCKET"
    using assms by (auto simp: stn_telemetry_service_open_def Let_def split: if_splits)
  then show ?thesis
    by (simp add: sys_ok_def service_ok_def tel_start_def tel_ok_def all_fds_def tel_fds_def threads_ok_def seq_ok_def
        read_ok_def publishing_def published_count_def snapshot_at_def stn_telemetry_service_init_def)
qed

section \<open>What the threads guarantee\<close>

text \<open>
  C23. However the steps of the two threads interleave, the copy with which the
  worker leaves \<open>snapshot_read\<close> is whole: it is exactly the snapshot of one published status, the newest
  one when the read began, or the initial snapshot if there was none, provided fewer than \<open>2 ^ 31\<close>
  publications complete during that one read (which take the server, at four in a second, 17 years).
\<close>

theorem telemetry_snapshot_whole:
  assumes "stn_telemetry_service_open e thread_ok (stn_telemetry_service_init port accepts mem) = (True, s)"
    and "tel_step\<^sup>*\<^sup>* (tel_start s) x" and "ty_worker x = Work_Have k j l" and "j - k < 2 ^ 31"
  shows "k \<le> j \<and> j \<le> length (ty_published x) \<and>
    (if k = 0 then l = snapshot_zero else status_of_snapshot l = shown (ty_published x ! (k - 1)))"
  using sys_ok_steps [OF assms(2) sys_ok_open [OF assms(1)]] assms(3,4)
  by (simp add: sys_ok_def read_ok_def snapshot_at_def published_count_def status_of_snapshot_of)

text \<open>
  C25. However the threads interleave, no client is read after it was freed, the counter
  counts the clients, and every descriptor that was accepted, and the listening one, is open in one
  place or closed once; when \<open>stn_telemetry_service_close\<close> returns, the worker has ended, no client is
  left, and each of them has been closed exactly once, those still to be accepted apart.
\<close>

theorem telemetry_closed:
  assumes "stn_telemetry_service_open e thread_ok (stn_telemetry_service_init port accepts mem) = (True, s)"
    and "tel_step\<^sup>*\<^sup>* (tel_start s) x"
  shows "\<not> tel_fault (ty_service x) \<and> tel_count (ty_service x) = length (tel_clients (ty_service x)) \<and>
    all_fds (ty_service x) = mset (fds_of accepts) + {#oe_socket e#} \<and>
    (ty_main x = Main_Closed \<longrightarrow> ty_worker x = Work_Exit \<and> tel_clients (ty_service x) = [] \<and>
       tel_listen (ty_service x) = STN_INVALID_SOCKET \<and>
       mset (tel_closed (ty_service x)) + mset (fds_of (tel_accepts (ty_service x))) =
         mset (fds_of accepts) + {#oe_socket e#})"
  using sys_ok_steps [OF assms(2) sys_ok_open [OF assms(1)]]
  by (auto simp: sys_ok_def service_ok_def tel_ok_def threads_ok_def all_fds_def tel_fds_def)

text \<open>
  One pass of the worker over its clients serves each of them once, in list order, the
  newly accepted ones first, with the same status and time, drops exactly those whose tick asks for it
  and closes their descriptors; no client that it keeps has been connected for two seconds or more.
\<close>

theorem telemetry_pass:
  assumes "stn_telemetry_service_open e thread_ok (stn_telemetry_service_init port accepts mem) = (True, s)"
    and "tel_step\<^sup>*\<^sup>* (tel_start s) x"
  shows "let before = tel_accept_clients now (ty_service x); after = network_tick n now (ty_service x);
      tick = (\<lambda>c. client_tick c (status_of_snapshot n) now) in
    tel_clients after = map snd (filter fst (map tick (tel_clients before))) \<and>
    tel_closed after = tel_closed before @ map tc_socket (filter (\<lambda>c. \<not> fst (tick c)) (tel_clients before)) \<and>
    list_all (\<lambda>c. \<not> (tc_connected c \<noteq> 0 \<and> now - tc_connected c \<ge> 2)) (tel_clients after)"
proof -
  have ok: "tel_ok (ty_service x)"
    using sys_ok_steps [OF assms(2) sys_ok_open [OF assms(1)]] by (simp add: sys_ok_def service_ok_def)
  have "\<not> (tc_connected d \<noteq> 0 \<and> now - tc_connected d \<ge> 2)" if "d \<in> set (kept (status_of_snapshot n) now cs)" for d cs
    using kept_sub [OF that] tick_expired by (fastforce simp: client_expired_def)
  then show ?thesis
    by (simp add: network_tick_eq [OF ok] Let_def list_all_iff) (simp add: kept_def dropped_def)
qed

section \<open>A run\<close>

definition sample_tel_open :: open_env where
  "sample_tel_open = \<lparr>oe_socket = 5, oe_setsockopt = True, oe_bind = True, oe_listen = True, oe_getfl = True, oe_setfl = True\<rparr>"

definition sample_tel_service :: tel_service where
  "sample_tel_service = snd (stn_telemetry_service_open sample_tel_open True (stn_telemetry_service_init 18476 [Tel_Conn 9 True [] []] []))"

lemma sample_tel_opened: "stn_telemetry_service_open sample_tel_open True
    (stn_telemetry_service_init 18476 [Tel_Conn 9 True [] []] []) = (True, sample_tel_service)"
  by (simp add: sample_tel_service_def stn_telemetry_service_open_def sample_tel_open_def stn_telemetry_service_init_def)

text \<open>A thread that is not interrupted does what its function does.\<close>

lemma writes_run:
  "ty_main x = Main_Publish q ws st \<Longrightarrow>
   tel_step\<^sup>*\<^sup>* x (x\<lparr>ty_service := (ty_service x)\<lparr>tel_snap := fold (\<lambda>w n. w n) ws (tel_snap (ty_service x))\<rparr>,
     ty_main := Main_Publish q [] st\<rparr>)"
proof (induction ws arbitrary: x)
  case Nil
  then have "x\<lparr>ty_main := Main_Publish q [] st\<rparr> = x" by (cases x) simp
  then show ?case by simp
next
  case (Cons w ws)
  let ?y = "x\<lparr>ty_service := (ty_service x)\<lparr>tel_snap := w (tel_snap (ty_service x))\<rparr>, ty_main := Main_Publish q ws st\<rparr>"
  have "tel_step x ?y" by (rule Publish_Write [OF Cons.prems])
  with Cons.IH [of ?y] show ?case by (simp add: converse_rtranclp_into_rtranclp)
qed

lemma publish_run:
  assumes "ty_main x = Main_Loop"
  shows "tel_step\<^sup>*\<^sup>* x (x\<lparr>ty_service := snapshot_publish st (ty_service x), ty_published := ty_published x @ [st]\<rparr>)"
proof -
  let ?s = "ty_service x"
  let ?y = "publish_begin st x"
  let ?z = "?y\<lparr>ty_service := (ty_service ?y)\<lparr>tel_snap := fold (\<lambda>w n. w n) (snapshot_writes st) (tel_snap (ty_service ?y))\<rparr>,
      ty_main := Main_Publish (tel_sequence ?s) [] st\<rparr>"
  have "tel_step x ?y" by (rule Publish_Begin [OF assms])
  moreover have "tel_step\<^sup>*\<^sup>* ?y ?z" by (rule writes_run) (simp add: publish_begin_def Let_def)
  moreover have "tel_step ?z (publish_end (tel_sequence ?s) st ?z)" by (rule Publish_End) simp
  moreover have "publish_end (tel_sequence ?s) st ?z =
      x\<lparr>ty_service := snapshot_publish st ?s, ty_published := ty_published x @ [st]\<rparr>"
    using assms by (simp add: publish_end_def publish_begin_def snapshot_publish_def Let_def)
  ultimately show ?thesis by (metis (no_types, lifting) converse_rtranclp_into_rtranclp rtranclp.rtrancl_into_rtrancl)
qed

lemma copies_run:
  "ty_worker x = Work_Copy b k cs l \<Longrightarrow>
   tel_step\<^sup>*\<^sup>* x (x\<lparr>ty_worker := Work_Copy b k [] (fold (\<lambda>c n. c (tel_snap (ty_service x)) n) cs l)\<rparr>)"
proof (induction cs arbitrary: x l)
  case Nil
  then have "x\<lparr>ty_worker := Work_Copy b k [] l\<rparr> = x" by (cases x) simp
  then show ?case by simp
next
  case (Cons c cs)
  let ?y = "x\<lparr>ty_worker := Work_Copy b k cs (c (tel_snap (ty_service x)) l)\<rparr>"
  have "tel_step x ?y" by (rule Read_Field [OF Cons.prems])
  with Cons.IH [of ?y] show ?case by (simp add: converse_rtranclp_into_rtranclp)
qed

lemma read_run:
  assumes "ty_worker x = Work_Head" "tel_running (ty_service x)" "tel_sequence (ty_service x) AND 1 = 0"
  shows "tel_step\<^sup>*\<^sup>* x (x\<lparr>ty_worker := Work_Have (published_count x) (published_count x) (tel_snap (ty_service x))\<rparr>)"
proof -
  let ?k = "published_count x" and ?s = "ty_service x"
  have "tel_step x (x\<lparr>ty_worker := Work_Before\<rparr>)" using Worker_Head [OF assms(1)] assms(2) by simp
  moreover have "tel_step (x\<lparr>ty_worker := Work_Before\<rparr>)
      (x\<lparr>ty_worker := Work_Copy (tel_sequence ?s) ?k snapshot_copies snapshot_zero\<rparr>)"
    using Read_Before [of "x\<lparr>ty_worker := Work_Before\<rparr>" snapshot_zero] assms(3)
    by (simp add: read_before_def Let_def published_count_def)
  moreover have "tel_step\<^sup>*\<^sup>* (x\<lparr>ty_worker := Work_Copy (tel_sequence ?s) ?k snapshot_copies snapshot_zero\<rparr>)
      (x\<lparr>ty_worker := Work_Copy (tel_sequence ?s) ?k [] (tel_snap ?s)\<rparr>)"
    using copies_run [of "x\<lparr>ty_worker := Work_Copy (tel_sequence ?s) ?k snapshot_copies snapshot_zero\<rparr>"]
    by (simp add: snapshot_copies_all)
  moreover have "tel_step (x\<lparr>ty_worker := Work_Copy (tel_sequence ?s) ?k [] (tel_snap ?s)\<rparr>)
      (x\<lparr>ty_worker := Work_Have ?k ?k (tel_snap ?s)\<rparr>)"
    using Read_After [of "x\<lparr>ty_worker := Work_Copy (tel_sequence ?s) ?k [] (tel_snap ?s)\<rparr>"] assms(3)
    by (simp add: read_after_def Let_def published_count_def)
  ultimately show ?thesis
    by (metis (no_types, lifting) converse_rtranclp_into_rtranclp rtranclp.rtrancl_into_rtrancl)
qed

text \<open>
  A run: the main thread publishes, the worker reads and serves, then the service is closed.
\<close>

definition sample_tel_read :: tel_sys where
  "sample_tel_read = \<lparr>ty_service = snapshot_publish sample_status sample_tel_service, ty_main = Main_Loop,
     ty_worker = Work_Have 1 1 (snapshot_of sample_status), ty_published = [sample_status]\<rparr>"

lemma sample_tel_read_reached: "tel_step\<^sup>*\<^sup>* (tel_start sample_tel_service) sample_tel_read"
proof -
  let ?x = "(tel_start sample_tel_service)\<lparr>ty_service := snapshot_publish sample_status sample_tel_service, ty_published := [sample_status]\<rparr>"
  have "tel_step\<^sup>*\<^sup>* (tel_start sample_tel_service) ?x"
    using publish_run [of "tel_start sample_tel_service" sample_status] by (simp add: tel_start_def)
  moreover have "tel_step\<^sup>*\<^sup>* ?x sample_tel_read"
    using read_run [of ?x]
    by (simp add: tel_start_def sample_tel_read_def published_count_def publish_snapshot)
      (simp add: snapshot_publish_def Let_def sample_tel_service_def stn_telemetry_service_open_def sample_tel_open_def
        stn_telemetry_service_init_def)
  ultimately show ?thesis by (rule rtranclp_trans)
qed

theorem telemetry_snapshot_whole_witness:
  "status_of_snapshot (snapshot_of sample_status) = shown sample_status"
  using telemetry_snapshot_whole [OF sample_tel_opened sample_tel_read_reached, of 1 1] by (simp add: sample_tel_read_def)

definition sample_tel_closed :: tel_sys where
  "sample_tel_closed = close_end ((close_begin
     (sample_tel_read\<lparr>ty_service := network_tick (snapshot_of sample_status) 100 (ty_service sample_tel_read), ty_worker := Work_Head\<rparr>))
       \<lparr>ty_worker := Work_Exit\<rparr>)"

lemma sample_tel_closed_reached: "tel_step\<^sup>*\<^sup>* (tel_start sample_tel_service) sample_tel_closed"
proof -
  let ?x = "sample_tel_read\<lparr>ty_service := network_tick (snapshot_of sample_status) 100 (ty_service sample_tel_read), ty_worker := Work_Head\<rparr>"
  have "tel_step sample_tel_read ?x" by (rule Worker_Serve) (simp add: sample_tel_read_def)
  moreover have "tel_step ?x (close_begin ?x)" by (rule Close_Begin) (simp add: sample_tel_read_def)
  moreover have "tel_step (close_begin ?x) ((close_begin ?x)\<lparr>ty_worker := Work_Exit\<rparr>)"
    using Worker_Head [of "close_begin ?x"] by (simp add: close_begin_def)
  moreover have "tel_step ((close_begin ?x)\<lparr>ty_worker := Work_Exit\<rparr>) sample_tel_closed"
    unfolding sample_tel_closed_def by (rule Close_End) (simp_all add: close_begin_def)
  ultimately show ?thesis
    using sample_tel_read_reached by (meson rtranclp.rtrancl_into_rtrancl)
qed

theorem telemetry_closed_witness:
  "tel_clients (ty_service sample_tel_closed) = [] \<and>
   mset (tel_closed (ty_service sample_tel_closed)) + mset (fds_of (tel_accepts (ty_service sample_tel_closed))) = {#9, 5#}"
proof -
  have "ty_main sample_tel_closed = Main_Closed" by (simp add: sample_tel_closed_def close_end_def)
  then show ?thesis
    using telemetry_closed [OF sample_tel_opened sample_tel_closed_reached] by (simp add: sample_tel_open_def add_mset_commute)
qed

theorem telemetry_pass_witness:
  "list_all (\<lambda>c. \<not> (tc_connected c \<noteq> 0 \<and> 100 - tc_connected c \<ge> 2))
     (tel_clients (network_tick (snapshot_of sample_status) 100 (ty_service sample_tel_read)))"
  using telemetry_pass [OF sample_tel_opened sample_tel_read_reached, of 100 "snapshot_of sample_status"]
  unfolding Let_def by (elim conjE)

end
