(* ===== verification/Server_Status.thy ===== *)
theory Server_Status
  imports Server_Sample Config_Props Telemetry_Threads Page_Reader Server_Parts
begin

text \<open>
  What the mining server publishes (\<^verbatim>\<open>telemetry_tick\<close> of \<^verbatim>\<open>src/stn_stratum_server.c\<close>), the iteration of
  its main loop with the publication, and its start together with the configuration and the telemetry
  service.
\<close>

section \<open>Publishing\<close>

definition hex_table :: bytes where
  "hex_table = lit ''0123456789abcdef''"

definition telemetry_hex32 :: "bytes \<Rightarrow> bytes" where
  "telemetry_hex32 value =
     concat (map (\<lambda>i. [hex_table ! unat (drop_bit 4 (value ! i) AND 0x0f), hex_table ! unat (value ! i AND 0x0f)]) [0..<32])"

definition server_status :: "'u server \<Rightarrow> int \<Rightarrow> int \<Rightarrow> tel_status" where
  "server_status s started_at now =
     (let zeros = replicate 64 0x30;
          job = (if have_work s then telemetry_hex32 (active_job_id s) else zeros);
          base = (if have_work s then telemetry_hex32 (active_base s) else zeros);
          target = (if have_work s \<and> active_template_length s \<ge> 68 + STN_MINER_CHAIN_TARGET_OFFSET + 32
                    then telemetry_hex32 (drop (68 + STN_MINER_CHAIN_TARGET_OFFSET) (active_template s)) else zeros);
          entry = active_chain s
      in \<lparr>st_connected = chain_available s,
          st_host = Some (case entry of Some e \<Rightarrow> cfg_host e | None \<Rightarrow> []),
          st_port = (case entry of Some e \<Rightarrow> cfg_port e | None \<Rightarrow> 0),
          st_work = have_work s,
          st_miners = stn_client_session_count (clients s),
          st_hashrate = stn_client_session_total_hashrate (clients s),
          st_job = Some job, st_base = Some base, st_target = Some target,
          st_uptime = (if started_at \<noteq> 0 \<and> now \<ge> started_at then of_int (now - started_at) else 0)\<rparr>)"

definition telemetry_tick :: "'u server \<Rightarrow> int \<Rightarrow> int \<Rightarrow> tel_service \<Rightarrow> tel_service" where
  "telemetry_tick s started_at now t = snapshot_publish (server_status s started_at now) t"

text \<open>One iteration of the main loop, with the publication between serving and polling.\<close>

definition program_tick :: "int \<Rightarrow> int \<Rightarrow> 'u server \<times> tel_service \<Rightarrow> 'u server \<times> tel_service" where
  "program_tick started_at now = (\<lambda>(s, t).
     let s = accept_clients s;
         s = service_clients s;
         t = telemetry_tick s started_at now t;
         s = (if loop_count s mod STN_STRATUM_CHAIN_POLL_TICKS = 0 then refresh_work s else s);
         s = send_pending_jobs s
     in (s\<lparr>loop_count := loop_count s + 1\<rparr>, t))"

lemma program_tick_server: "fst (program_tick started_at now (s, t)) = server_tick s"
  by (simp add: program_tick_def server_tick_def Let_def)

section \<open>Starting\<close>

text \<open>
  Start of the program: the log, the configuration file, the Chain server, the listening sockets, the
  telemetry service; \<open>server_start\<close> with a running telemetry service tells how far it comes.
\<close>

definition program_start ::
  "bool \<Rightarrow> file_env \<Rightarrow> open_env \<Rightarrow> open_env \<Rightarrow> open_env \<Rightarrow> bool \<Rightarrow> 'u server \<Rightarrow> tel_service \<Rightarrow> cmem \<Rightarrow>
   bool \<times> 'u server \<times> tel_service \<times> cmem" where
  "program_start log_ok file e1 e2 e3 thread_ok s t m =
     (if \<not> log_ok then (False, s, t, m)
      else
        (case stn_chain_config_load (Some (chain_config s)) (Some file) m of
           (loaded, cfg, m) \<Rightarrow>
             if \<not> loaded then (False, s, t, m)
             else if \<not> fst (server_start True cfg e1 e2 True s)
             then (False, snd (server_start True cfg e1 e2 True s), t, m)
             else
               (case stn_telemetry_service_open e3 thread_ok t of
                  (ok, t) \<Rightarrow>
                    (case server_start True cfg e1 e2 ok s of (started, s) \<Rightarrow> (started, s, t, m)))))"

section \<open>Hexadecimal\<close>

definition hex_digit :: "byte \<Rightarrow> byte" where
  "hex_digit c = (if c < 58 then c - 48 else c - 87)"

fun unhex :: "bytes \<Rightarrow> bytes" where
  "unhex (a # b # cs) = (16 * hex_digit a + hex_digit b) # unhex cs"
| "unhex _ = []"

lemma nibble_cases: "n < 16 \<Longrightarrow> n \<in> {0, 1, 2, 3, 4, 5, 6, 7, 8, 9, 10, 11, 12, 13, 14, 15 :: nat}"
  by simp presburger

lemma hex_digit_table: "n < 16 \<Longrightarrow> hex_digit (hex_table ! n) = of_nat n"
  using nibble_cases [of n] by (auto simp: hex_table_def lit_def hex_digit_def)

lemma hex_byte:
  fixes b :: byte
  shows "16 * hex_digit (hex_table ! unat (drop_bit 4 b AND 0x0f)) + hex_digit (hex_table ! unat (b AND 0x0f)) = b"
proof -
  have low: "b AND 15 = take_bit 4 b" "drop_bit 4 b AND 15 = take_bit 4 (drop_bit 4 b)"
    using take_bit_eq_mask [of 4 b] take_bit_eq_mask [of 4 "drop_bit 4 b"] by (simp_all add: mask_eq_exp_minus_1)
  have bound: "unat (take_bit 4 x) < 16" for x :: byte
    by (simp only: unsigned_take_bit_eq) (simp add: take_bit_eq_mod)
  have "unat b div 16 < 16" using unat_byte_less [of b] by linarith
  then have "unat (16 * take_bit 4 (drop_bit 4 b) + take_bit 4 b) = unat b"
    by (simp add: unat_word_ariths unsigned_take_bit_eq unsigned_drop_bit_eq take_bit_eq_mod drop_bit_eq_div)
  then have "16 * take_bit 4 (drop_bit 4 b) + take_bit 4 b = b" by (simp only: word_unat_eq_iff)
  then show ?thesis using hex_digit_table [OF bound] by (simp add: low)
qed

lemma unhex_map: "unhex (concat (map (\<lambda>i. [f i, g i]) is)) = map (\<lambda>i. 16 * hex_digit (f i) + hex_digit (g i)) is"
  by (induction "is") simp_all

lemma unhex_hex32: "32 \<le> length v \<Longrightarrow> unhex (telemetry_hex32 v) = take 32 v"
  by (rule nth_equalityI) (simp_all add: telemetry_hex32_def unhex_map hex_byte)

lemma length_hex32: "length (telemetry_hex32 v) = 64"
  by (simp add: telemetry_hex32_def length_concat comp_def sum_list_triv)

section \<open>What the page says\<close>

lemma plain_hex32: "plain_text (telemetry_hex32 v)"
proof -
  have bound: "unat (x AND 15) < 16" for x :: byte
  proof -
    have "x AND 15 = take_bit 4 x" using take_bit_eq_mask [of 4 x] by (simp add: mask_eq_exp_minus_1)
    then have "unat (x AND 15) = take_bit 4 (unat x)" by (simp only: unsigned_take_bit_eq)
    then show ?thesis by (simp add: take_bit_eq_mod)
  qed
  have "hex_table ! unat (x AND 15) \<in> set hex_table" for x :: byte
    using bound [of x] by (intro nth_mem) (simp add: hex_table_def)
  then have "set (telemetry_hex32 v) \<subseteq> set hex_table" by (auto simp: telemetry_hex32_def)
  moreover have "plain_text hex_table" by (simp add: plain_text_def hex_table_def lit_def)
  ultimately show ?thesis by (auto simp: plain_text_def)
qed

lemma snapshot_shows_server:
  assumes "srv_ok s" and "length (clients s) < 2 ^ 64"
  shows "let n = tel_snap (telemetry_tick s started_at now t) in
    sn_connected n = chain_available s \<and> sn_work n = have_work s \<and> sn_miners n = length (clients s) \<and>
    unat (sn_hashrate n) = min (2 ^ 64 - 1) (\<Sum>c\<leftarrow>clients s. unat (hashrate c)) \<and>
    (case active_chain s of None \<Rightarrow> sn_host n = [] \<and> sn_port n = 0
     | Some e \<Rightarrow> sn_host n = take 255 (cfg_host e) \<and> sn_port n = cfg_port e) \<and>
    (if have_work s then unhex (sn_job n) = active_job_id s \<and> unhex (sn_base n) = active_base s \<and>
       unhex (sn_target n) = bytes_at (68 + STN_MINER_CHAIN_TARGET_OFFSET) 32 (active_template s)
     else sn_job n = replicate 64 0x30 \<and> sn_base n = replicate 64 0x30 \<and> sn_target n = replicate 64 0x30) \<and>
    sn_uptime n = (if started_at \<noteq> 0 \<and> now \<ge> started_at then of_int (now - started_at) else 0) \<and>
    plain_text (sn_job n) \<and> plain_text (sn_base n) \<and> plain_text (sn_target n)"
proof -
  have work: "length (active_base s) = 32" "length (active_job_id s) = 32"
    "have_work s \<Longrightarrow> 220 \<le> active_template_length s \<and> active_template_length s \<le> length (active_template s)"
    using assms(1) by (auto simp: srv_ok_def work_ok_def)
  have ids: "unhex (telemetry_hex32 (active_job_id s)) = active_job_id s"
    "unhex (telemetry_hex32 (active_base s)) = active_base s"
    using work(1,2) by (simp_all add: unhex_hex32)
  have target: "have_work s \<Longrightarrow> unhex (telemetry_hex32 (drop 188 (active_template s))) = take 32 (drop 188 (active_template s))"
    using work(3) by (intro unhex_hex32) auto
  have digits: "plain_text (replicate 64 0x30)" by (simp add: plain_text_def)
  have cut64: "cut 64 (Some (telemetry_hex32 v)) = telemetry_hex32 v" for v
    by (simp add: cut_def length_hex32)
  show ?thesis
    using work(3) ids target assms(2) digits total_hashrate_from_value [of 0 "clients s"]
    by (simp add: Let_def telemetry_tick_def publish_snapshot snapshot_of_def server_status_def cut64 session_count_value
        stn_client_session_total_hashrate_def bytes_at_def plain_hex32)
      (auto simp: cut_def split: option.splits)
qed

lemma unat_seconds: "0 \<le> k \<Longrightarrow> k < 2 ^ 64 \<Longrightarrow> unat (of_int k :: u64) = nat k"
proof -
  assume k: "0 \<le> k" "k < 2 ^ 64"
  then have eq: "(of_int k :: u64) = of_nat (nat k)" by simp
  show ?thesis unfolding eq unsigned_of_nat using k by (simp add: take_bit_nat_eq_self_iff nat_less_iff)
qed

text \<open>
  C26. The status page says what the mining server is doing: read as a JSON object, the text of the answer that is made
  from what the main loop published has exactly these members, under these names: whether the Chain answers, which
  configured server is selected (its host cut to 255 characters), whether there is work, the number of connected miners,
  their saturated total hash rate, the identifiers and the Chain target of the active work in hexadecimal digits that give them
  back, and the seconds since the start. The host is one without quotes and backslashes, which the page does not escape.
\<close>

theorem page_shows_server:
  assumes "srv_ok s" and "length (clients s) < 2 ^ 64" and "now - started_at < 2 ^ 64"
    and "\<And>e. active_chain s = Some e \<Longrightarrow> plain_text (cfg_host e)"
  shows "\<exists>page job base target.
    stn_telemetry_http_response (Some (status_of_snapshot (tel_snap (telemetry_tick s started_at now t)))) 4096 = Some page \<and>
    json_object (http_body page) = Some
      [(lit ''service'', JText (lit ''STN-Stratum'')), (lit ''status'', JText (lit ''running'')),
       (lit ''chain_connected'', JBool (chain_available s)),
       (lit ''chain_host'', JText (case active_chain s of None \<Rightarrow> [] | Some e \<Rightarrow> take 255 (cfg_host e))),
       (lit ''chain_port'', JNumber (case active_chain s of None \<Rightarrow> 0 | Some e \<Rightarrow> unat (cfg_port e))),
       (lit ''work_available'', JBool (have_work s)), (lit ''miners'', JNumber (length (clients s))),
       (lit ''hashrate'', JNumber (min (2 ^ 64 - 1) (\<Sum>c\<leftarrow>clients s. unat (hashrate c)))),
       (lit ''job_id'', JText job), (lit ''base_id'', JText base), (lit ''target'', JText target),
       (lit ''uptime_seconds'', JNumber (if started_at \<noteq> 0 \<and> started_at \<le> now then nat (now - started_at) else 0))] \<and>
    (if have_work s then unhex job = active_job_id s \<and> unhex base = active_base s \<and>
       unhex target = bytes_at (68 + STN_MINER_CHAIN_TARGET_OFFSET) 32 (active_template s)
     else job = replicate 64 0x30 \<and> base = replicate 64 0x30 \<and> target = replicate 64 0x30)"
proof -
  define n where "n = tel_snap (telemetry_tick s started_at now t)"
  define st where "st = server_status s started_at now"
  note snap = snapshot_shows_server [OF assms(1,2), of started_at now t, unfolded Let_def, folded n_def]
  have shown: "status_of_snapshot n = shown st"
    by (simp add: n_def st_def telemetry_tick_def publish_snapshot status_of_snapshot_of)
  have miners: "st_miners st < 2 ^ 64"
    using assms(2) by (simp add: st_def server_status_def Let_def session_count_value)
  have host: "sn_host n = (case active_chain s of None \<Rightarrow> [] | Some e \<Rightarrow> take 255 (cfg_host e))"
    "sn_port n = (case active_chain s of None \<Rightarrow> 0 | Some e \<Rightarrow> cfg_port e)"
    using snap by (auto split: option.splits)
  have "plain_text (sn_host n)"
    using assms(4) by (auto simp: host plain_text_def split: option.split dest: in_set_takeD)
  then have object: "json_object (status_text (status_of_snapshot n)) = Some (status_members (status_of_snapshot n))"
    using snap by (intro status_object) (simp_all add: status_of_snapshot_def)
  have "unat (sn_uptime n) = (if started_at \<noteq> 0 \<and> started_at \<le> now then nat (now - started_at) else 0)"
    using assms(3) snap unat_seconds [of "now - started_at"] by (simp del: of_int_diff)
  moreover have "http_body (response_head k @ status_text (shown st)) = status_text (status_of_snapshot n)" for k
    by (simp add: http_body_response shown)
  ultimately show ?thesis
    using snap http_response_shown [OF miners] object
    unfolding n_def [symmetric] shown
    by (intro exI [of _ "response_head (length (status_text (shown st))) @ status_text (shown st)"]
        exI [of _ "sn_job n"] exI [of _ "sn_base n"] exI [of _ "sn_target n"])
      (simp add: status_members_def shown [symmetric] host status_of_snapshot_def split: option.split)
qed

theorem page_shows_server_witness:
  "\<exists>page job. stn_telemetry_http_response (Some (status_of_snapshot (tel_snap
      (telemetry_tick (sample_server None) 5 9 (stn_telemetry_service_init 18476 [] []))))) 4096 = Some page \<and>
    unhex job = replicate 32 2 \<and>
    (\<exists>ms. json_object (http_body page) = Some ms \<and> map_of ms (lit ''miners'') = Some (JNumber 1) \<and>
      map_of ms (lit ''job_id'') = Some (JText job) \<and> map_of ms (lit ''uptime_seconds'') = Some (JNumber 4))"
proof -
  have host: "plain_text (cfg_host e)" if "active_chain (sample_server None) = Some e" for e
    using that by (auto simp: active_chain_def sample_config_def plain_text_def split: if_splits)
  have clients: "length (clients (sample_server None)) < 2 ^ 64" by simp
  note page_shows_server [OF sample_server_ok [of "sample_ops None" "()"] clients _ host,
      where started_at = 5 and now = 9 and t = "stn_telemetry_service_init 18476 [] []"]
  then obtain page job base target where
    "stn_telemetry_http_response (Some (status_of_snapshot (tel_snap
      (telemetry_tick (sample_server None) 5 9 (stn_telemetry_service_init 18476 [] []))))) 4096 = Some page"
    "unhex job = replicate 32 2"
    "\<exists>ms. json_object (http_body page) = Some ms \<and> map_of ms (lit ''miners'') = Some (JNumber 1) \<and>
      map_of ms (lit ''job_id'') = Some (JText job) \<and> map_of ms (lit ''uptime_seconds'') = Some (JNumber 4)"
    by (auto simp: lit_def)
  then show ?thesis by blast
qed

text \<open>
  C40. The page copies the host of the configuration as it is. A quote in it, which the
  configuration can hold because its parser reads an escaped quote as one, ends the string of
  \<open>chain_host\<close> early: reading the string at that place by the rules of the configuration's own parser
  gives only what stands before the quote, and leaves the rest of the host to be read as JSON.
\<close>

theorem host_breaks_page:
  assumes "st_host st = Some (a @ 0x22 # b)" and "0x22 \<notin> set a" and "0x5c \<notin> set a"
  shows "\<exists>before after. status_text st = before @ lit ''\"chain_host\":\"'' @ (a @ 0x22 # b) @ after \<and>
    scan_string ((a @ 0x22 # b) @ after) = Some (length a, a, b @ after)"
proof -
  have scan: "scan_string (a @ 0x22 # r) = Some (length a, a, r)" for r
    using assms(2,3) by (induction a) auto
  have "\<exists>before after. status_text st = before @ lit '',\"chain_host\":\"'' @ the (st_host st) @ after"
    unfolding status_text_def by (metis append.assoc)
  then obtain before after where page: "status_text st = before @ lit '',\"chain_host\":\"'' @ (a @ 0x22 # b) @ after"
    using assms(1) by auto
  have "lit '',\"chain_host\":\"'' = [0x2c] @ lit ''\"chain_host\":\"''" by (simp add: lit_def)
  then have "status_text st = (before @ [0x2c]) @ lit ''\"chain_host\":\"'' @ (a @ 0x22 # b) @ after"
    using page by simp
  moreover have "scan_string ((a @ 0x22 # b) @ after) = Some (length a, a, b @ after)"
    using scan [of "b @ after"] by simp
  ultimately show ?thesis by blast
qed

text \<open>The configuration of the sample file, on the page.\<close>

theorem host_breaks_page_witness:
  "\<exists>e. stn_chain_config_load (Some []) (Some sample_env) sample_mem = (True, Some [e], sample_mem\<lparr>cm_live := 2\<rparr>) \<and>
    (\<exists>before after. status_text (sample_status\<lparr>st_host := Some (cfg_host e)\<rparr>) =
        before @ lit ''\"chain_host\":\"'' @ ([0x61] @ 0x22 # []) @ after \<and>
      scan_string (([0x61] @ 0x22 # []) @ after) = Some (length [0x61 :: byte], [0x61], [] @ after))"
proof -
  have "\<exists>before after. status_text (sample_status\<lparr>st_host := Some [0x61, 0x22]\<rparr>) =
        before @ lit ''\"chain_host\":\"'' @ ([0x61] @ 0x22 # []) @ after \<and>
      scan_string (([0x61] @ 0x22 # []) @ after) = Some (length [0x61 :: byte], [0x61], [] @ after)"
    by (rule host_breaks_page) simp_all
  then show ?thesis using sample_load by (intro exI [of _ "\<lparr>cfg_host = [0x61, 0x22], cfg_port = 80\<rparr>"]) simp
qed

section \<open>How starting ends\<close>

abbreviation (input) "listening s fd1 fd2 \<equiv> ls_socket (pool_listener s) = fd1 \<and> ls_socket (solo_listener s) = fd2"

lemmas start_defs = server_start_def Let_def chain_transport_select_def clear_work_def clear_client_jobs_def
  active_chain_def listeners_open_def listeners_close_def stn_stratum_server_init_def stn_mining_listener_open_def
  stn_mining_listener_init_def stn_mining_listener_close_def

text \<open>
  The descriptors that \<^verbatim>\<open>socket\<close> returns to a start that comes to its listeners: the second listener is tried when the first
  one is open, the telemetry listener when both are.
\<close>

definition opens :: "open_env \<Rightarrow> bool" where
  "opens e \<longleftrightarrow> oe_socket e \<noteq> STN_INVALID_SOCKET \<and> oe_setsockopt e \<and> oe_bind e \<and> oe_listen e \<and> oe_getfl e \<and> oe_setfl e"

definition start_sockets :: "u16 \<Rightarrow> open_env \<Rightarrow> open_env \<Rightarrow> open_env \<Rightarrow> int multiset" where
  "start_sockets port e1 e2 e3 =
     socket_fds (oe_socket e1) +
     (if opens e1 then socket_fds (oe_socket e2) +
        (if opens e2 \<and> port \<noteq> 0 then socket_fds (oe_socket e3) else {#}) else {#})"

lemma server_start_fail:
  assumes "\<not> fst (server_start True (Some cfg) e1 e2 True (stn_stratum_server_init tops u rmem mem pool solo))"
    and "snd (server_start True (Some cfg) e1 e2 True (stn_stratum_server_init tops u rmem mem pool solo)) = s"
  shows "chain_config s = cfg \<and> listening s STN_INVALID_SOCKET STN_INVALID_SOCKET \<and> clients s = []"
  using assms by (auto simp: start_defs split: if_splits)

lemma server_start_reached:
  assumes "fst (server_start True (Some cfg) e1 e2 True (stn_stratum_server_init tops u rmem mem pool solo))"
    and "server_start True (Some cfg) e1 e2 ok (stn_stratum_server_init tops u rmem mem pool solo) = (started, s)"
  shows "started = ok \<and> chain_config s = cfg \<and> clients s = [] \<and>
    (if ok then listening s (oe_socket e1) (oe_socket e2) \<and> active_chain s = Some (hd cfg)
     else listening s STN_INVALID_SOCKET STN_INVALID_SOCKET)"
  using assms by (auto simp: start_defs hd_conv_nth split: if_splits)

lemma telemetry_open_outcome:
  assumes "stn_telemetry_service_open e3 thread_ok (stn_telemetry_service_init port accepts tmem) = (ok, t)"
  shows "if ok then tel_started t \<and> tel_running t \<and> tel_listen t = oe_socket e3
    else \<not> tel_started t \<and> \<not> tel_running t \<and> tel_listen t = STN_INVALID_SOCKET"
  using assms
  by (auto simp: stn_telemetry_service_open_def stn_telemetry_service_init_def Let_def tel_close_fd_def split: if_splits)

lemma program_start_outcome_aux:
  assumes "program_start log_ok file e1 e2 e3 thread_ok (stn_stratum_server_init tops u rmem mem pool solo)
      (stn_telemetry_service_init port accepts tmem) m = (started, s, t, m')"
  shows "cm_live m' = cm_live m + owns (chain_config s) \<and> cm_files m' = cm_files m \<and> clients s = [] \<and>
    (if started then
       log_ok \<and> chain_config s \<noteq> [] \<and> list_all entry_ok (chain_config s) \<and> active_chain s = Some (hd (chain_config s)) \<and>
       listening s (oe_socket e1) (oe_socket e2) \<and> tel_started t \<and> tel_running t \<and> tel_listen t = oe_socket e3
     else listening s STN_INVALID_SOCKET STN_INVALID_SOCKET \<and> \<not> tel_started t \<and> \<not> tel_running t \<and>
       tel_listen t = STN_INVALID_SOCKET)"
proof -
  let ?i = "stn_stratum_server_init tops u rmem mem pool solo"
  let ?t = "stn_telemetry_service_init port accepts tmem"
  have i: "chain_config ?i = []" "listening ?i STN_INVALID_SOCKET STN_INVALID_SOCKET" "clients ?i = []"
    by (simp_all add: stn_stratum_server_init_def stn_mining_listener_init_def)
  have t: "\<not> tel_started ?t \<and> \<not> tel_running ?t \<and> tel_listen ?t = STN_INVALID_SOCKET"
    by (simp add: stn_telemetry_service_init_def)
  show ?thesis
  proof (cases log_ok)
    case False
    then show ?thesis using assms i t by (simp add: program_start_def owns_def)
  next
    case True
    obtain loaded cfg' m1 where load: "stn_chain_config_load (Some []) (Some file) m = (loaded, cfg', m1)"
      by (rule prod_cases3)
    from config_load_post [OF load] obtain cfg where
      cfg: "cfg' = Some cfg" "balance m m1 (owns cfg)" "if loaded then cfg \<noteq> [] \<and> list_all entry_ok cfg else cfg = []"
      by (auto simp: owns_def)
    show ?thesis
    proof (cases loaded)
      case False
      then show ?thesis using assms i t True load cfg by (auto simp: program_start_def balance_def)
    next
      case got: True
      show ?thesis
      proof (cases "fst (server_start True (Some cfg) e1 e2 True ?i)")
        case False
        then have "started = False" "s = snd (server_start True (Some cfg) e1 e2 True ?i)" "t = ?t" "m' = m1"
          using assms i(1) True load cfg(1) got by (simp_all add: program_start_def)
        then show ?thesis
          using server_start_fail [OF False] t cfg(2) by (simp add: balance_def)
      next
        case reached: True
        obtain ok t1 where tel: "stn_telemetry_service_open e3 thread_ok ?t = (ok, t1)" by fastforce
        obtain st s1 where srv: "server_start True (Some cfg) e1 e2 ok ?i = (st, s1)" by fastforce
        have "started = st" "s = s1" "t = t1" "m' = m1"
          using assms i(1) True load cfg(1) got reached tel srv by (simp_all add: program_start_def)
        then show ?thesis
          using server_start_reached [OF reached srv] telemetry_open_outcome [OF tel] cfg(2,3) True got
          by (auto simp: balance_def split: if_splits)
      qed
    qed
  qed
qed

lemma listeners_open_fds:
  assumes "- 1 \<le> oe_socket e1" "- 1 \<le> oe_socket e2" "listeners_open e1 e2 s = (ok, s')"
  shows "ok = (opens e1 \<and> opens e2) \<and>
    mset (closed_fds s') + socket_fds (ls_socket (pool_listener s')) + socket_fds (ls_socket (solo_listener s')) =
    mset (closed_fds s) + start_sockets 0 e1 e2 e3"
  using assms
  by (auto simp: listeners_open_def stn_mining_listener_open_def stn_mining_listener_init_def stn_mining_listener_close_def
      stn_mining_socket_close_def opens_def socket_fds_def start_sockets_def Let_def split: if_splits)

lemma listeners_close_fds:
  "mset (closed_fds (listeners_close s)) =
   mset (closed_fds s) + socket_fds (ls_socket (pool_listener s)) + socket_fds (ls_socket (solo_listener s))"
  by (simp add: listeners_close_def stn_mining_listener_close_def stn_mining_socket_close_def socket_fds_def)

lemma listeners_close_gone:
  "ls_socket (pool_listener (listeners_close s)) = STN_INVALID_SOCKET"
  "ls_socket (solo_listener (listeners_close s)) = STN_INVALID_SOCKET"
  by (simp_all add: listeners_close_def stn_mining_listener_close_def)

lemma server_start_fds:
  assumes "- 1 \<le> oe_socket e1" "- 1 \<le> oe_socket e2" "cfg \<noteq> []"
    and "server_start True (Some cfg) e1 e2 ok (stn_stratum_server_init tops u rmem mem pool solo) = (started, s)"
  shows "started = (opens e1 \<and> opens e2 \<and> ok) \<and>
    mset (closed_fds s) + socket_fds (ls_socket (pool_listener s)) + socket_fds (ls_socket (solo_listener s)) =
    start_sockets 0 e1 e2 e3"
proof -
  let ?i = "(stn_stratum_server_init tops u rmem mem pool solo)\<lparr>chain_config := cfg, active_chain_server := 0\<rparr>"
  obtain sel x where sel: "chain_transport_select ?i 0 = (sel, x)" by fastforce
  then obtain e where x: sel "closed_fds x = []" "active_chain x = Some e"
    using assms(3) by (auto simp: chain_transport_select_def clear_work_def clear_client_jobs_def Let_def
        stn_stratum_server_init_def active_chain_def)
  obtain opened y where y: "listeners_open e1 e2 x = (opened, y)" by fastforce
  have s: "(started, s) = (if \<not> opened then (False, y) else if \<not> ok then (False, listeners_close y) else (True, y))"
    using assms(3,4) sel x y by (simp add: server_start_def stn_stratum_server_init_def Let_def)
  then show ?thesis
    using listeners_open_fds [OF assms(1,2) y, of e3] x(2)
    by (auto simp: listeners_close_fds listeners_close_gone socket_fds_def split: if_splits)
qed

lemma telemetry_open_fds:
  assumes "stn_telemetry_service_open e3 thread_ok (stn_telemetry_service_init port accepts tmem) = (ok, t)"
  shows "ok = (port \<noteq> 0 \<and> opens e3 \<and> thread_ok) \<and>
    mset (tel_closed t) + socket_fds (tel_listen t) = (if port \<noteq> 0 then socket_fds (oe_socket e3) else {#})"
  using assms
  by (auto simp: stn_telemetry_service_open_def stn_telemetry_service_init_def opens_def socket_fds_def tel_close_fd_def Let_def
      split: if_splits)

lemma start_sockets_parts:
  "start_sockets port e1 e2 e3 =
     start_sockets 0 e1 e2 e3 + (if opens e1 \<and> opens e2 \<and> port \<noteq> 0 then socket_fds (oe_socket e3) else {#})"
  by (simp add: start_sockets_def)

lemma program_start_fds:
  assumes "- 1 \<le> oe_socket e1" "- 1 \<le> oe_socket e2"
    and "program_start log_ok file e1 e2 e3 thread_ok (stn_stratum_server_init tops u rmem mem pool solo)
      (stn_telemetry_service_init port accepts tmem) m = (started, s, t, m')"
  shows "mset (closed_fds s) + socket_fds (ls_socket (pool_listener s)) + socket_fds (ls_socket (solo_listener s)) +
      (mset (tel_closed t) + socket_fds (tel_listen t)) =
    (if log_ok \<and> fst (stn_chain_config_load (Some []) (Some file) m) then start_sockets port e1 e2 e3 else {#})"
proof -
  let ?i = "stn_stratum_server_init tops u rmem mem pool solo"
  let ?t = "stn_telemetry_service_init port accepts tmem"
  have i: "chain_config ?i = []" "closed_fds ?i = []" "ls_socket (pool_listener ?i) = STN_INVALID_SOCKET"
    "ls_socket (solo_listener ?i) = STN_INVALID_SOCKET" "tel_closed ?t = []" "tel_listen ?t = STN_INVALID_SOCKET"
    by (simp_all add: stn_stratum_server_init_def stn_mining_listener_init_def stn_telemetry_service_init_def)
  obtain loaded cfg m1 where load: "stn_chain_config_load (Some []) (Some file) m = (loaded, cfg, m1)"
    by (rule prod_cases3)
  show ?thesis
  proof (cases "log_ok \<and> loaded")
    case False
    then have "s = ?i \<and> t = ?t" using assms(3) i(1) load by (cases log_ok) (simp_all add: program_start_def)
    then show ?thesis using False load i(2-6) by (auto simp: socket_fds_def)
  next
    case True
    from config_load_post [OF load] True obtain c where c: "cfg = Some c" "c \<noteq> []" by auto
    obtain st1 s1 where one: "server_start True (Some c) e1 e2 True ?i = (st1, s1)" by fastforce
    note fds1 = server_start_fds [OF assms(1,2) c(2) one, of e3]
    show ?thesis
    proof (cases st1)
      case False
      then have "s = s1" "t = ?t" using assms(3) i(1) load c one True by (auto simp: program_start_def)
      then show ?thesis using False fds1 True load i(5,6)
        by (auto simp: start_sockets_parts [of port] socket_fds_def)
    next
      case st1: True
      obtain ok t1 where tel: "stn_telemetry_service_open e3 thread_ok ?t = (ok, t1)" by fastforce
      obtain st2 s2 where two: "server_start True (Some c) e1 e2 ok ?i = (st2, s2)" by fastforce
      have "s = s2" "t = t1" using assms(3) i(1) load c one True st1 tel two by (auto simp: program_start_def)
      then show ?thesis
        using st1 fds1 server_start_fds [OF assms(1,2) c(2) two, of e3] telemetry_open_fds [OF tel] True load
        by (simp add: start_sockets_parts [of port])
    qed
  qed
qed
lemma program_start_opens:
  assumes "- 1 \<le> oe_socket e1" "- 1 \<le> oe_socket e2"
    and "program_start log_ok file e1 e2 e3 thread_ok (stn_stratum_server_init tops u rmem mem pool solo)
      (stn_telemetry_service_init port accepts tmem) m = (started, s, t, m')"
    and started
  shows "opens e1 \<and> opens e2 \<and> opens e3"
proof -
  let ?i = "stn_stratum_server_init tops u rmem mem pool solo"
  let ?t = "stn_telemetry_service_init port accepts tmem"
  obtain loaded cfg m1 where load: "stn_chain_config_load (Some (chain_config ?i)) (Some file) m = (loaded, cfg, m1)"
    by (rule prod_cases3)
  obtain ok t1 where tel: "stn_telemetry_service_open e3 thread_ok ?t = (ok, t1)" by fastforce
  obtain st s1 where srv: "server_start True cfg e1 e2 ok ?i = (st, s1)" by fastforce
  have st: st "cfg \<noteq> None"
    using assms(3,4) srv by (auto simp: program_start_def load tel server_start_def split: if_splits option.splits)
  then obtain c where "cfg = Some c" by blast
  moreover have "c \<noteq> []" using st(1) srv calculation by (auto simp: server_start_def)
  ultimately show ?thesis
    using server_start_fds [OF assms(1,2), of c ok tops u rmem mem pool solo st s1] srv st(1) telemetry_open_fds [OF tel]
    by auto
qed

text \<open>
  C30. Starting the program ends in one of two ways, whatever fails. Either the log
  opened, at least one usable Chain server was loaded, the first one is selected, both mining sockets
  listen and the telemetry worker runs; or nothing is left behind but what \<open>stn_stratum_server_close\<close>
  releases: no socket listens, no worker runs. In both cases every block that loading the configuration
  allocated is owned by the server's configuration, and no file stays open. No descriptor is lost: those that
  \<^verbatim>\<open>socket\<close> returned, for the first listener, for the second one if the first is open, for the telemetry listener if
  both are, are the ones that are closed, each once, and after a start that succeeds the three that listen.
\<close>

theorem program_start_outcome:
  assumes "program_start log_ok file e1 e2 e3 thread_ok (stn_stratum_server_init tops u rmem mem pool solo)
      (stn_telemetry_service_init port accepts tmem) m = (started, s, t, m')"
  shows "cm_live m' = cm_live m + owns (chain_config s) \<and> cm_files m' = cm_files m \<and> clients s = [] \<and>
    (if started then
       log_ok \<and> chain_config s \<noteq> [] \<and> list_all entry_ok (chain_config s) \<and> active_chain s = Some (hd (chain_config s)) \<and>
       listening s (oe_socket e1) (oe_socket e2) \<and> tel_started t \<and> tel_running t \<and> tel_listen t = oe_socket e3
     else listening s STN_INVALID_SOCKET STN_INVALID_SOCKET \<and> \<not> tel_started t \<and> \<not> tel_running t \<and>
       tel_listen t = STN_INVALID_SOCKET) \<and>
    (- 1 \<le> oe_socket e1 \<and> - 1 \<le> oe_socket e2 \<longrightarrow>
       mset (closed_fds s) + mset (tel_closed t) +
         (if started then {#oe_socket e1, oe_socket e2, oe_socket e3#} else {#}) =
       (if log_ok \<and> fst (stn_chain_config_load (Some []) (Some file) m) then start_sockets port e1 e2 e3 else {#}))"
proof -
  note outcome = program_start_outcome_aux [OF assms]
  have "mset (closed_fds s) + mset (tel_closed t) +
         (if started then {#oe_socket e1, oe_socket e2, oe_socket e3#} else {#}) =
       (if log_ok \<and> fst (stn_chain_config_load (Some []) (Some file) m) then start_sockets port e1 e2 e3 else {#})"
    if "- 1 \<le> oe_socket e1" "- 1 \<le> oe_socket e2"
    using program_start_fds [OF that assms] program_start_opens [OF that assms] outcome
    by (auto simp: socket_fds_def opens_def add_mset_commute split: if_splits)
  then show ?thesis using outcome by blast
qed

text \<open>The thread of the telemetry service cannot be created: its socket and both listeners are closed.\<close>

theorem program_start_outcome_witness:
  "\<exists>s t m'. program_start True sample_env sample_tel_open sample_tel_open sample_tel_open False
      (stn_stratum_server_init (sample_ops None) () [] [] [] []) (stn_telemetry_service_init 18476 [] []) sample_mem =
      (False, s, t, m') \<and> cm_live m' = 2 \<and>
    mset (closed_fds s) + mset (tel_closed t) = {#oe_socket sample_tel_open, oe_socket sample_tel_open, oe_socket sample_tel_open#}"
proof -
  let ?p = "program_start True sample_env sample_tel_open sample_tel_open sample_tel_open False
      (stn_stratum_server_init (sample_ops None) () [] [] [] []) (stn_telemetry_service_init 18476 [] []) sample_mem"
  have load: "stn_chain_config_load (Some (chain_config (stn_stratum_server_init (sample_ops None) () [] [] [] [])))
      (Some sample_env) sample_mem = (True, Some [\<lparr>cfg_host = [0x61, 0x22], cfg_port = 80\<rparr>], sample_mem\<lparr>cm_live := 2\<rparr>)"
    using sample_load by (simp add: stn_stratum_server_init_def)
  have "chain_config (fst (snd ?p)) = [\<lparr>cfg_host = [0x61, 0x22], cfg_port = 80\<rparr>]" "\<not> fst ?p"
    unfolding program_start_def load
    by (simp_all add: start_defs sample_tel_open_def stn_telemetry_service_open_def stn_telemetry_service_init_def tel_close_fd_def)
  moreover obtain started s t m' where p: "?p = (started, s, t, m')" by (metis prod.collapse)
  ultimately have "\<not> started" "chain_config s = [\<lparr>cfg_host = [0x61, 0x22], cfg_port = 80\<rparr>]" by simp_all
  moreover have "fst (stn_chain_config_load (Some []) (Some sample_env) sample_mem)"
    using load by (simp add: stn_stratum_server_init_def)
  ultimately show ?thesis
    using program_start_outcome [OF p] p
    by (intro exI [of _ s] exI [of _ t] exI [of _ m'])
      (simp add: owns_def sample_mem_def start_sockets_def opens_def sample_tel_open_def socket_fds_def)
qed

end
