(* ===== verification/Server_Log.thy ===== *)
theory Server_Log
  imports Server_Status
begin

text \<open>
  Logging, time stamps and sleeping: \<^verbatim>\<open>log_open\<close>, \<^verbatim>\<open>log_line\<close>, \<^verbatim>\<open>log_close\<close>, \<^verbatim>\<open>timestamp_utc\<close>, \<^verbatim>\<open>hex8\<close> and the two
  sleeps of \<^verbatim>\<open>stn_stratum_server.c\<close> and \<^verbatim>\<open>stn_telemetry.c\<close>. Nothing of it is read by the rest of the
  program, so the other theories leave it out; only \<open>Program_Main\<close> opens and closes the log.
\<close>

section \<open>Time stamps\<close>

text \<open>What \<^verbatim>\<open>gmtime\<close> returns: year, month, day, hour, minute and second, or a failure.\<close>

record utc_time =
  tm_year :: nat
  tm_mon :: nat
  tm_day :: nat
  tm_hour :: nat
  tm_min :: nat
  tm_sec :: nat

definition two_digits :: "nat \<Rightarrow> bytes" where
  "two_digits n = [of_nat (48 + n div 10 mod 10), of_nat (48 + n mod 10)]"

definition timestamp_utc :: "utc_time option \<Rightarrow> bytes" where
  "timestamp_utc value =
     (case value of
        None \<Rightarrow> lit ''0000-00-00T00:00:00Z''
      | Some t \<Rightarrow> decimal (tm_year t) @ lit ''-'' @ two_digits (tm_mon t) @ lit ''-'' @ two_digits (tm_day t) @ lit ''T'' @
          two_digits (tm_hour t) @ lit '':'' @ two_digits (tm_min t) @ lit '':'' @ two_digits (tm_sec t) @ lit ''Z'')"

lemma decimal_length: "10 ^ k \<le> n \<Longrightarrow> k < length (decimal n)"
proof (rule ccontr)
  assume "10 ^ k \<le> n" "\<not> k < length (decimal n)"
  have "decimal_value xs < 10 ^ length xs" if "\<forall>c \<in> set xs. 48 \<le> c \<and> c \<le> 57" for xs
    using that
  proof (induction xs rule: rev_induct)
    case (snoc c xs)
    have "48 \<le> c" "unat c \<le> 57" using snoc.prems by (simp_all add: word_le_nat_alt)
    then have "unat (c - 48) \<le> 9" by (simp add: unat_sub)
    then show ?case using snoc by (simp add: decimal_value_append)
  qed simp
  then have "n < 10 ^ length (decimal n)" using decimal_digits [of _ n] decimal_value_decimal [of n] by metis
  also have "\<dots> \<le> 10 ^ k" using \<open>\<not> k < length (decimal n)\<close> by (simp add: power_increasing)
  finally show False using \<open>10 ^ k \<le> n\<close> by simp
qed

text \<open>In the years 1000 to 9999 a stamp has 20 bytes, so it fits its buffer of 32, and no line break.\<close>

lemma timestamp_length:
  assumes "\<And>t. now = Some t \<Longrightarrow> 1000 \<le> tm_year t \<and> tm_year t \<le> 9999"
  shows "length (timestamp_utc now) = 20"
proof (cases now)
  case (Some t)
  then have "length (decimal (tm_year t)) = 4"
    using assms [OF Some] decimal_length [of 3 "tm_year t"] length_decimal [of "tm_year t" 4] by simp
  then show ?thesis by (simp add: timestamp_utc_def Some two_digits_def)
qed (simp add: timestamp_utc_def)

section \<open>The log\<close>

text \<open>
  The console, the content of the log file, whether \<^verbatim>\<open>log_file\<close> is set, and, for the theorems, the
  descriptors that the log has opened and not closed.
\<close>

record log_state =
  lg_console :: bytes
  lg_content :: bytes
  lg_file :: bool
  lg_handles :: nat

definition log_open :: "bool \<Rightarrow> log_state \<Rightarrow> bool \<times> log_state" where
  "log_open fopen_ok l =
     (if \<not> fopen_ok then (False, l\<lparr>lg_file := False\<rparr>)
      else (True, l\<lparr>lg_file := True, lg_handles := lg_handles l + 1\<rparr>))"

text \<open>On Windows the directory is made first, and the file is opened in two steps.\<close>

datatype make_dir = Dir_Made | Dir_Exists | Dir_Failed

definition win_log_open :: "make_dir \<Rightarrow> bool \<Rightarrow> bool \<Rightarrow> log_state \<Rightarrow> bool \<times> log_state" where
  "win_log_open dir sopen_ok fdopen_ok l =
     (if dir = Dir_Failed then (False, l)
      else if \<not> sopen_ok then (False, l)
      else
        (let l = l\<lparr>lg_handles := lg_handles l + 1\<rparr> in
         if \<not> fdopen_ok then (False, l\<lparr>lg_handles := lg_handles l - 1\<rparr>)
         else (True, l\<lparr>lg_file := True\<rparr>)))"

definition log_close :: "log_state \<Rightarrow> log_state" where
  "log_close l = (if lg_file l then l\<lparr>lg_file := False, lg_handles := lg_handles l - 1\<rparr> else l)"

text \<open>A line with its time stamp and the text that its format produces.\<close>

definition log_entry :: "utc_time option \<Rightarrow> bytes \<Rightarrow> bytes" where
  "log_entry now message = lit ''['' @ timestamp_utc now @ lit ''] '' @ message @ [10]"

definition log_line :: "utc_time option \<Rightarrow> bytes \<Rightarrow> log_state \<Rightarrow> log_state" where
  "log_line now message l =
     (let l = l\<lparr>lg_console := lg_console l @ log_entry now message\<rparr> in
      if lg_file l then l\<lparr>lg_content := lg_content l @ log_entry now message\<rparr> else l)"

fun log_lines :: "(utc_time option \<times> bytes) list \<Rightarrow> log_state \<Rightarrow> log_state" where
  "log_lines [] l = l"
| "log_lines ((now, message) # es) l = log_lines es (log_line now message l)"

lemma log_lines_spec:
  "log_lines es l = l\<lparr>lg_console := lg_console l @ concat (map (\<lambda>(now, m). log_entry now m) es),
     lg_content := (if lg_file l then lg_content l @ concat (map (\<lambda>(now, m). log_entry now m) es) else lg_content l)\<rparr>"
  by (induction es l rule: log_lines.induct) (auto simp: log_line_def Let_def)

text \<open>
  Whatever is logged between opening and closing, the log file gets whole lines in order, exactly those
  that the console gets, and no descriptor of the log stays open, on either platform and on every failure.
\<close>

theorem log_session:
  assumes "log_open ok l = (started, l1) \<or> win_log_open dir ok ok2 l = (started, l1)" and "\<not> lg_file l"
    and "l2 = log_close (log_lines es l1)"
  shows "lg_handles l2 = lg_handles l \<and> \<not> lg_file l2 \<and>
    lg_console l2 = lg_console l @ concat (map (\<lambda>(now, m). log_entry now m) es) \<and>
    lg_content l2 = lg_content l @ (if started then concat (map (\<lambda>(now, m). log_entry now m) es) else [])"
  using assms by (auto simp: log_open_def win_log_open_def log_close_def log_lines_spec Let_def split: if_splits)

section \<open>Short identifiers\<close>

definition hex8 :: "bytes \<Rightarrow> bytes" where
  "hex8 value =
     concat (map (\<lambda>i. [hex_table ! unat (drop_bit 4 (value ! i) AND 0x0f), hex_table ! unat (value ! i AND 0x0f)]) [0..<8]) @ [0]"

text \<open>What the log shows of an identifier is the front of what the status page shows.\<close>

theorem hex8_front: "hex8 value = take 16 (telemetry_hex32 value) @ [0]"
proof -
  have "[0..<32] = [0..<8] @ [8..<32]" by (simp add: upt_add_eq_append [of 0 8 24, simplified])
  then show ?thesis by (simp add: hex8_def telemetry_hex32_def upt_rec)
qed

section \<open>Sleeping\<close>

text \<open>
  What \<^verbatim>\<open>nanosleep\<close> will do: sleep to the end, be interrupted with some of the request remaining, or
  fail. The loop returns what is left of the script, and how long it slept. A script that is exhausted
  sleeps to the end.
\<close>

datatype sleep_event = Sleep_Done | Sleep_Eintr nat | Sleep_Error

fun nano_sleep :: "sleep_event list \<Rightarrow> nat \<Rightarrow> sleep_event list \<times> nat" where
  "nano_sleep [] request = ([], request)"
| "nano_sleep (Sleep_Done # es) request = (es, request)"
| "nano_sleep (Sleep_Error # es) request = (es, 0)"
| "nano_sleep (Sleep_Eintr remaining # es) request =
     (case nano_sleep es remaining of (es, slept) \<Rightarrow> (es, (request - remaining) + slept))"

definition sleep_poll_interval :: "sleep_event list \<Rightarrow> sleep_event list \<times> nat" where
  "sleep_poll_interval es = nano_sleep es ((250 div 1000) * 1000000000 + (250 mod 1000) * 1000000)"

definition worker_sleep :: "sleep_event list \<Rightarrow> sleep_event list \<times> nat" where
  "worker_sleep es = nano_sleep es (25 * 1000000)"

text \<open>What remains is at most what was asked for.\<close>

fun sleeps_down :: "sleep_event list \<Rightarrow> nat \<Rightarrow> bool" where
  "sleeps_down (Sleep_Eintr remaining # es) request \<longleftrightarrow> remaining \<le> request \<and> sleeps_down es remaining"
| "sleeps_down (Sleep_Error # es) request \<longleftrightarrow> False"
| "sleeps_down _ request \<longleftrightarrow> True"

lemma nano_sleep_whole: "sleeps_down es request \<Longrightarrow> snd (nano_sleep es request) = request"
  by (induction es request rule: nano_sleep.induct) (auto split: prod.splits)

text \<open>However often a signal interrupts it, a sleep lasts as long as it was meant to.\<close>

theorem sleeps_whole:
  "sleeps_down es 250000000 \<Longrightarrow> snd (sleep_poll_interval es) = 250000000"
  "sleeps_down es 25000000 \<Longrightarrow> snd (worker_sleep es) = 25000000"
  by (simp_all add: sleep_poll_interval_def worker_sleep_def nano_sleep_whole)

end
