(* ===== verification/Windows_Server.thy ===== *)
theory Windows_Server
  imports Server_Safe
begin

text \<open>
  The branch for Windows of the mining server (\<^verbatim>\<open>src/stn_stratum_server.c\<close>, lines 18 to 1294) and of its
  listening sockets, as far as it differs from the branch for Linux. Functions with the same text in
  both branches are those of the theories before: removing a client, discarding work, selecting a
  Chain server (its transport is a parameter), the address check, HASH\_PROGRESS. A function that calls
  one that differs is repeated here with the prefix \<open>win\<close>, as the code repeats it.

  \<^verbatim>\<open>INVALID_SOCKET\<close> is \<open>- 1\<close> as on Linux. An interrupted call is an error like any other.
\<close>

section \<open>Sockets\<close>

fun win_send_all :: "send_event list \<Rightarrow> bytes \<Rightarrow> bool \<times> send_event list \<times> bytes" where
  "win_send_all es [] = (True, es, [])"
| "win_send_all [] p = (True, [], p)"
| "win_send_all (Send_Eintr # es) p = (False, es, [])"
| "win_send_all (Send_Fail # es) p = (False, es, [])"
| "win_send_all (Send_Some k # es) p =
     (if k = 0 then (False, es, [])
      else
        (let sent = min k (length p) in
         case win_send_all es (drop sent p) of (ok, es', out) \<Rightarrow> (ok, es', take sent p @ out)))"

definition win_sess_send :: "session \<Rightarrow> bytes \<Rightarrow> bool \<times> session" where
  "win_sess_send c p =
     (case win_send_all (sess_sends c) p of
        (ok, sends, out) \<Rightarrow> (ok, c\<lparr>sess_sends := sends, sess_out := sess_out c @ out\<rparr>))"

definition win_mining_listener_open :: "open_env \<Rightarrow> listener \<Rightarrow> bool \<times> listener \<times> int list" where
  "win_mining_listener_open e l =
     (if ls_port l = 0 then (False, l, [])
      else
        (let socket_fd = oe_socket e in
         if socket_fd = STN_INVALID_SOCKET then (False, l, [])
         else if \<not> oe_setsockopt e then (False, l, stn_mining_socket_close socket_fd)
         else if \<not> oe_bind e \<or> \<not> oe_listen e \<or> \<not> oe_setfl e then (False, l, stn_mining_socket_close socket_fd)
         else (True, l\<lparr>ls_socket := socket_fd\<rparr>, [])))"

fun win_accept_once :: "accept_event list \<Rightarrow> int \<times> conn option \<times> accept_event list \<times> int list" where
  "win_accept_once [] = (0, None, [], [])"
| "win_accept_once (Accept_Again # es) = (0, None, es, [])"
| "win_accept_once (Accept_Eintr # es) = (- 1, None, es, [])"
| "win_accept_once (Accept_Fail # es) = (- 1, None, es, [])"
| "win_accept_once (Accept_Conn fd nonblocking ins sends # es) =
     (if \<not> nonblocking then (- 1, None, es, stn_mining_socket_close (int fd))
      else (1, Some (int fd, ins, sends), es, []))"

definition win_mining_listener_accept ::
  "listener \<Rightarrow> accept_event list \<Rightarrow> int \<times> conn option \<times> accept_event list \<times> int list" where
  "win_mining_listener_accept l es =
     (if ls_socket l = STN_INVALID_SOCKET then (- 1, None, es, []) else win_accept_once es)"

definition win_session_acceptor_accept ::
  "listener \<Rightarrow> accept_event list \<Rightarrow> bool list \<Rightarrow> nat \<Rightarrow>
   int \<times> session option \<times> accept_event list \<times> bool list \<times> int list" where
  "win_session_acceptor_accept l es mem cid =
     (case win_mining_listener_accept l es of
        (result, conn, es, closed) \<Rightarrow>
          (case conn of
             None \<Rightarrow> (result, None, es, mem, closed)
           | Some (socket_fd, ins, sends) \<Rightarrow>
               (let mode = stn_client_mode_init (ls_mode l) in
                if \<not> stn_client_mode_valid (Some mode)
                then (- 1, None, es, mem, closed @ stn_mining_socket_close socket_fd)
                else
                  (case alloc_next mem of (got, mem) \<Rightarrow>
                     if \<not> got then (- 1, None, es, mem, closed @ stn_mining_socket_close socket_fd)
                     else (1, Some (stn_client_session_init cid ins sends socket_fd mode), es, mem, closed)))))"

section \<open>Clients\<close>

definition win_client_send_job :: "'u server \<Rightarrow> nat \<Rightarrow> bool \<times> 'u server" where
  "win_client_send_job s cid =
     (if \<not> have_work s then (True, s)
      else
        (case client_of s cid of
           None \<Rightarrow> (False, s\<lparr>fault := True\<rparr>)
         | Some c \<Rightarrow>
           if sess_socket c = STN_INVALID_SOCKET then (False, s)
           else
             (case stn_miner_job_build (Some (active_template s)) (active_template_length s) of
                None \<Rightarrow> (False, s)
              | Some (header, block_length) \<Rightarrow>
                (case win_sess_send c header of
                   (ok, c) \<Rightarrow>
                     (case (if ok then win_sess_send c (bytes_at 68 (unat block_length) (active_template s))
                            else (False, c)) of
                        (ok, c) \<Rightarrow>
                          if \<not> ok then (False, client_remove (upd_client cid c s) cid)
                          else (True, upd_client cid
                                        (c\<lparr>sent_job_id := active_job_id s, has_job := True\<rparr>) s))))))"

definition win_client_send_result :: "'u server \<Rightarrow> nat \<Rightarrow> stn_rpc_client_code \<Rightarrow> 'u server" where
  "win_client_send_result s cid code =
     (case client_of s cid of
        None \<Rightarrow> s\<lparr>fault := True\<rparr>
      | Some c \<Rightarrow>
        if sess_socket c = STN_INVALID_SOCKET then s
        else
          (case win_sess_send c (result_frame code) of
             (ok, c) \<Rightarrow>
               if \<not> ok then client_remove (upd_client cid c s) cid else upd_client cid c s))"

lemma win_acceptor_progress:
  "win_session_acceptor_accept l es mem cid = (r, Some c, es', mem', closed) \<Longrightarrow> length es' < length es"
  by (cases es rule: win_accept_once.cases)
    (auto simp: win_session_acceptor_accept_def win_mining_listener_accept_def Let_def
      split: if_splits option.splits prod.splits)

function win_accept_from_listener ::
  "listener \<Rightarrow> accept_event list \<Rightarrow> 'u server \<Rightarrow> accept_event list \<times> 'u server" where
  "win_accept_from_listener l es s =
     (case win_session_acceptor_accept l es (srv_mem s) (next_cid s) of
        (result, client, es', mem, closed) \<Rightarrow>
          (let s = s\<lparr>srv_mem := mem, closed_fds := closed_fds s @ closed\<rparr> in
           case client of
             None \<Rightarrow> (es', s)
           | Some c \<Rightarrow> win_accept_from_listener l es' (link_client s c)))"
  by pat_completeness auto
termination
  by (relation "measure (\<lambda>(l, es, s). length es)") (auto dest!: win_acceptor_progress [OF sym])

declare win_accept_from_listener.simps [simp del]

definition win_accept_clients :: "'u server \<Rightarrow> 'u server" where
  "win_accept_clients s =
     (case win_accept_from_listener (pool_listener s) (pool_accepts s) s of
        (es, s) \<Rightarrow>
          (let s = s\<lparr>pool_accepts := es\<rparr> in
           case win_accept_from_listener (solo_listener s) (solo_accepts s) s of
             (es, s) \<Rightarrow> s\<lparr>solo_accepts := es\<rparr>))"

section \<open>SUBMIT and ADDRESS\<close>

definition win_submit_share_result :: "'u server \<Rightarrow> nat \<Rightarrow> session \<Rightarrow> u64 \<Rightarrow> 'u server" where
  "win_submit_share_result s cid c nonce =
     (case stn_rpc_client_submit_share (chain_rpc s)
             (Some (share_payload (active_job_id s) (address c) nonce (active_template s)))
             STN_RPC_CLIENT_SHARE_SIZE of
        (rpc, share_code, share_id) \<Rightarrow>
          (let s = win_client_send_result (s\<lparr>chain_rpc := rpc\<rparr>) cid share_code in
           if share_code = STN_RPC_CLIENT_STALE \<or>
              share_code = STN_RPC_CLIENT_TRANSPORT \<or>
              share_code = STN_RPC_CLIENT_UNAVAILABLE \<or>
              share_code = STN_RPC_CLIENT_PROVIDER \<or>
              share_code = STN_RPC_CLIENT_INVALID
           then clear_work s else s))"

text \<open>Unlike on Linux, the work is kept whatever the Chain answers, unless another Chain server is selected.\<close>

definition win_submit_work_result :: "'u server \<Rightarrow> nat \<Rightarrow> session \<Rightarrow> u64 \<Rightarrow> 'u server" where
  "win_submit_work_result s cid c nonce =
     (case alloc_next (srv_mem s) of
        (got, mem) \<Rightarrow>
          (let s = s\<lparr>srv_mem := mem\<rparr> in
           if \<not> got then win_client_send_result s cid STN_RPC_CLIENT_PROVIDER
           else
             (case stn_rpc_client_submit_work (chain_rpc s)
                     (Some (work_payload (active_template s) (active_template_length s) (address c) nonce))
                     (active_template_length s + STN_MINER_ADDRESS_LENGTH) 80 of
                (rpc, code, response) \<Rightarrow>
                  (let s = win_client_send_result (s\<lparr>chain_rpc := rpc\<rparr>) cid code;
                       s = (if code = STN_RPC_CLIENT_TRANSPORT then s\<lparr>chain_available := False\<rparr> else s)
                   in if code = STN_RPC_CLIENT_TRANSPORT \<or> code = STN_RPC_CLIENT_UNAVAILABLE
                      then snd (chain_transport_next s) else s))))"

definition win_process_submission :: "'u server \<Rightarrow> nat \<Rightarrow> 'u server" where
  "win_process_submission s cid =
     (case client_of s cid of
        None \<Rightarrow> s\<lparr>fault := True\<rparr>
      | Some c \<Rightarrow>
        if \<not> address_registered c then client_remove s cid
        else
          (let p = rx c in
           if \<not> mem_eq p STN_MINER_MAGIC 4 \<or> p ! 4 \<noteq> STN_MINER_VERSION \<or>
              p ! 5 \<noteq> STN_MINER_SUBMIT \<or> p ! 6 \<noteq> 0 \<or> p ! 7 \<noteq> 0
           then win_client_send_result s cid STN_RPC_CLIENT_INVALID
           else if \<not> have_work s \<or> \<not> mem_eq (drop 8 p) (active_job_id s) 32
           then win_client_send_result s cid STN_RPC_CLIENT_STALE
           else if active_template_length s < 68
           then win_client_send_result s cid STN_RPC_CLIENT_INVALID
           else
             (let block_length = read32be (active_template s) 64 in
              if unat block_length \<noteq> active_template_length s - 68 \<or>
                 unat block_length < STN_MINER_CHAIN_HEADER_SIZE
              then win_client_send_result s cid STN_RPC_CLIENT_INVALID
              else
                (let nonce = read64be p 40;
                     chain_target = bytes_at (68 + STN_MINER_CHAIN_TARGET_OFFSET) 32 (active_template s)
                 in case server_share_target_from_chain chain_target of
                      None \<Rightarrow> win_client_send_result s cid STN_RPC_CLIENT_INVALID
                    | Some share_target \<Rightarrow>
                      (case fst (stn_share_classify (Some (drop 68 (active_template s))) (unat block_length)
                                   nonce (Some share_target) (Some chain_target)) of
                         STN_SHARE_INVALID \<Rightarrow> win_client_send_result s cid STN_RPC_CLIENT_REJECTED
                       | STN_SHARE_QUALIFYING \<Rightarrow> win_submit_share_result s cid c nonce
                       | STN_SHARE_BLOCK \<Rightarrow> win_submit_work_result s cid c nonce)))))"

definition win_process_address :: "'u server \<Rightarrow> nat \<Rightarrow> 'u server" where
  "win_process_address s cid =
     (case client_of s cid of
        None \<Rightarrow> s\<lparr>fault := True\<rparr>
      | Some c \<Rightarrow>
        if address_registered c then client_remove s cid
        else if \<not> address_valid (rx c) then client_remove s cid
        else
          (let c = c\<lparr>address := bytes_at 8 STN_MINER_ADDRESS_LENGTH (rx c) @ [0], address_registered := True\<rparr>;
               s = upd_client cid c s
           in if have_work s then snd (win_client_send_job s cid) else s))"

section \<open>Reading a client\<close>

function win_rx_fill :: "nat \<Rightarrow> session \<Rightarrow> fill \<times> session" where
  "win_rx_fill want c =
     (if rx_used c < want then
        (case sock_recv (want - rx_used c) (sess_in c) of
           (r, es) \<Rightarrow>
             (let c' = c\<lparr>sess_in := es\<rparr> in
              case r of
                Got d \<Rightarrow> win_rx_fill want (c'\<lparr>rx := blit (rx_used c) d (rx c), rx_used := rx_used c + length d\<rparr>)
              | Got_Again \<Rightarrow> (Waiting, c')
              | Got_Eof \<Rightarrow> (Gone, c')
              | Got_Eintr \<Rightarrow> (Gone, c')
              | Got_Error \<Rightarrow> (Gone, c')))
      else (Filled, c))"
  by pat_completeness auto
termination
  by (relation "measure (\<lambda>(want, c). pending (sess_in c))") (auto dest!: sock_recv_Got [OF sym])

declare win_rx_fill.simps [simp del]

text \<open>How much is to be read now: the header, or the frame whose header is in the buffer.\<close>

definition win_frame_size :: "session \<Rightarrow> nat option" where
  "win_frame_size c =
     (if rx_used c < 8 then Some 8
      else if \<not> frame_header_ok (rx c) then None
      else frame_size_of (rx c ! 5))"

definition win_process_frame :: "'u server \<Rightarrow> nat \<Rightarrow> byte \<Rightarrow> 'u server" where
  "win_process_frame s cid t =
     (if t = STN_MINER_ADDRESS then win_process_address s cid
      else if t = STN_MINER_SUBMIT then win_process_submission s cid
      else process_hash_progress s cid)"

definition win_service_pass :: "'u server \<Rightarrow> nat \<Rightarrow> bool \<times> 'u server" where
  "win_service_pass s cid =
     (case client_of s cid of
        None \<Rightarrow> (False, s\<lparr>fault := True\<rparr>)
      | Some c \<Rightarrow>
        (case win_frame_size c of
           None \<Rightarrow> (False, client_remove s cid)
         | Some frame_size \<Rightarrow>
           (case win_rx_fill frame_size c of
              (r, c) \<Rightarrow>
                (let s = upd_client cid c s in
                 if r = Gone then (False, client_remove s cid)
                 else if rx_used c < frame_size then (False, s)
                 else
                   (let s = win_process_frame s cid (rx c ! 5) in
                    case client_of s cid of
                      None \<Rightarrow> (False, s)
                    | Some c \<Rightarrow> (True, upd_client cid (c\<lparr>rx_used := 0\<rparr>) s))))))"

text \<open>Every pass but the first takes at least 8 bytes from the socket; running longer is a fault.\<close>

fun win_service_loop :: "nat \<Rightarrow> 'u server \<Rightarrow> nat \<Rightarrow> 'u server" where
  "win_service_loop 0 s cid = s\<lparr>fault := True\<rparr>"
| "win_service_loop (Suc n) s cid =
     (case win_service_pass s cid of (again, s) \<Rightarrow> if again then win_service_loop n s cid else s)"

definition win_service_client :: "'u server \<Rightarrow> nat \<Rightarrow> 'u server" where
  "win_service_client s cid =
     (case client_of s cid of
        None \<Rightarrow> s\<lparr>fault := True\<rparr>
      | Some c \<Rightarrow>
        if sess_socket c = STN_INVALID_SOCKET then s
        else win_service_loop (pending (sess_in c) + 2) s cid)"

definition win_service_clients :: "'u server \<Rightarrow> 'u server" where
  "win_service_clients s = for_clients win_service_client s"

section \<open>Work\<close>

definition win_send_pending_job :: "'u server \<Rightarrow> nat \<Rightarrow> 'u server" where
  "win_send_pending_job s cid =
     (case client_of s cid of
        None \<Rightarrow> s\<lparr>fault := True\<rparr>
      | Some c \<Rightarrow>
        if have_work s \<and> address_registered c \<and>
           (\<not> has_job c \<or> \<not> mem_eq (sent_job_id c) (active_job_id s) 32)
        then snd (win_client_send_job s cid)
        else s)"

definition win_send_pending_jobs :: "'u server \<Rightarrow> 'u server" where
  "win_send_pending_jobs s = for_clients win_send_pending_job s"

definition win_refresh_work :: "'u server \<Rightarrow> 'u server" where
  "win_refresh_work s =
     (case stn_rpc_client_mining_template (chain_rpc s) STN_RPC_CLIENT_MAX_PAYLOAD of
        (rpc, code, payload) \<Rightarrow>
          (let written = length payload;
               s = s\<lparr>chain_rpc := rpc, active_template := store_template payload (active_template s)\<rparr>;
               s = s\<lparr>chain_poll_count := chain_poll_count s + 1\<rparr>
           in if code \<noteq> STN_RPC_CLIENT_OK then
                (if code = STN_RPC_CLIENT_STALE then clear_work (s\<lparr>chain_available := True\<rparr>)
                 else if code = STN_RPC_CLIENT_CAPACITY then clear_work (s\<lparr>chain_available := True\<rparr>)
                 else if code = STN_RPC_CLIENT_UNAVAILABLE then s\<lparr>chain_available := True\<rparr>
                 else if code = STN_RPC_CLIENT_TRANSPORT
                 then snd (chain_transport_next (clear_work (s\<lparr>chain_available := False\<rparr>)))
                 else clear_work (s\<lparr>chain_available := True\<rparr>))
              else if written < 68 then clear_work (s\<lparr>chain_available := False\<rparr>)
              else
                (let block_length = read32be (active_template s) 64 in
                 if unat block_length \<noteq> written - 68 then clear_work (s\<lparr>chain_available := False\<rparr>)
                 else
                   (let s = s\<lparr>chain_available := True\<rparr>;
                        changed = (\<not> have_work s \<or>
                                   \<not> mem_eq (active_base s) (active_template s) 32 \<or>
                                   \<not> mem_eq (active_job_id s) (drop 32 (active_template s)) 32);
                        s = s\<lparr>active_template_length := written\<rparr>
                    in if changed then
                         (let s = s\<lparr>active_base := take 32 (active_template s),
                                    active_job_id := bytes_at 32 32 (active_template s),
                                    have_work := True\<rparr>
                          in win_send_pending_jobs s)
                       else s))))"

section \<open>The server\<close>

text \<open>The server with the flag \<^verbatim>\<open>winsock_ready\<close> and what \<^verbatim>\<open>WSAStartup\<close> will return.\<close>

record 'u win_server =
  win_srv :: "'u server"
  winsock_ready :: bool
  wsa_results :: "bool list"

definition winsock_open :: "'u win_server \<Rightarrow> bool \<times> 'u win_server" where
  "winsock_open w =
     (if winsock_ready w then (True, w)
      else
        (case alloc_next (wsa_results w) of
           (ok, rest) \<Rightarrow>
             (let w = w\<lparr>wsa_results := rest\<rparr> in if \<not> ok then (False, w) else (True, w\<lparr>winsock_ready := True\<rparr>))))"

definition winsock_close :: "'u win_server \<Rightarrow> 'u win_server" where
  "winsock_close w = (if winsock_ready w then w\<lparr>winsock_ready := False\<rparr> else w)"

definition win_listeners_open :: "open_env \<Rightarrow> open_env \<Rightarrow> 'u win_server \<Rightarrow> bool \<times> 'u win_server" where
  "win_listeners_open e1 e2 w =
     (case winsock_open w of
        (ok, w) \<Rightarrow>
          if \<not> ok then (False, w)
          else
            (let s = (win_srv w)\<lparr>pool_listener := stn_mining_listener_init STN_SERVICE_MODE_POOL,
                       solo_listener := stn_mining_listener_init STN_SERVICE_MODE_SOLO\<rparr>
             in case win_mining_listener_open e1 (pool_listener s) of
                  (ok, l, closed) \<Rightarrow>
                    (let s = s\<lparr>pool_listener := l, closed_fds := closed_fds s @ closed\<rparr> in
                     if \<not> ok then (False, w\<lparr>win_srv := s\<rparr>)
                     else
                       (case win_mining_listener_open e2 (solo_listener s) of
                          (ok, l, closed) \<Rightarrow>
                            (let s = s\<lparr>solo_listener := l, closed_fds := closed_fds s @ closed\<rparr> in
                             if \<not> ok then
                               (case stn_mining_listener_close (pool_listener s) of
                                  (l, closed) \<Rightarrow>
                                    (False, w\<lparr>win_srv := s\<lparr>pool_listener := l, closed_fds := closed_fds s @ closed\<rparr>\<rparr>))
                             else (True, w\<lparr>win_srv := s\<rparr>))))))"

definition win_server_start ::
  "bool \<Rightarrow> config_entry list option \<Rightarrow> open_env \<Rightarrow> open_env \<Rightarrow> bool \<Rightarrow> 'u win_server \<Rightarrow> bool \<times> 'u win_server" where
  "win_server_start log_ok loaded e1 e2 telemetry_ok w =
     (if \<not> log_ok then (False, w)
      else
        (case loaded of
           None \<Rightarrow> (False, w)
         | Some cfg \<Rightarrow>
           (let s = (win_srv w)\<lparr>chain_config := cfg\<rparr> in
            if length cfg = 0 then (False, w\<lparr>win_srv := s\<rparr>)
            else
              (let s = s\<lparr>active_chain_server := 0\<rparr> in
               case chain_transport_select s 0 of
                 (ok, s) \<Rightarrow>
                   (let w = w\<lparr>win_srv := s\<rparr> in
                    if \<not> ok then (False, w)
                    else if active_chain s = None then (False, w)
                    else
                      (case win_listeners_open e1 e2 w of
                         (ok, w) \<Rightarrow>
                           if \<not> ok then (False, w)
                           else if \<not> telemetry_ok then (False, w\<lparr>win_srv := listeners_close (win_srv w)\<rparr>)
                           else (True, w)))))))"

definition win_server_tick :: "'u server \<Rightarrow> 'u server" where
  "win_server_tick s =
     (let s = win_accept_clients s;
          s = win_service_clients s;
          s = (if loop_count s mod STN_STRATUM_CHAIN_POLL_TICKS = 0 then win_refresh_work s else s);
          s = win_send_pending_jobs s
      in s\<lparr>loop_count := loop_count s + 1\<rparr>)"

definition win_server_stop :: "'u server \<Rightarrow> 'u server" where
  "win_server_stop s = s\<lparr>running := False\<rparr>"

definition win_server_close :: "'u win_server \<Rightarrow> 'u win_server" where
  "win_server_close w =
     (let s = remove_all (length (clients (win_srv w))) (win_srv w);
          s = listeners_close s;
          s = s\<lparr>chain_rpc := (chain_rpc s)\<lparr>transport_user := op_close (ops s) (transport_user (chain_rpc s))\<rparr>\<rparr>;
          w = winsock_close (w\<lparr>win_srv := s\<rparr>);
          s = (clear_work (win_srv w))\<lparr>chain_available := False\<rparr>
      in w\<lparr>win_srv := s\<lparr>chain_config := []\<rparr>\<rparr>)"

text \<open>The console handler of \<^verbatim>\<open>main.c\<close>, which runs in a thread of its own, between any two iterations.\<close>

datatype console_event = CTRL_C_EVENT | CTRL_BREAK_EVENT | CTRL_CLOSE_EVENT | CTRL_SHUTDOWN_EVENT | Other_Event

definition console_control :: "console_event \<Rightarrow> 'u server \<Rightarrow> bool \<times> 'u server" where
  "console_control event s =
     (if event = CTRL_C_EVENT \<or> event = CTRL_BREAK_EVENT \<or> event = CTRL_CLOSE_EVENT \<or> event = CTRL_SHUTDOWN_EVENT
      then (True, win_server_stop s) else (False, s))"

inductive win_step :: "'u server \<Rightarrow> 'u server \<Rightarrow> bool" where
  Win_Tick: "running s \<Longrightarrow> win_step s (win_server_tick s)"
| Win_Console: "win_step s (snd (console_control event s))"

inductive_cases win_stepE: "win_step s t"

end
