(* ===== verification/Windows_Props.thy ===== *)
theory Windows_Props
  imports Windows_Server Server_Sample
begin

text \<open>
  What the Windows branch of the server does. Its frame loop handles a frame as soon as the header is
  there: it never serves a miner. And where its handlers differ from those for Linux.
\<close>

section \<open>The buffer\<close>

text \<open>A client that has sent less than a header: nothing but the header of its buffer was ever written.\<close>

definition unserved :: "session \<Rightarrow> bool" where
  "unserved c \<longleftrightarrow> \<not> address_registered c \<and> drop 8 (rx c) = replicate 69 0 \<and> rx_used c < 8 \<and> sess_out c = []"

definition quiet :: "'u server \<Rightarrow> bool" where
  "quiet s \<longleftrightarrow> (\<forall>c \<in> set (clients s). unserved c) \<and> (\<forall>c \<in> set (released s). sess_out c = [])"

definition win_ok :: "'u server \<Rightarrow> bool" where
  "win_ok s \<longleftrightarrow> srv_ok s \<and> quiet s"

lemma unserved_init: "unserved (stn_client_session_init cid ins sends fd mode)"
  by (simp add: unserved_def stn_client_session_init_def)

lemma blit_drop: "off + length d \<le> n \<Longrightarrow> n \<le> length p \<Longrightarrow> drop n (blit off d p) = drop n p"
  by (simp add: blit_def)

lemma win_rx_fill_spec:
  assumes "win_rx_fill want c = (r, c')" "length (rx c) = 77" "want \<le> 77" "rx_used c \<le> want"
  shows "c' = c\<lparr>rx := rx c', rx_used := rx_used c', sess_in := sess_in c'\<rparr> \<and> length (rx c') = 77 \<and>
    drop want (rx c') = drop want (rx c) \<and> rx_used c' \<le> want \<and> (r = Filled \<longleftrightarrow> rx_used c' = want)"
  using assms
proof (induction want c rule: win_rx_fill.induct)
  case (1 want c)
  note unfold = win_rx_fill.simps [of want c]
  show ?case
  proof (cases "rx_used c < want")
    case False
    then show ?thesis using "1.prems" by (simp add: unfold)
  next
    case True
    obtain x es where recv: "sock_recv (want - rx_used c) (sess_in c) = (x, es)" by fastforce
    show ?thesis
    proof (cases x)
      case (Got d)
      let ?c = "c\<lparr>sess_in := es, rx := blit (rx_used c) d (rx c), rx_used := rx_used c + length d\<rparr>"
      have d: "length d \<le> want - rx_used c"
        using sock_recv_Got [OF recv [unfolded Got]] True by simp
      have run: "win_rx_fill want ?c = (r, c')"
        using "1.prems"(1) True recv Got by (simp add: unfold)
      have len: "length (rx ?c) = 77" "rx_used ?c \<le> want" using d True "1.prems"(2,3) by simp_all
      from "1.IH" [OF True recv [symmetric] refl Got] run len "1.prems"(3)
      have "c' = ?c\<lparr>rx := rx c', rx_used := rx_used c', sess_in := sess_in c'\<rparr> \<and> length (rx c') = 77 \<and>
          drop want (rx c') = drop want (rx ?c) \<and> rx_used c' \<le> want \<and> (r = Filled \<longleftrightarrow> rx_used c' = want)" by simp
      moreover have "drop want (rx ?c) = drop want (rx c)"
        using blit_drop [of "rx_used c" d want "rx c"] len(2) "1.prems"(2,3) by simp
      ultimately show ?thesis by simp
    qed (use "1.prems" True recv in \<open>auto simp: unfold\<close>)
  qed
qed

lemma address_of_zeros:
  assumes "drop 8 p = replicate 69 0"
  shows "\<not> address_valid p"
proof -
  have "take 5 (drop 8 p) = 0 # replicate 4 0" using assms by (simp add: numeral_eq_Suc)
  then show ?thesis by (simp add: address_valid_def mem_eq_def stn0_text_def)
qed

text \<open>Whatever the header says, a client that is not registered and has sent no body is removed.\<close>

lemma win_frame_removes:
  assumes "client_of s cid = Some c" "\<not> address_registered c" "drop 8 (rx c) = replicate 69 0"
  shows "win_process_frame s cid t = client_remove s cid"
  using assms address_of_zeros [OF assms(3)]
  by (simp add: win_process_frame_def win_process_address_def win_process_submission_def process_hash_progress_def)

text \<open>A turn of such a client: it waits for the rest of the header, or it is removed.\<close>

lemma win_service_client_cases:
  assumes "win_ok s" "client_of s cid = Some c"
  shows "(\<exists>c'. win_service_client s cid = upd_client cid c' s \<and> sess_id c' = cid \<and> unserved c' \<and> sess_ok s c' \<and>
      win_rx_fill 8 c = (Waiting, c')) \<or>
    (\<exists>c' r. win_service_client s cid = client_remove (upd_client cid c' s) cid \<and> sess_id c' = cid \<and> sess_ok s c' \<and>
      unserved (c'\<lparr>rx_used := 0\<rparr>) \<and> win_rx_fill 8 c = (r, c') \<and> r \<noteq> Waiting)"
proof -
  have c: "sess_ok s c" "sess_id c = cid" "cid \<in> set (ids s)" "unserved c"
    using srv_ok_client [of s cid c] assms client_of_Some [OF assms(2)] by (auto simp: win_ok_def quiet_def)
  obtain r c' where fill: "win_rx_fill 8 c = (r, c')" by fastforce
  have used: "rx_used c < 8" "length (rx c) = 77" using c(1,4) by (simp_all add: unserved_def sess_ok_def)
  note spec = win_rx_fill_spec [OF fill used(2) _ order.strict_implies_order [OF used(1)]]
  have c': "c' = c\<lparr>rx := rx c', rx_used := rx_used c', sess_in := sess_in c'\<rparr>"
    and buf: "length (rx c') = 77" "drop 8 (rx c') = replicate 69 0" "rx_used c' \<le> 8" "r = Filled \<longleftrightarrow> rx_used c' = 8"
    using spec c(4) by (auto simp: unserved_def)
  have id: "sess_id c' = cid" by (subst c') (simp add: c(2))
  have reg: "\<not> address_registered c'" by (subst c') (use c(4) in \<open>simp add: unserved_def\<close>)
  have out: "sess_out c' = []" by (subst c') (use c(4) in \<open>simp add: unserved_def\<close>)
  have ok: "sess_ok s c'" by (subst c') (use c(1) buf in \<open>simp add: sess_ok_def\<close>)
  have un: "unserved (c'\<lparr>rx_used := 0\<rparr>)" using reg out buf(2) by (simp add: unserved_def)
  have size: "win_frame_size c = Some 8" using used by (simp add: win_frame_size_def)
  have at: "client_of (upd_client cid c' s) cid = Some c'" using id c(3) by (simp add: client_of_upd)
  have open_socket: "sess_socket c \<noteq> STN_INVALID_SOCKET" using c(1) by (auto simp: sess_ok_def)
  show ?thesis
  proof (cases r)
    case Waiting
    then have "rx_used c' < 8" using buf by auto
    then have "win_service_client s cid = upd_client cid c' s"
      using assms(2) open_socket size fill Waiting
      by (simp add: win_service_client_def win_service_pass_def)
    moreover have "unserved c'" using \<open>rx_used c' < 8\<close> reg out buf(2) by (simp add: unserved_def)
    ultimately show ?thesis using id ok fill Waiting by blast
  next
    case Gone
    then have "win_service_client s cid = client_remove (upd_client cid c' s) cid"
      using assms(2) open_socket size fill by (simp add: win_service_client_def win_service_pass_def)
    then show ?thesis using id ok un fill Gone by blast
  next
    case Filled
    have "client_of (client_remove (upd_client cid c' s) cid) cid = None"
      using handled_remove [OF srv_ok_upd [of s c' cid]] assms(1) ok id
      unfolding win_ok_def by (simp add: client_of_None)  (auto simp: srv_ok_def)
    then have "win_service_client s cid = client_remove (upd_client cid c' s) cid"
      using assms(2) open_socket size fill Filled buf(4) win_frame_removes [OF at reg buf(2)]
      by (simp add: win_service_client_def win_service_pass_def)
    then show ?thesis using id ok un fill Filled by blast
  qed
qed

section \<open>Every operation keeps quiet\<close>

lemma quiet_cong: "clients t = clients s \<Longrightarrow> released t = released s \<Longrightarrow> quiet t \<longleftrightarrow> quiet s"
  by (simp add: quiet_def)

lemma released_remove:
  "client_of s cid = Some c \<Longrightarrow> \<exists>d. released (client_remove s cid) = d # released s \<and> sess_out d = sess_out c"
  by (auto simp: client_remove_def stn_session_acceptor_release_def)

lemma quiet_remove:
  assumes "quiet s" "distinct (ids s)" "sess_id c' = cid" "cid \<in> set (ids s)" "sess_out c' = []"
  shows "quiet (client_remove (upd_client cid c' s) cid)"
proof -
  have "client_of (upd_client cid c' s) cid = Some c'" using assms(3,4) by (simp add: client_of_upd)
  from released_remove [OF this] assms(5) obtain d where
    d: "released (client_remove (upd_client cid c' s) cid) = d # released (upd_client cid c' s)" "sess_out d = []" by auto
  have "clients (client_remove (upd_client cid c' s) cid) = unlink cid (clients s)"
    using assms(2,3) by (simp add: clients_remove upd_client_def unlink_upd)
  then show ?thesis
    using assms(1) d set_unlink [of cid "clients s"] by (auto simp: quiet_def upd_client_def)
qed

lemma quiet_upd: "quiet s \<Longrightarrow> unserved c' \<Longrightarrow> quiet (upd_client cid c' s)"
  using set_clients_upd [of _ cid c' s] by (auto simp: quiet_def upd_client_def)

lemma quiet_clear: "quiet s \<Longrightarrow> quiet (clear_work s)"
  by (auto simp: quiet_def clear_work_def clear_client_jobs_def unserved_def)

lemma quiet_next: "quiet s \<Longrightarrow> quiet (snd (chain_transport_next s))"
  using quiet_clear [of s]
  by (auto simp: chain_transport_next_def chain_transport_select_def Let_def intro: quiet_cong [THEN iffD1, rotated 2])

lemma win_service_client_ok:
  assumes "win_ok s" "cid \<in> set (ids s)"
  shows "win_ok (win_service_client s cid) \<and>
    (ids (win_service_client s cid) = ids s \<or> ids (win_service_client s cid) = remove1 cid (ids s))"
proof -
  from client_of_ex [OF assms(2)] obtain c where c: "client_of s cid = Some c" by blast
  show ?thesis
    using win_service_client_cases [OF assms(1) c]
  proof (elim disjE exE conjE)
    fix c'
    assume "win_service_client s cid = upd_client cid c' s" "sess_id c' = cid" "unserved c'" "sess_ok s c'"
    then show ?thesis
      using assms(1) by (simp add: win_ok_def srv_ok_upd quiet_upd)
  next
    fix c' r
    assume w: "win_service_client s cid = client_remove (upd_client cid c' s) cid" "sess_id c' = cid"
      and c': "sess_ok s c'" "unserved (c'\<lparr>rx_used := 0\<rparr>)"
    have "srv_ok (upd_client cid c' s)" using assms(1) c' w(2) by (simp add: win_ok_def srv_ok_upd)
    moreover have "quiet (client_remove (upd_client cid c' s) cid)"
      using assms w(2) c'(2) by (intro quiet_remove) (simp_all add: win_ok_def unserved_def srv_ok_distinct)
    ultimately show ?thesis using w by (simp add: win_ok_def srv_ok_remove)
  qed
qed

interpretation win_service: client_loop win_service_client win_ok
  by unfold_locales (use win_service_client_ok in \<open>auto simp: win_ok_def srv_ok_distinct\<close>)

lemma win_service_clients_ok: "win_ok s \<Longrightarrow> win_ok (win_service_clients s)"
  unfolding win_service_clients_def by (rule win_service.for_clients_inv)

text \<open>Nobody is registered, so no job is pending.\<close>

lemma pending_none:
  assumes "quiet s" "cid \<in> set (ids s)"
  shows "win_send_pending_job s cid = s" "send_pending_job s cid = s"
proof -
  from client_of_ex [OF assms(2)] obtain c where c: "client_of s cid = Some c" by blast
  then have "\<not> address_registered c" using assms(1) client_of_Some by (auto simp: quiet_def unserved_def)
  then show "win_send_pending_job s cid = s" "send_pending_job s cid = s"
    by (simp_all add: win_send_pending_job_def send_pending_job_def c)
qed

abbreviation (input) "quiet_ids s \<equiv> quiet s \<and> distinct (ids s)"

interpretation win_pending: client_loop win_send_pending_job "\<lambda>s. quiet_ids s"
  by unfold_locales (auto simp: pending_none)

interpretation lin_pending: client_loop send_pending_job "\<lambda>s. quiet_ids s"
  by unfold_locales (auto simp: pending_none)

lemma foldl_idle: "(\<And>x. x \<in> set xs \<Longrightarrow> f s x = s) \<Longrightarrow> foldl f s xs = s"
  by (induction xs) auto

lemma pending_jobs_none:
  assumes "quiet s" "distinct (ids s)"
  shows "win_send_pending_jobs s = s" "send_pending_jobs s = s"
  using assms win_pending.for_clients_foldl [of s] lin_pending.for_clients_foldl [of s]
    foldl_idle [of "ids s" win_send_pending_job s] foldl_idle [of "ids s" send_pending_job s] pending_none [OF assms(1)]
  by (simp_all add: win_send_pending_jobs_def send_pending_jobs_def)

lemma quiet_with_template: "quiet (with_template s p) \<longleftrightarrow> quiet s"
  by (rule quiet_cong) (simp_all add: with_template_def)

text \<open>So the work is refreshed as on Linux.\<close>

lemma win_refresh_work_same:
  assumes "win_ok s"
  shows "win_refresh_work s = refresh_work s"
proof -
  have same: "win_send_pending_jobs t = send_pending_jobs t" if "clients t = clients s" "released t = released s" for t
    using assms that pending_jobs_none [of t] quiet_cong [of t s] by (simp add: win_ok_def srv_ok_distinct)
  show ?thesis
    unfolding win_refresh_work_def refresh_work_def Let_def
    by (intro prod.case_cong refl if_cong same) simp_all
qed

lemma quiet_refresh:
  assumes "win_ok s"
  shows "quiet (refresh_work s)"
proof -
  obtain rpc code p where call: "stn_rpc_client_mining_template (chain_rpc s) STN_RPC_CLIENT_MAX_PAYLOAD =
      (rpc, code, p)" by (rule prod_cases3)
  let ?t = "s\<lparr>chain_rpc := rpc, chain_poll_count := chain_poll_count s + 1\<rparr>"
  have t: "quiet ?t" "quiet (?t\<lparr>chain_available := b\<rparr>)" "distinct (ids (with_template ?t p))" for b
    using assms by (simp_all add: win_ok_def quiet_def srv_ok_distinct with_template_def)
  then have w: "quiet (with_template ?t p)" "quiet (send_pending_jobs (with_template ?t p))"
    by (simp_all add: quiet_with_template pending_jobs_none(2))
  show ?thesis
    using assms t w unfolding win_ok_def by (simp add: refresh_work_cases [OF call] quiet_clear quiet_next)
qed

lemma win_refresh_work_ok: "win_ok s \<Longrightarrow> win_ok (win_refresh_work s)"
  by (simp add: win_refresh_work_same) (simp add: win_ok_def refresh_work_ok quiet_refresh)

section \<open>Accepting and the main loop\<close>

text \<open>A client accepted here is accepted on Linux too, with the same session.\<close>

lemma win_acceptor_some:
  assumes "win_session_acceptor_accept l es mem cid = (r, Some c, es', mem', closed)"
  shows "stn_session_acceptor_accept l es mem cid = (r, Some c, es', mem', closed)"
  using assms
  by (cases es rule: win_accept_once.cases)
    (auto simp: win_session_acceptor_accept_def win_mining_listener_accept_def stn_session_acceptor_accept_def
      stn_mining_listener_accept_def split: if_splits)

lemma win_ok_link:
  assumes "win_ok s" "win_session_acceptor_accept l es mem (next_cid s) = (r, Some c, es', mem', closed)"
  shows "win_ok (link_client (s\<lparr>srv_mem := mem', closed_fds := fds\<rparr>) c)"
proof -
  note acc = win_acceptor_some [OF assms(2)]
  have "c = stn_client_session_init (next_cid s) (sess_in c) (sess_sends c) (sess_socket c) (stn_client_mode_init (ls_mode l))"
    using acceptor_session [OF acc] by simp
  then have "unserved c"
    by (metis (no_types, lifting) unserved_init)
  then show ?thesis
    using assms(1) srv_ok_link [OF _ acc] by (auto simp: win_ok_def quiet_def link_client_def)
qed

lemma win_ok_upds:
  assumes "win_ok s"
  shows "win_ok (s\<lparr>srv_mem := mem, closed_fds := fds\<rparr>)" "win_ok (s\<lparr>pool_accepts := es\<rparr>)"
    "win_ok (s\<lparr>solo_accepts := es\<rparr>)" "win_ok (s\<lparr>loop_count := n\<rparr>)" "win_ok (s\<lparr>running := b\<rparr>)"
  using assms by (auto simp: win_ok_def quiet_def elim!: srv_ok_same)

lemma win_accept_from_listener_ok: "win_ok s \<Longrightarrow> win_ok (snd (win_accept_from_listener l es s))"
proof (induction l es s rule: win_accept_from_listener.induct)
  case (1 l es s)
  obtain r c es' mem closed where acc: "win_session_acceptor_accept l es (srv_mem s) (next_cid s) =
      (r, c, es', mem, closed)" by (rule prod_cases5)
  note unfold = win_accept_from_listener.simps [of l es s]
  show ?case
  proof (cases c)
    case None
    then show ?thesis
      using win_ok_upds(1) [OF "1.prems"] by (simp add: unfold acc)
  next
    case (Some d)
    then show ?thesis
      using "1.IH" [OF acc [symmetric] refl refl refl refl Some] win_ok_link [OF "1.prems" acc [unfolded Some]]
      by (simp add: unfold acc Let_def)
  qed
qed

lemma win_accept_clients_ok:
  assumes "win_ok s"
  shows "win_ok (win_accept_clients s)"
proof -
  obtain es1 s1 where a: "win_accept_from_listener (pool_listener s) (pool_accepts s) s = (es1, s1)" by fastforce
  let ?s1 = "s1\<lparr>pool_accepts := es1\<rparr>"
  obtain es2 s2 where b: "win_accept_from_listener (solo_listener ?s1) (solo_accepts ?s1) ?s1 = (es2, s2)" by fastforce
  have "win_ok ?s1"
    using win_accept_from_listener_ok [OF assms, of "pool_listener s" "pool_accepts s"] by (simp add: a win_ok_upds)
  from win_accept_from_listener_ok [OF this, of "solo_listener ?s1" "solo_accepts ?s1"] b
  show ?thesis by (simp add: win_accept_clients_def a Let_def win_ok_upds)
qed

lemma win_server_tick_ok:
  assumes "win_ok s"
  shows "win_ok (win_server_tick s)"
proof -
  let ?a = "win_service_clients (win_accept_clients s)"
  have a: "win_ok ?a" using assms by (intro win_service_clients_ok win_accept_clients_ok)
  then have b: "win_ok (if loop_count ?a mod STN_STRATUM_CHAIN_POLL_TICKS = 0 then win_refresh_work ?a else ?a)" (is "win_ok ?b")
    by (simp add: win_refresh_work_ok)
  then have "win_send_pending_jobs ?b = ?b"
    unfolding win_ok_def by (intro pending_jobs_none(1)) (simp_all add: srv_ok_distinct)
  then show ?thesis
    using win_ok_upds(4) [OF b] unfolding win_server_tick_def Let_def by simp
qed

lemma win_step_ok: "win_step s t \<Longrightarrow> win_ok s \<Longrightarrow> win_ok t"
  by (erule win_stepE)
    (auto simp: win_server_tick_ok console_control_def win_server_stop_def win_ok_upds)

lemma win_steps_ok: "win_step\<^sup>*\<^sup>* s t \<Longrightarrow> win_ok s \<Longrightarrow> win_ok t"
  by (induction rule: rtranclp_induct) (auto intro: win_step_ok)

section \<open>Starting\<close>

text \<open>\<open>stn_stratum_server_init\<close> clears the flag, too.\<close>

definition win_server_init ::
  "'u transport_ops \<Rightarrow> 'u \<Rightarrow> bool list \<Rightarrow> bool list \<Rightarrow> accept_event list \<Rightarrow> accept_event list \<Rightarrow> bool list \<Rightarrow> 'u win_server" where
  "win_server_init tops u rmem mem pool solo wsa =
     \<lparr>win_srv = stn_stratum_server_init tops u rmem mem pool solo, winsock_ready = False, wsa_results = wsa\<rparr>"

lemma win_listeners_open_ok:
  assumes "win_listeners_open e1 e2 w = (ok, w')" "win_ok (win_srv w)"
  shows "win_ok (win_srv w')"
proof -
  have "clients (win_srv w') = clients (win_srv w) \<and> released (win_srv w') = released (win_srv w) \<and> srv_ok (win_srv w')"
    using assms
    by (auto simp: win_listeners_open_def winsock_open_def Let_def win_ok_def split: prod.splits if_splits elim!: srv_ok_same)
  then show ?thesis using assms(2) by (simp add: win_ok_def quiet_def)
qed

lemma win_server_start_ok:
  assumes "win_server_start log_ok loaded e1 e2 tel (win_server_init tops u rmem mem pool solo wsa) = (True, w)"
  shows "win_ok (win_srv w)"
proof -
  let ?i = "win_server_init tops u rmem mem pool solo wsa"
  from assms obtain cfg where cfg: "loaded = Some cfg" "cfg \<noteq> []"
    by (auto simp: win_server_start_def Let_def split: if_splits option.splits)
  define b where "b = (win_srv ?i)\<lparr>chain_config := cfg, active_chain_server := 0\<rparr>"
  obtain c where c: "chain_transport_select b 0 = (True, c)"
    using cfg by (auto simp: chain_transport_select_def b_def Let_def)
  have "srv_ok c" "clients c = []" "released c = []"
    using c cfg
    by (auto simp: chain_transport_select_def Let_def b_def win_server_init_def stn_stratum_server_init_def clear_work_def
        clear_client_jobs_def srv_ok_def work_ok_def chain_ok_def stn_rpc_client_init_def)
  then have "win_ok (win_srv (?i\<lparr>win_srv := c\<rparr>))" by (simp add: win_ok_def quiet_def)
  moreover obtain ok where "win_listeners_open e1 e2 (?i\<lparr>win_srv := c\<rparr>) = (ok, w)"
    using assms cfg c by (auto simp: win_server_start_def Let_def b_def split: if_splits prod.splits)
  ultimately show ?thesis using win_listeners_open_ok by blast
qed

section \<open>What the Windows branch does to miners\<close>

text \<open>
  C32. The Windows server never serves a miner. In every state that the started server can
  reach, whatever is connected and sent: no client is registered or holds a job, none has more than
  7 bytes of a frame in its buffer, and no client, connected or removed, was ever sent a byte. It is
  safe all the same: no freed client is read and no loop runs past its bound.
\<close>

theorem windows_serves_nobody:
  assumes "win_server_start log_ok loaded e1 e2 tel (win_server_init tops u rmem mem pool solo wsa) = (True, w)"
    and "win_step\<^sup>*\<^sup>* (win_srv w) s"
  shows "\<not> fault s \<and>
    (\<forall>c \<in> set (clients s). \<not> address_registered c \<and> \<not> has_job c \<and> rx_used c < 8 \<and> sess_out c = []) \<and>
    (\<forall>c \<in> set (released s). sess_out c = [])"
proof -
  have "win_ok s" by (rule win_steps_ok [OF assms(2) win_server_start_ok [OF assms(1)]])
  then show ?thesis by (auto simp: win_ok_def quiet_def unserved_def srv_ok_def sess_ok_def)
qed

definition win_sample_start :: "bool \<times> unit win_server" where
  "win_sample_start =
     win_server_start True (Some sample_config) sample_open sample_open True
       (win_server_init (sample_ops None) () [] [] [Accept_Conn 9 True [Recv_Data (replicate 77 0)] []] [] [])"

lemma win_sample_started: "fst win_sample_start" "running (win_srv (snd win_sample_start))"
  by (simp_all add: win_sample_start_def win_server_start_def Let_def sample_config_def chain_transport_select_def
      active_chain_def win_listeners_open_def winsock_open_def win_mining_listener_open_def stn_mining_listener_init_def
      sample_open_def win_server_init_def stn_stratum_server_init_def clear_work_def clear_client_jobs_def)

theorem windows_serves_nobody_witness:
  "let s = win_server_tick (win_srv (snd win_sample_start)) in
    \<not> fault s \<and> (\<forall>c \<in> set (clients s). \<not> address_registered c \<and> \<not> has_job c \<and> rx_used c < 8 \<and> sess_out c = [])"
proof -
  have "win_server_start True (Some sample_config) sample_open sample_open True
      (win_server_init (sample_ops None) () [] [] [Accept_Conn 9 True [Recv_Data (replicate 77 0)] []] [] []) =
    (True, snd win_sample_start)"
    using win_sample_started(1) by (metis prod.collapse win_sample_start_def)
  from windows_serves_nobody [OF this r_into_rtranclp [of win_step, OF Win_Tick [OF win_sample_started(2)]]]
  show ?thesis by (simp add: Let_def)
qed

lemma filled_fill:
  assumes "sess_in c = Recv_Data d # es" "rx_used c < 8" "8 \<le> rx_used c + length d" "length (rx c) = 77"
  shows "fst (win_rx_fill 8 c) = Filled"
proof -
  obtain x where x: "sock_recv (8 - rx_used c) (sess_in c) = (Got (take (8 - rx_used c) d), x)"
    by (use assms(1-3) that in \<open>cases "length d \<le> 8 - rx_used c"; cases "d = []"\<close>) auto
  have "length (take (8 - rx_used c) d) = 8 - rx_used c" using assms(3) by simp
  then show ?thesis
    using x assms(2) by (simp add: win_rx_fill.simps [of 8 c]) (simp add: win_rx_fill.simps [of 8 "_ :: session"])
qed

text \<open>
  C33. A miner is removed as soon as the 8 header bytes of its first frame have arrived,
  whatever they are, a well-formed ADDRESS frame included; nothing is sent to it. The loop takes the
  8 bytes that it has for the whole frame, because the size of the frame is decided before they are read.
\<close>

theorem windows_drops_first_frame:
  assumes "win_ok s" and "client_of s cid = Some c"
    and "sess_in c = Recv_Data d # es" and "8 \<le> rx_used c + length d"
  shows "ids (win_service_client s cid) = remove1 cid (ids s) \<and>
    (\<exists>b. released (win_service_client s cid) = b # released s \<and> sess_out b = [])"
proof -
  have "c \<in> set (clients s)" using client_of_Some [OF assms(2)] by simp
  then have c: "rx_used c < 8" "length (rx c) = 77"
    using assms(1) by (auto simp: win_ok_def srv_ok_def sess_ok_def quiet_def unserved_def)
  obtain c' where c': "win_service_client s cid = client_remove (upd_client cid c' s) cid" "sess_id c' = cid"
    "unserved (c'\<lparr>rx_used := 0\<rparr>)"
    using win_service_client_cases [OF assms(1,2)] filled_fill [OF assms(3) c(1) assms(4) c(2)] by auto
  have "cid \<in> set (ids s)" using assms(2) client_of_None [of s cid] by auto
  then have "client_of (upd_client cid c' s) cid = Some c'" using c'(2) by (simp add: client_of_upd)
  from released_remove [OF this] c'(3)
  have "\<exists>b. released (client_remove (upd_client cid c' s) cid) = b # released s \<and> sess_out b = []"
    by (simp add: unserved_def upd_client_def)
  then show ?thesis using c'(2) by (simp only: c'(1) ids_remove ids_upd)
qed

definition win_sample :: "bytes \<Rightarrow> unit server" where
  "win_sample frame =
     upd_client 0 (stn_client_session_init 0 [Recv_Data frame] [] 5 (stn_client_mode_init STN_SERVICE_MODE_POOL))
       (sample_server None)"

lemma win_sample_ok: "win_ok (win_sample frame)"
proof -
  let ?c = "stn_client_session_init 0 [Recv_Data frame] [] 5 (stn_client_mode_init STN_SERVICE_MODE_POOL)"
  have "sess_ok (sample_server None) ?c"
    by (simp add: sess_ok_def stn_client_session_init_def stn_client_mode_init_def stn_client_mode_valid_def
        sample_srv_def)
  moreover have "sess_id ?c = 0" by (simp add: stn_client_session_init_def)
  ultimately have "srv_ok (win_sample frame)"
    unfolding win_sample_def by (intro srv_ok_upd sample_server_ok)
  moreover have "quiet (win_sample frame)"
    using unserved_init by (simp add: quiet_def win_sample_def upd_client_def) (simp add: sample_srv_def stn_stratum_server_init_def)
  ultimately show ?thesis by (simp add: win_ok_def)
qed

theorem windows_drops_first_frame_witness:
  "address_valid sample_address_frame \<and> clients (win_service_client (win_sample sample_address_frame) 0) = []"
proof -
  have "client_of (win_sample sample_address_frame) 0 =
      Some (stn_client_session_init 0 [Recv_Data sample_address_frame] [] 5 (stn_client_mode_init STN_SERVICE_MODE_POOL))"
    by (simp add: win_sample_def client_of_def upd_client_def stn_client_session_init_def)
  from windows_drops_first_frame [OF win_sample_ok this, of sample_address_frame "[]"]
  have "ids (win_service_client (win_sample sample_address_frame) 0) = []"
    by (simp add: stn_client_session_init_def sample_address_frame) (simp add: win_sample_def upd_client_def stn_client_session_init_def)
  then show ?thesis by (simp add: sample_address_frame)
qed

section \<open>Where the handlers agree\<close>

lemma send_all_rest: "set (fst (snd (send_all es p))) \<subseteq> set es"
  by (induction es p rule: send_all.induct) (auto simp: Let_def split: prod.splits)

lemma win_send_all_same: "Send_Eintr \<notin> set es \<Longrightarrow> win_send_all es p = send_all es p"
  by (induction es p rule: send_all.induct) (auto simp: Let_def)

definition uninterrupted :: "session \<Rightarrow> bool" where
  "uninterrupted c \<longleftrightarrow> Send_Eintr \<notin> set (sess_sends c)"

lemma win_sess_send_same: "uninterrupted c \<Longrightarrow> win_sess_send c p = sess_send c p"
  by (simp add: uninterrupted_def win_sess_send_def sess_send_def win_send_all_same)

lemma uninterrupted_send: "uninterrupted c \<Longrightarrow> sess_send c p = (ok, c') \<Longrightarrow> uninterrupted c'"
  using send_all_rest [of "sess_sends c" p] by (auto simp: uninterrupted_def sess_send_def split: prod.splits)

lemma win_client_send_job_same:
  assumes "client_of s cid = Some c" "uninterrupted c"
  shows "win_client_send_job s cid = client_send_job s cid"
proof -
  have "win_sess_send (snd (sess_send c h)) p = sess_send (snd (sess_send c h)) p" for h p
    using uninterrupted_send [OF assms(2), of h "fst (sess_send c h)" "snd (sess_send c h)"]
    by (simp add: win_sess_send_same)
  then show ?thesis
    by (cases "stn_miner_job_build (Some (active_template s)) (active_template_length s)")
      (simp_all add: win_client_send_job_def client_send_job_def assms(1) win_sess_send_same [OF assms(2)] split_beta)
qed

lemma win_client_send_result_same:
  "client_of s cid = Some c \<Longrightarrow> uninterrupted c \<Longrightarrow> win_client_send_result s cid code = client_send_result s cid code"
  by (simp add: win_client_send_result_def client_send_result_def win_sess_send_same)

lemma clear_twice: "clear_work (clear_work s) = clear_work s"
  by (simp add: clear_work_def clear_client_jobs_def comp_def)

lemma clear_available: "clear_work (s\<lparr>chain_available := b\<rparr>) = (clear_work s)\<lparr>chain_available := b\<rparr>"
  by (simp add: clear_work_def clear_client_jobs_def)

lemma select_clear:
  assumes "i < length (chain_config s)"
  shows "chain_transport_select (clear_work s) i = chain_transport_select s i"
    "chain_transport_select (s\<lparr>chain_available := b\<rparr>) i = chain_transport_select s i"
  using assms by (simp_all add: chain_transport_select_def clear_twice clear_available Let_def)

definition next_chain :: "'u server \<Rightarrow> nat" where
  "next_chain s = (if active_chain_server s + 1 \<ge> length (chain_config s) then 0 else active_chain_server s + 1)"

lemma next_select: "chain_config s \<noteq> [] \<Longrightarrow> chain_transport_next s = chain_transport_select s (next_chain s)"
  by (simp add: chain_transport_next_def next_chain_def Let_def)

lemma next_chain_simps:
  "next_chain (clear_work s) = next_chain s" "next_chain (s\<lparr>chain_available := b\<rparr>) = next_chain s"
  "chain_config s \<noteq> [] \<Longrightarrow> next_chain s < length (chain_config s)"
  by (simp_all add: next_chain_def)

lemma clear_next:
  assumes "chain_config s \<noteq> []"
  shows "chain_transport_next (clear_work s) = chain_transport_next s"
    "chain_transport_next (s\<lparr>chain_available := b\<rparr>) = chain_transport_next s"
  using assms select_clear [OF next_chain_simps(3) [OF assms]] by (simp_all add: next_select next_chain_simps)

lemma win_process_address_same:
  assumes "client_of s cid = Some c" "uninterrupted c"
  shows "win_process_address s cid = process_address s cid"
proof -
  let ?c = "c\<lparr>address := bytes_at 8 STN_MINER_ADDRESS_LENGTH (rx c) @ [0], address_registered := True\<rparr>"
  have "sess_id c = cid" "cid \<in> set (ids s)" using client_of_Some [OF assms(1)] by auto
  then have "client_of (upd_client cid ?c s) cid = Some ?c" by (simp add: client_of_upd)
  from win_client_send_job_same [OF this] assms
  show ?thesis by (simp add: win_process_address_def process_address_def uninterrupted_def Let_def)
qed

lemma win_submit_share_same:
  assumes "client_of s cid = Some c" "uninterrupted c"
  shows "win_submit_share_result s cid c nonce = submit_share_result s cid c nonce"
proof -
  have "win_client_send_result (s\<lparr>chain_rpc := rpc\<rparr>) cid code = client_send_result (s\<lparr>chain_rpc := rpc\<rparr>) cid code" for rpc code
    using assms by (intro win_client_send_result_same) (simp_all add: client_of_def)
  then show ?thesis by (simp add: win_submit_share_result_def submit_share_result_def)
qed

abbreviation (input) "block_answer s c nonce \<equiv>
  fst (snd (stn_rpc_client_submit_work (chain_rpc s)
    (Some (work_payload (active_template s) (active_template_length s) (address c) nonce))
    (active_template_length s + STN_MINER_ADDRESS_LENGTH) 80))"

lemma submit_work_clears:
  assumes "chain_config s \<noteq> []" "client_of s cid = Some c" "uninterrupted c"
  shows "submit_work_result s cid c nonce =
    (if fst (alloc_next (srv_mem s)) \<and>
        block_answer s c nonce \<in> {STN_RPC_CLIENT_OK, STN_RPC_CLIENT_STALE, STN_RPC_CLIENT_PROVIDER, STN_RPC_CLIENT_INVALID}
     then clear_work (win_submit_work_result s cid c nonce) else win_submit_work_result s cid c nonce)"
proof -
  obtain got mem where alloc: "alloc_next (srv_mem s) = (got, mem)" by fastforce
  obtain rpc code r where call: "stn_rpc_client_submit_work (chain_rpc s)
      (Some (work_payload (active_template s) (active_template_length s) (address c) nonce))
      (active_template_length s + STN_MINER_ADDRESS_LENGTH) 80 = (rpc, code, r)" by (rule prod_cases3)
  have same: "win_client_send_result t cid a = client_send_result t cid a" if "clients t = clients s" for t a
    using assms client_of_cong [OF that] by (intro win_client_send_result_same) simp_all
  let ?W = "client_send_result (s\<lparr>srv_mem := mem, chain_rpc := rpc\<rparr>) cid code"
  have "chain_config ?W \<noteq> []" using assms(1) by simp
  then show ?thesis
    using clear_next [of ?W]
    by (cases got; cases code)
      (simp_all add: submit_work_result_def win_submit_work_result_def alloc call same Let_def)
qed

lemma win_process_submission_same:
  assumes "chain_config s \<noteq> []" "client_of s cid = Some c" "uninterrupted c"
  shows "process_submission s cid \<in> {win_process_submission s cid, clear_work (win_process_submission s cid)}"
proof -
  note same = win_client_send_result_same [OF assms(2,3)] win_submit_share_same [OF assms(2,3)]
  have "submit_work_result s cid c n \<in> {win_submit_work_result s cid c n, clear_work (win_submit_work_result s cid c n)}" for n
    by (simp add: submit_work_clears [OF assms])
  then show ?thesis
    unfolding process_submission_def win_process_submission_def
    by (simp add: assms(2) same Let_def split: option.split stn_share_class.split)
qed

text \<open>
  C34. When no call of \<open>send\<close> is interrupted, the handlers of the Windows branch do what
  those of the Linux branch do, with one difference: after the Chain answered a block with OK, STALE,
  PROVIDER or INVALID the Linux branch discards the work, and the Windows branch keeps it until a poll
  replaces it, as its comments say and \<^verbatim>\<open>docs/PROTOCOL.md\<close> does not.
\<close>

theorem windows_handlers_agree:
  assumes "chain_config s \<noteq> []" and "client_of s cid = Some c" and "Send_Eintr \<notin> set (sess_sends c)"
  shows "win_process_address s cid = process_address s cid \<and>
    win_submit_share_result s cid c nonce = submit_share_result s cid c nonce \<and>
    submit_work_result s cid c nonce =
      (if fst (alloc_next (srv_mem s)) \<and>
          block_answer s c nonce \<in> {STN_RPC_CLIENT_OK, STN_RPC_CLIENT_STALE, STN_RPC_CLIENT_PROVIDER, STN_RPC_CLIENT_INVALID}
       then clear_work (win_submit_work_result s cid c nonce) else win_submit_work_result s cid c nonce) \<and>
    process_submission s cid \<in> {win_process_submission s cid, clear_work (win_process_submission s cid)}"
proof -
  have un: "uninterrupted c" using assms(3) by (simp add: uninterrupted_def)
  show ?thesis
    using win_process_address_same [OF assms(2) un] win_submit_share_same [OF assms(2) un]
      submit_work_clears [OF assms(1,2) un] win_process_submission_same [OF assms(1,2) un] by simp
qed

theorem windows_handlers_agree_witness:
  "let s = sample_server (Some (rpc_frame 2 0x2003 0 1 (replicate 80 9))) in
    have_work (win_submit_work_result s 0 sample_client 2) \<and> \<not> have_work (submit_work_result s 0 sample_client 2)"
proof -
  let ?s = "sample_server (Some (rpc_frame 2 0x2003 0 1 (replicate 80 9)))"
  have call: "stn_rpc_client_submit_work (chain_rpc ?s) (Some (work_payload example_template 236 (sample_address @ [0]) 2)) 305 80 =
      ((chain_rpc ?s)\<lparr>next_request_id := 2\<rparr>, STN_RPC_CLIENT_OK, replicate 80 9)"
    by (simp add: stn_rpc_client_submit_work_def rpc_call_def stn_rpc_client_init_def rpc_take_id_def
        sample_ops_def rpc_check_frame rpc_payload_ok_def)
  have alloc: "alloc_next (srv_mem ?s) = (True, [])"
    by (simp add: sample_srv_def stn_stratum_server_init_def)
  have "have_work (win_submit_work_result ?s 0 sample_client 2)"
    using call alloc by (simp add: win_submit_work_result_def win_client_send_result_def client_of_def Let_def split: prod.split)
  moreover have "submit_work_result ?s 0 sample_client 2 = clear_work (win_submit_work_result ?s 0 sample_client 2)"
    using windows_handlers_agree [of ?s 0 sample_client 2] call alloc by (simp add: sample_config_def)
  ultimately show ?thesis by (simp add: Let_def)
qed

end
