(* ===== verification/Windows_Main.thy ===== *)
theory Windows_Main
  imports Windows_Props Server_Props
begin

text \<open>
  The program on Windows: \<^verbatim>\<open>main.c\<close> around the Windows branch of the server, from the console handler
  to the exit code. The telemetry service is left out here; \<^verbatim>\<open>Program_Main\<close> has it, on Linux.
\<close>

text \<open>
  \<open>main\<close> up to the loop, whether the loop is entered. A console event during the start only clears
  \<open>running\<close>, which nothing before the loop reads.
\<close>

definition win_main_start ::
  "bool \<Rightarrow> bool \<Rightarrow> config_entry list option \<Rightarrow> open_env \<Rightarrow> open_env \<Rightarrow> bool \<Rightarrow> 'u win_server \<Rightarrow> bool \<times> 'u win_server" where
  "win_main_start handler_ok log_ok loaded e1 e2 telemetry_ok w =
     (if \<not> handler_ok then (False, w) else win_server_start log_ok loaded e1 e2 telemetry_ok w)"

text \<open>From there to the exit code; \<open>win_step\<close> is an iteration of the loop or a console event.\<close>

inductive win_main :: "bool \<times> 'u win_server \<Rightarrow> int \<Rightarrow> 'u win_server \<Rightarrow> bool" where
  Win_Failed: "win_main (False, w) 1 (win_server_close w)"
| Win_Ran: "win_step\<^sup>*\<^sup>* (win_srv w) s \<Longrightarrow> \<not> running s \<Longrightarrow> win_main (True, w) 0 (win_server_close (w\<lparr>win_srv := s\<rparr>))"

section \<open>The way out\<close>

text \<open>Nothing is connected, open or held.\<close>

definition win_exited :: "'u win_server \<Rightarrow> bool" where
  "win_exited w \<longleftrightarrow>
     (let s = win_srv w in
      clients s = [] \<and> \<not> fault s \<and> \<not> winsock_ready w \<and> chain_config s = [] \<and> \<not> have_work s \<and>
      ls_socket (pool_listener s) = STN_INVALID_SOCKET \<and> ls_socket (solo_listener s) = STN_INVALID_SOCKET)"

lemma win_close_exited:
  assumes "clients (remove_all (length (clients (win_srv w))) (win_srv w)) = []"
    and "\<not> fault (remove_all (length (clients (win_srv w))) (win_srv w))"
  shows "win_exited (win_server_close w)"
  using assms
  by (simp add: win_exited_def win_server_close_def winsock_close_def listeners_close_def clear_work_def
      clear_client_jobs_def stn_mining_listener_close_def Let_def split: prod.split)

text \<open>A start that fails has accepted nobody.\<close>

lemma win_listeners_open_none:
  assumes "win_listeners_open e1 e2 w = (ok, w')"
  shows "clients (win_srv w') = clients (win_srv w) \<and> released (win_srv w') = released (win_srv w) \<and>
    fault (win_srv w') = fault (win_srv w)"
  using assms by (auto simp: win_listeners_open_def winsock_open_def Let_def split: prod.splits if_splits)

definition nobody :: "'u server \<Rightarrow> bool" where
  "nobody s \<longleftrightarrow> clients s = [] \<and> released s = [] \<and> \<not> fault s"

lemma select_nobody: "chain_transport_select s i = (ok, t) \<Longrightarrow> nobody s \<Longrightarrow> nobody t"
  by (auto simp: chain_transport_select_def nobody_def clear_work_def clear_client_jobs_def Let_def split: if_splits)

lemma win_start_nobody:
  assumes "win_server_start log_ok loaded e1 e2 tel w = (ok, w')" "nobody (win_srv w)"
  shows "nobody (win_srv w')"
proof -
  have upd: "nobody (win_srv w\<lparr>chain_config := cfg\<rparr>)" "nobody (win_srv w\<lparr>chain_config := cfg, active_chain_server := 0\<rparr>)"
    for cfg
    using assms(2) by (simp_all add: nobody_def)
  have "nobody (win_srv w')" if "win_listeners_open e1 e2 (w\<lparr>win_srv := t\<rparr>) = (r, w')" "nobody t" for t r w'
    using win_listeners_open_none [OF that(1)] that(2) by (simp add: nobody_def)
  moreover have "nobody (listeners_close s)" if "nobody s" for s :: "'a server"
    using that by (simp add: listeners_close_def nobody_def Let_def split: prod.split)
  ultimately show ?thesis
    using assms upd select_nobody [OF _ upd(2)]
    by (fastforce simp: win_server_start_def Let_def split: if_splits option.splits prod.splits)
qed

lemma remove_all_running: "running (remove_all n s) = running s"
  by (induction n arbitrary: s) (simp_all split: list.split)

text \<open>
  However \<open>main\<close> ends on Windows, it returns 0 exactly if the loop was entered, and then it was told to
  stop; no client is connected, both listeners are closed, Winsock is cleaned up, the configuration is
  released, and no freed client was read.
\<close>

theorem windows_exit_clean:
  assumes "win_main_start handler_ok log_ok loaded e1 e2 tel (win_server_init tops u rmem mem pool solo wsa) = (ok, w)"
    and "win_main (ok, w) code x"
  shows "win_exited x \<and> code = (if ok then 0 else 1) \<and> (ok \<longrightarrow> handler_ok \<and> \<not> running (win_srv x))"
  using assms(2)
proof cases
  case Win_Failed
  have "nobody (win_srv (win_server_init tops u rmem mem pool solo wsa))"
    by (simp add: nobody_def win_server_init_def stn_stratum_server_init_def)
  then have "nobody (win_srv w)"
    using assms(1) win_start_nobody by (auto simp: win_main_start_def split: if_splits)
  then have "win_exited x" using Win_Failed by (auto simp: nobody_def intro!: win_close_exited)
  then show ?thesis using Win_Failed by simp
next
  case (Win_Ran s)
  then have h: "handler_ok" and start: "win_server_start log_ok loaded e1 e2 tel
      (win_server_init tops u rmem mem pool solo wsa) = (True, w)"
    using assms(1) by (auto simp: win_main_start_def split: if_splits)
  have "srv_ok s" using win_steps_ok [OF Win_Ran(4) win_server_start_ok [OF start]] by (simp add: win_ok_def)
  from remove_all_ok [OF this order_refl]
  have rem: "srv_ok (remove_all (length (clients s)) s)" "clients (remove_all (length (clients s)) s) = []" by auto
  then have "win_exited x" unfolding Win_Ran(3) by (intro win_close_exited) (auto simp: srv_ok_def)
  moreover have "\<not> running (win_srv x)"
    using Win_Ran(5)
    by (simp add: Win_Ran(3) win_server_close_def winsock_close_def listeners_close_def clear_work_def
        clear_client_jobs_def Let_def remove_all_running split: prod.split)
  ultimately show ?thesis using Win_Ran h by simp
qed

theorem windows_exit_clean_witness:
  "\<exists>x. win_main (False, win_server_init (sample_ops None) () [] [] [] [] []) 1 x \<and> win_exited x"
proof -
  let ?w = "win_server_init (sample_ops None) () [] [] [] [] []"
  have "win_main_start False True None sample_open sample_open True ?w = (False, ?w)" by (simp add: win_main_start_def)
  from windows_exit_clean [OF this win_main.Win_Failed] show ?thesis using win_main.Win_Failed by blast
qed

end
