(* ===== verification/Program_Main.thy ===== *)
theory Program_Main
  imports Server_Status Server_Props Server_Log Chain_Connections
begin

text \<open>
  The program: \<^verbatim>\<open>main.c\<close> on Linux around the server and the telemetry service. The main thread installs
  the signal handlers, starts, loops until a signal has cleared \<open>running\<close>, and closes; the telemetry
  worker runs beside it, step by step, and a signal may come at any moment. What is logged is left out; the
  log file is opened and closed.
\<close>

section \<open>The state\<close>

text \<open>
  Where the main thread is: at the head of its loop, publishing, in \<open>stn_stratum_server_close\<close> past the
  clients with the exit code to come, or gone with its exit code.
\<close>

datatype main_phase = Ph_Loop | Ph_Publish | Ph_Join int | Ph_Exit int

record 'u program =
  pg_server :: "'u server"
  pg_tel :: tel_sys
  pg_mem :: cmem
  pg_log :: log_state
  pg_phase :: main_phase

text \<open>Without a worker thread.\<close>

definition program_at_rest :: "'u server \<Rightarrow> tel_service \<Rightarrow> cmem \<Rightarrow> log_state \<Rightarrow> 'u program" where
  "program_at_rest s t m l =
     \<lparr>pg_server = s, pg_tel = (tel_start t)\<lparr>ty_worker := Work_Exit\<rparr>, pg_mem = m, pg_log = l, pg_phase = Ph_Loop\<rparr>"

text \<open>The log of a server that \<open>stn_stratum_server_init\<close> has cleared.\<close>

definition log_zero :: log_state where
  "log_zero = \<lparr>lg_console = [], lg_content = [], lg_file = False, lg_handles = 0\<rparr>"

section \<open>Closing\<close>

text \<open>
  \<open>stn_stratum_server_close\<close> up to the point where it may wait for the telemetry worker, and from there.
\<close>

definition main_close_begin :: "int \<Rightarrow> 'u program \<Rightarrow> 'u program" where
  "main_close_begin code p =
     (let s = pg_server p; x = pg_tel p;
          p = p\<lparr>pg_server := remove_all (length (clients s)) s, pg_phase := Ph_Join code\<rparr>
      in if tel_started (ty_service x) then p\<lparr>pg_tel := close_begin x\<rparr>
         else p\<lparr>pg_tel := x\<lparr>ty_service := tel_close_finish (ty_service x), ty_main := Main_Closed\<rparr>\<rparr>)"

definition close_rest :: "'u server \<Rightarrow> 'u server" where
  "close_rest s =
     (let s = listeners_close s;
          s = s\<lparr>chain_rpc := (chain_rpc s)\<lparr>transport_user := op_close (ops s) (transport_user (chain_rpc s))\<rparr>\<rparr>
      in (clear_work s)\<lparr>chain_available := False\<rparr>)"

definition main_close_end :: "int \<Rightarrow> 'u program \<Rightarrow> 'u program" where
  "main_close_end code p =
     (let s = close_rest (pg_server p) in
      case stn_chain_config_close (chain_config s) (pg_mem p) of
        (cfg, m) \<Rightarrow> p\<lparr>pg_server := s\<lparr>chain_config := cfg\<rparr>, pg_mem := m, pg_log := log_close (pg_log p),
          pg_phase := Ph_Exit code\<rparr>)"

lemma server_close_parts:
  "stn_stratum_server_close s = (close_rest (remove_all (length (clients s)) s))\<lparr>chain_config := []\<rparr>"
  by (simp add: stn_stratum_server_close_def close_rest_def Let_def)

section \<open>Starting\<close>

text \<open>Whether the two calls of \<^verbatim>\<open>sigaction\<close> succeed.\<close>

definition install_signal_handlers :: "bool \<Rightarrow> bool \<Rightarrow> bool" where
  "install_signal_handlers sigint_ok sigterm_ok =
     (if \<not> sigint_ok then False else if \<not> sigterm_ok then False else True)"

definition signal_control :: "'u server \<Rightarrow> 'u server" where
  "signal_control s = stn_stratum_server_stop s"

text \<open>
  \<open>main\<close> up to the loop, or to its way out. A signal that comes during the start only clears
  \<open>running\<close>, which nothing before the loop reads.
\<close>

definition main_start ::
  "bool \<Rightarrow> bool \<Rightarrow> bool \<Rightarrow> file_env \<Rightarrow> open_env \<Rightarrow> open_env \<Rightarrow> open_env \<Rightarrow> bool \<Rightarrow> 'u server \<Rightarrow> tel_service \<Rightarrow> cmem \<Rightarrow>
   log_state \<Rightarrow> 'u program" where
  "main_start sigint_ok sigterm_ok fopen_ok file e1 e2 e3 thread_ok s t m l =
     (if \<not> install_signal_handlers sigint_ok sigterm_ok then main_close_begin 1 (program_at_rest s t m l)
      else
        (case log_open fopen_ok l of
           (log_ok, l) \<Rightarrow>
             (case program_start log_ok file e1 e2 e3 thread_ok s t m of
                (started, s, t, m) \<Rightarrow>
                  if \<not> started then main_close_begin 1 (program_at_rest s t m l)
                  else (program_at_rest s t m l)\<lparr>pg_tel := tel_start t\<rparr>)))"

section \<open>Steps\<close>

definition loop_serve :: "int \<Rightarrow> int \<Rightarrow> 'u program \<Rightarrow> 'u program" where
  "loop_serve started_at now p =
     (let s = service_clients (accept_clients (pg_server p)) in
      p\<lparr>pg_server := s, pg_tel := publish_begin (server_status s started_at now) (pg_tel p), pg_phase := Ph_Publish\<rparr>)"

definition loop_poll :: "'u program \<Rightarrow> 'u program" where
  "loop_poll p =
     (let s = pg_server p;
          s = (if loop_count s mod STN_STRATUM_CHAIN_POLL_TICKS = 0 then refresh_work s else s);
          s = send_pending_jobs s
      in p\<lparr>pg_server := s\<lparr>loop_count := loop_count s + 1\<rparr>, pg_phase := Ph_Loop\<rparr>)"

text \<open>
  A step of the threads below is one of the worker, or the next one of a publication or of waiting for
  the worker; publications and closing begin where the loop says so.
\<close>

inductive thread_step :: "int \<Rightarrow> 'u program \<Rightarrow> 'u program \<Rightarrow> bool" for started_at where
  Main_Serve: "pg_phase p = Ph_Loop \<Longrightarrow> running (pg_server p) \<Longrightarrow> thread_step started_at p (loop_serve started_at now p)"
| Main_Thread: "tel_step (pg_tel p) x \<Longrightarrow> (ty_main (pg_tel p) = Main_Loop \<Longrightarrow> ty_main x = Main_Loop) \<Longrightarrow>
    thread_step started_at p (p\<lparr>pg_tel := x\<rparr>)"
| Main_Poll: "pg_phase p = Ph_Publish \<Longrightarrow> ty_main (pg_tel p) = Main_Loop \<Longrightarrow> thread_step started_at p (loop_poll p)"
| Main_Leave: "pg_phase p = Ph_Loop \<Longrightarrow> \<not> running (pg_server p) \<Longrightarrow> thread_step started_at p (main_close_begin 0 p)"
| Main_Finish: "pg_phase p = Ph_Join code \<Longrightarrow> ty_main (pg_tel p) = Main_Closed \<Longrightarrow>
    thread_step started_at p (main_close_end code p)"

text \<open>The handler runs at any moment before the exit.\<close>

definition signalled :: "'u program \<Rightarrow> 'u program" where
  "signalled p = p\<lparr>pg_server := signal_control (pg_server p)\<rparr>"

inductive main_step :: "int \<Rightarrow> 'u program \<Rightarrow> 'u program \<Rightarrow> bool" for started_at where
  By_Thread: "thread_step started_at p q \<Longrightarrow> main_step started_at p q"
| Main_Signal: "(\<And>code. pg_phase p \<noteq> Ph_Exit code) \<Longrightarrow> main_step started_at p (signalled p)"

inductive_cases thread_stepE: "thread_step started_at p q"

lemma threads_steps: "(thread_step started_at)\<^sup>*\<^sup>* p q \<Longrightarrow> (main_step started_at)\<^sup>*\<^sup>* p q"
  by (induction rule: rtranclp_induct) (auto intro: By_Thread rtranclp.rtrancl_into_rtrancl)

section \<open>The parts of the loop\<close>

lemma serve_quiet: "quiet_run s (service_clients (accept_clients s))"
  using quiet_part [OF Part_Accept] quiet_service by (rule rtranclp_trans)

lemma removal_config: "ops (remove_all n s) = ops s \<and> chain_config (remove_all n s) = chain_config s"
  by (rule config.keeps_removal) simp

lemma serve_config: "chain_config (service_clients (accept_clients s)) = chain_config s"
  using config.keeps_quiet [OF serve_quiet, of s "ops s" "chain_config s"] by simp

lemma poll_config: "chain_config (refresh_work s) = chain_config s" "chain_config (send_pending_jobs s) = chain_config s"
  using config.keeps_poll [of s "ops s" "chain_config s"] config.keeps_offers [of s "ops s" "chain_config s"] by simp_all

lemma poll_stopped:
  assumes "\<not> running (pg_server p)"
  shows "\<not> running (pg_server (loop_poll p))"
proof -
  let ?r = "if loop_count (pg_server p) mod STN_STRATUM_CHAIN_POLL_TICKS = 0 then refresh_work (pg_server p) else pg_server p"
  have "\<not> running ?r" using stopped.keeps_poll [OF assms] assms by simp
  from stopped.keeps_offers [OF this] show ?thesis by (simp add: loop_poll_def Let_def)
qed

section \<open>The invariant\<close>

text \<open>
  Until the exit, the configuration owns exactly what was allocated since the start; in the loop the
  invariants of the server and of the threads hold, and the two agree on where the main thread is.
\<close>

definition closing_ok :: "'u server \<Rightarrow> bool" where
  "closing_ok s \<longleftrightarrow> clients s = [] \<and> \<not> fault s"

definition server_phase_ok :: "cmem \<Rightarrow> transport program \<Rightarrow> bool" where
  "server_phase_ok m p \<longleftrightarrow>
     (case pg_phase p of
        Ph_Exit code \<Rightarrow> balance m (pg_mem p) 0 \<and> closing_ok (pg_server p) \<and> chain_config (pg_server p) = [] \<and>
          listening (pg_server p) STN_INVALID_SOCKET STN_INVALID_SOCKET \<and> \<not> have_work (pg_server p) \<and>
          tp_socket (transport_user (chain_rpc (pg_server p))) = STN_INVALID_SOCKET
      | Ph_Join code \<Rightarrow> balance m (pg_mem p) (owns (chain_config (pg_server p))) \<and> closing_ok (pg_server p)
      | _ \<Rightarrow> balance m (pg_mem p) (owns (chain_config (pg_server p))) \<and> srv_ok (pg_server p))"

text \<open>The log has a descriptor while its file is set, and none after the exit.\<close>

definition log_phase_ok :: "'u program \<Rightarrow> bool" where
  "log_phase_ok p \<longleftrightarrow> lg_handles (pg_log p) = (if lg_file (pg_log p) then 1 else 0) \<and>
     (\<forall>code. pg_phase p = Ph_Exit code \<longrightarrow> \<not> lg_file (pg_log p))"

text \<open>The descriptors of the server, of its connections to the Chain and of the telemetry service.\<close>

definition fds_ok :: "int multiset \<Rightarrow> int multiset \<Rightarrow> transport program \<Rightarrow> bool" where
  "fds_ok A T p \<longleftrightarrow> accounts A (pg_server p) \<and> connections T (pg_server p)"

definition tel_phase_ok :: "'u program \<Rightarrow> bool" where
  "tel_phase_ok p \<longleftrightarrow>
     (case pg_phase p of
        Ph_Loop \<Rightarrow> ty_main (pg_tel p) = Main_Loop \<and> tel_started (ty_service (pg_tel p))
      | Ph_Publish \<Rightarrow> ty_main (pg_tel p) \<notin> {Main_Join, Main_Closed} \<and> tel_started (ty_service (pg_tel p))
      | Ph_Join code \<Rightarrow> ty_main (pg_tel p) \<in> {Main_Join, Main_Closed}
      | Ph_Exit code \<Rightarrow> ty_main (pg_tel p) = Main_Closed)"

definition program_ok :: "cmem \<Rightarrow> int multiset \<Rightarrow> int multiset \<Rightarrow> int multiset \<Rightarrow> transport program \<Rightarrow> bool" where
  "program_ok m A T M p \<longleftrightarrow> server_phase_ok m p \<and> tel_phase_ok p \<and> log_phase_ok p \<and> fds_ok A T p \<and> sys_ok M (pg_tel p)"

lemmas phase_defs = server_phase_ok_def tel_phase_ok_def log_phase_ok_def closing_ok_def

lemma sys_ok_step: "tel_step x y \<Longrightarrow> sys_ok M x \<Longrightarrow> sys_ok M y"
  by (rule sys_ok_steps [of x y]) auto

text \<open>A step of the threads keeps \<open>tel_started\<close> until the service is closed.\<close>

lemma thread_phase:
  assumes "tel_step x y" "sys_ok M x"
  shows "(ty_main x = Main_Publish q ws st \<longrightarrow> ty_main y \<notin> {Main_Join, Main_Closed}) \<and>
    (ty_main x = Main_Join \<longrightarrow> ty_main y \<in> {Main_Join, Main_Closed}) \<and>
    (ty_main x = Main_Closed \<longrightarrow> ty_main y = Main_Closed) \<and>
    (ty_main y \<noteq> Main_Closed \<longrightarrow> tel_started (ty_service y) = tel_started (ty_service x))"
  using assms(1)
proof cases
  case (Worker_Serve k j l now)
  have "tel_ok (ty_service x)" using assms(2) by (simp add: sys_ok_def service_ok_def)
  then show ?thesis using Worker_Serve by (simp add: serve_snapshot)
qed (simp_all add: publish_begin_def publish_end_def close_begin_def close_end_def Let_def)

lemma serve_ok:
  assumes "srv_ok s" "accounts A s" "connections T s"
  shows "srv_ok (service_clients (accept_clients s))" "accounts A (service_clients (accept_clients s))"
    "connections T (service_clients (accept_clients s))"
proof -
  show "srv_ok (service_clients (accept_clients s))" by (rule service_clients_ok [OF accept_clients_ok [OF assms(1)]])
  show "accounts A (service_clients (accept_clients s))" by (rule fds.keeps_quiet [OF serve_quiet assms(2)])
  show "connections T (service_clients (accept_clients s))"
    by (rule connection.keeps_services [OF accept_clients_ok [OF assms(1)] connection.keeps_accepts [OF assms(1,3)]])
qed

lemma poll_ok:
  assumes "srv_ok (pg_server p)" "accounts A (pg_server p)" "connections T (pg_server p)"
  shows "srv_ok (pg_server (loop_poll p))" "accounts A (pg_server (loop_poll p))" "connections T (pg_server (loop_poll p))"
    "chain_config (pg_server (loop_poll p)) = chain_config (pg_server p)"
proof -
  let ?s = "pg_server p"
  let ?r = "if loop_count ?s mod STN_STRATUM_CHAIN_POLL_TICKS = 0 then refresh_work ?s else ?s"
  have r: "srv_ok ?r" "accounts A ?r" "connections T ?r" "chain_config ?r = chain_config ?s"
    using assms connection.keeps_refresh [OF assms(1,3)] by (simp_all add: refresh_work_ok fds.keeps_poll poll_config)
  have loop: "pg_server (loop_poll p) = (send_pending_jobs ?r)\<lparr>loop_count := loop_count (send_pending_jobs ?r) + 1\<rparr>"
    by (simp add: loop_poll_def Let_def)
  show "srv_ok (pg_server (loop_poll p))"
    unfolding loop by (rule srv_ok_same [OF send_pending_jobs_ok [OF r(1)]]) simp_all
  show "accounts A (pg_server (loop_poll p))"
    unfolding loop by (rule fds.same [OF fds.keeps_offers [OF r(2)]]) (simp add: fixed_part_def)
  show "connections T (pg_server (loop_poll p))"
    unfolding loop by (rule connection.same [OF connection.keeps_pendings [OF r(1,3)]]) simp_all
  show "chain_config (pg_server (loop_poll p)) = chain_config ?s"
    unfolding loop using r(4) by (simp add: poll_config)
qed

lemma removal_connections: "connections T (remove_all n s) = connections T s"
proof -
  have "chain_rpc (remove_all n s) = chain_rpc s"
    by (induction n s rule: remove_all.induct) (simp_all split: list.split)
  then show ?thesis using removal_config [of n s] by (simp add: connections_def)
qed

lemma close_rest_ok:
  assumes "closing_ok s"
  shows "closing_ok (close_rest s)" "chain_config (close_rest s) = chain_config s" "\<not> have_work (close_rest s)"
    "listening (close_rest s) STN_INVALID_SOCKET STN_INVALID_SOCKET"
  using assms
  by (auto simp: closing_ok_def close_rest_def Let_def listeners_close_def stn_mining_listener_close_def
      clear_work_def clear_client_jobs_def split: prod.splits if_splits)

lemma listeners_close_kept:
  "clients (listeners_close s) = clients s" "chain_rpc (listeners_close s) = chain_rpc s" "ops (listeners_close s) = ops s"
  "next_cid (listeners_close s) = next_cid s" "pool_accepts (listeners_close s) = pool_accepts s"
  "solo_accepts (listeners_close s) = solo_accepts s"
  by (simp_all add: listeners_close_def Let_def split: prod.split)

lemma close_rest_fds:
  assumes "accounts A s" "connections T s"
  shows "accounts A (close_rest s)" "connections T (close_rest s)"
    "tp_socket (transport_user (chain_rpc (close_rest s))) = STN_INVALID_SOCKET"
proof -
  have "server_fds (listeners_close s) = server_fds s"
    using listeners_close_fds [of s] listeners_close_gone [of s] by (simp add: server_fds_def listeners_close_kept socket_fds_def ac_simps)
  then have "accounts A (listeners_close s)" using assms(1) by (simp add: accounts_def ids_ok_def listeners_close_kept)
  then have "accounts A ((listeners_close s)\<lparr>chain_rpc := rpc\<rparr>)" for rpc
    by (rule fds.same) (simp add: fixed_part_def)
  note a = fds.clear [OF this]
  show "accounts A (close_rest s)" unfolding close_rest_def Let_def by (rule fds.same [OF a]) (simp add: fixed_part_def)
  show "connections T (close_rest s)" "tp_socket (transport_user (chain_rpc (close_rest s))) = STN_INVALID_SOCKET"
    using close_connections [OF assms(2)] assms(2)
    by (simp_all add: close_rest_def Let_def connections_def listeners_close_kept)
qed

lemma main_close_end_ok:
  assumes "program_ok m A T M p" "pg_phase p = Ph_Join code" "ty_main (pg_tel p) = Main_Closed"
  shows "program_ok m A T M (main_close_end code p)"
proof -
  have p: "closing_ok (pg_server p)" "balance m (pg_mem p) (owns (chain_config (pg_server p)))" "sys_ok M (pg_tel p)"
    "accounts A (pg_server p)" "connections T (pg_server p)" "log_phase_ok p"
    using assms by (simp_all add: program_ok_def server_phase_ok_def fds_ok_def)
  obtain cfg m' where close: "stn_chain_config_close (chain_config (close_rest (pg_server p))) (pg_mem p) = (cfg, m')" by fastforce
  have cfg: "cfg = []" "balance m m' 0"
    using close config_close_balance [of m "chain_config (pg_server p)" "pg_mem p" 0] p(2) close_rest_ok(2) [OF p(1)]
    by (simp_all add: stn_chain_config_close_def Let_def)
  let ?q = "main_close_end code p"
  have q: "pg_server ?q = (close_rest (pg_server p))\<lparr>chain_config := []\<rparr>" "pg_phase ?q = Ph_Exit code"
    "pg_mem ?q = m'" "pg_tel ?q = pg_tel p" "pg_log ?q = log_close (pg_log p)"
    using close cfg(1) by (simp_all add: main_close_end_def Let_def)
  note fds = close_rest_fds [OF p(4,5)]
  have "fds_ok A T ?q"
    using fds(1,2) unfolding fds_ok_def q by (simp add: accounts_def ids_ok_def server_fds_def connections_def)
  moreover have "server_phase_ok m ?q"
    using close_rest_ok [OF p(1)] cfg(2) fds(3) unfolding server_phase_ok_def q by (simp add: closing_ok_def)
  moreover have "log_phase_ok ?q" using p(6) unfolding log_phase_ok_def q by (simp add: log_close_def)
  ultimately show ?thesis using p(3) assms(3) unfolding program_ok_def tel_phase_ok_def q by simp
qed

lemma main_thread_ok:
  assumes "program_ok m A T M p" "tel_step (pg_tel p) x" "ty_main (pg_tel p) = Main_Loop \<Longrightarrow> ty_main x = Main_Loop"
  shows "program_ok m A T M (p\<lparr>pg_tel := x\<rparr>)"
proof -
  have sys: "sys_ok M (pg_tel p)" "sys_ok M x" using assms(1,2) by (auto simp: program_ok_def intro: sys_ok_step)
  have "tel_phase_ok (p\<lparr>pg_tel := x\<rparr>)"
    using assms(1,3) thread_phase [OF assms(2) sys(1)]
    by (cases "ty_main (pg_tel p)") (auto simp: program_ok_def tel_phase_ok_def split: main_phase.splits)
  then show ?thesis
    using assms(1) sys(2) by (simp add: program_ok_def server_phase_ok_def log_phase_ok_def fds_ok_def split: main_phase.splits)
qed

lemma thread_step_ok:
  assumes "thread_step started_at p q" "program_ok m A T M p"
  shows "program_ok m A T M q"
proof -
  have fds: "accounts A (pg_server p)" "connections T (pg_server p)" using assms(2) by (simp_all add: program_ok_def fds_ok_def)
  from assms(1) show ?thesis
  proof cases
    case (Main_Serve now)
    have p: "srv_ok (pg_server p)" "ty_main (pg_tel p) = Main_Loop" "tel_started (ty_service (pg_tel p))"
      "balance m (pg_mem p) (owns (chain_config (pg_server p)))" "sys_ok M (pg_tel p)"
      using assms(2) Main_Serve by (simp_all add: program_ok_def phase_defs)
    have "sys_ok M (pg_tel q)"
      using sys_ok_step [OF Publish_Begin [OF p(2)] p(5)] Main_Serve by (simp add: loop_serve_def Let_def)
    then show ?thesis
      using p serve_ok [OF p(1) fds] Main_Serve assms(2)
      by (simp add: program_ok_def phase_defs fds_ok_def loop_serve_def Let_def publish_begin_def serve_config)
  next
    case (Main_Thread x)
    then show ?thesis using main_thread_ok [OF assms(2)] by simp
  next
    case Main_Poll
    then have p: "srv_ok (pg_server p)" using assms(2) by (simp add: program_ok_def phase_defs)
    have "pg_tel q = pg_tel p" "pg_mem q = pg_mem p" "pg_log q = pg_log p" "pg_phase q = Ph_Loop"
      using Main_Poll by (simp_all add: loop_poll_def Let_def)
    then show ?thesis
      using assms(2) Main_Poll poll_ok [OF p fds] by (simp add: program_ok_def phase_defs fds_ok_def)
  next
    case Main_Leave
    then have p: "srv_ok (pg_server p)" "ty_main (pg_tel p) = Main_Loop" "tel_started (ty_service (pg_tel p))"
      "balance m (pg_mem p) (owns (chain_config (pg_server p)))" "sys_ok M (pg_tel p)" "log_phase_ok p"
      using assms(2) by (simp_all add: program_ok_def phase_defs)
    let ?s = "remove_all (length (clients (pg_server p))) (pg_server p)"
    have q: "pg_server q = ?s" "pg_tel q = close_begin (pg_tel p)" "pg_mem q = pg_mem p" "pg_log q = pg_log p"
      "pg_phase q = Ph_Join 0"
      using Main_Leave p(3) by (simp_all add: main_close_begin_def Let_def)
    have "closing_ok ?s" using remove_all_ok [OF p(1)] by (simp add: closing_ok_def srv_ok_def)
    moreover have "sys_ok M (close_begin (pg_tel p))" by (rule sys_ok_step [OF Close_Begin [OF p(2)] p(5)])
    moreover have "fds_ok A T q"
      using fds unfolding fds_ok_def q by (simp add: fds.keeps_removal removal_connections)
    moreover have "ty_main (close_begin (pg_tel p)) = Main_Join" by (simp add: close_begin_def)
    ultimately show ?thesis
      using p(4,6) unfolding program_ok_def server_phase_ok_def tel_phase_ok_def log_phase_ok_def q
      by (simp add: removal_config)
  next
    case (Main_Finish code)
    then show ?thesis using main_close_end_ok [OF assms(2)] by simp
  qed
qed

lemma signalled_ok: "program_ok m A T M p \<Longrightarrow> program_ok m A T M (signalled p)"
proof -
  assume p: "program_ok m A T M p"
  have "srv_ok s \<Longrightarrow> srv_ok (s\<lparr>running := False\<rparr>)" for s :: "'a server" by (rule srv_ok_same) simp_all
  then show ?thesis
    using p fds.stop [of A "pg_server p"]
    by (auto simp: program_ok_def phase_defs fds_ok_def connections_def signalled_def signal_control_def stn_stratum_server_stop_def
        split: main_phase.splits)
qed

lemma main_step_ok: "main_step started_at p q \<Longrightarrow> program_ok m A T M p \<Longrightarrow> program_ok m A T M q"
  by (induction rule: main_step.induct) (auto intro: thread_step_ok signalled_ok)

lemma main_steps_ok: "(main_step started_at)\<^sup>*\<^sup>* p q \<Longrightarrow> program_ok m A T M p \<Longrightarrow> program_ok m A T M q"
  by (induction rule: rtranclp_induct) (auto intro: main_step_ok)

lemma thread_steps_ok: "(thread_step started_at)\<^sup>*\<^sup>* p q \<Longrightarrow> program_ok m A T M p \<Longrightarrow> program_ok m A T M q"
  by (rule main_steps_ok [OF threads_steps])

section \<open>After the start\<close>

text \<open>A telemetry service that was never started, or could not be.\<close>

definition tel_rest :: "tel_service \<Rightarrow> bool" where
  "tel_rest t \<longleftrightarrow> tel_ok t \<and> \<not> tel_started t \<and> \<not> tel_running t \<and> tel_sequence t = 0 \<and> tel_snap t = snapshot_zero"

lemma tel_rest_init: "tel_rest (stn_telemetry_service_init port accepts tmem)"
  by (simp add: tel_rest_def tel_ok_def stn_telemetry_service_init_def)

lemma tel_rest_open:
  assumes "stn_telemetry_service_open e3 thread_ok t = (False, t')" "tel_rest t"
  shows "tel_rest t'"
  using assms
  by (auto simp: stn_telemetry_service_open_def tel_rest_def tel_ok_def tel_close_fd_def Let_def split: if_splits)

lemma rest_closed:
  assumes "tel_rest t"
  shows "sys_ok (all_fds t) ((tel_start t)\<lparr>ty_worker := Work_Exit, ty_service := tel_close_finish t, ty_main := Main_Closed\<rparr>)"
  using assms close_finish_post [of t] close_finish_snapshot [of t]
  by (simp add: tel_rest_def sys_ok_def service_ok_def threads_ok_def seq_ok_def read_ok_def publishing_def
      published_count_def snapshot_at_def tel_start_def)

lemma start_fault: "fault (snd (server_start log_ok loaded e1 e2 tel s)) = fault s"
  by (auto simp: start_defs split: option.split prod.split)

lemma program_start_parts:
  assumes "program_start log_ok file e1 e2 e3 thread_ok (stn_stratum_server_init tops u rmem mem pool solo)
      (stn_telemetry_service_init port accepts tmem) m = (started, s, t, m')"
  shows "\<not> fault s" and "started \<Longrightarrow> srv_ok s"
    and "started \<Longrightarrow> stn_telemetry_service_open e3 thread_ok (stn_telemetry_service_init port accepts tmem) = (True, t)"
    and "\<not> started \<Longrightarrow> tel_rest t"
proof -
  let ?i = "stn_stratum_server_init tops u rmem mem pool solo"
  let ?t = "stn_telemetry_service_init port accepts tmem"
  have i: "\<not> fault ?i" by (simp add: stn_stratum_server_init_def)
  obtain loaded cfg m1 where load: "stn_chain_config_load (Some (chain_config ?i)) (Some file) m = (loaded, cfg, m1)"
    by (rule prod_cases3)
  obtain ok t1 where tel: "stn_telemetry_service_open e3 thread_ok ?t = (ok, t1)" by fastforce
  obtain st s1 where srv: "server_start True cfg e1 e2 ok ?i = (st, s1)" by fastforce
  note parts = assms [unfolded program_start_def load]
  show "\<not> fault s"
    using parts i start_fault [of True cfg e1 e2 True ?i] start_fault [of True cfg e1 e2 ok ?i]
    by (auto simp: tel srv split: if_splits)
  show "started \<Longrightarrow> srv_ok s"
    using parts srv by (auto simp: tel intro: server_start_ok split: if_splits)
  show "started \<Longrightarrow> stn_telemetry_service_open e3 thread_ok ?t = (True, t)"
    using parts srv server_start_reached [of _ e1 e2 tops u rmem mem pool solo ok st s1]
    by (cases cfg) (auto simp: tel server_start_def split: if_splits)
  show "\<not> started \<Longrightarrow> tel_rest t"
    using parts srv server_start_reached [of _ e1 e2 tops u rmem mem pool solo ok st s1]
      tel_rest_init [of port accepts tmem] tel_rest_open [of e3 thread_ok ?t t1]
    by (cases cfg; cases ok) (auto simp: tel server_start_def split: if_splits)
qed

text \<open>What starting the server leaves alone, and where its descriptors are after it.\<close>

lemma server_start_accepts:
  "pool_accepts (snd (server_start log_ok loaded e1 e2 tel s)) = pool_accepts s \<and>
   solo_accepts (snd (server_start log_ok loaded e1 e2 tel s)) = solo_accepts s"
  by (auto simp: start_defs split: option.split prod.split)

lemma program_start_server:
  assumes "program_start log_ok file e1 e2 e3 thread_ok s t m = (started, s', t', m')"
  shows "s' = s \<or> (\<exists>cfg ok. s' = snd (server_start True cfg e1 e2 ok s))"
  using assms by (auto simp: program_start_def split: if_splits prod.splits) (metis snd_conv)

lemma program_start_accounts:
  assumes "program_start log_ok file e1 e2 e3 thread_ok (stn_stratum_server_init linux_ops (zero_transport r) rmem mem pool solo)
      (stn_telemetry_service_init port accepts tmem) m = (started, s, t, m')"
  shows "connections (transport_fds (zero_transport r)) s" "ids_ok s"
    "server_fds s = mset (closed_fds s) + socket_fds (ls_socket (pool_listener s)) + socket_fds (ls_socket (solo_listener s)) +
       mset (conn_fds pool) + mset (conn_fds solo)"
proof -
  let ?i = "stn_stratum_server_init linux_ops (zero_transport r) rmem mem pool solo"
  have i: "connections (transport_fds (zero_transport r)) ?i" "pool_accepts ?i = pool" "solo_accepts ?i = solo"
    by (simp_all add: connections_def stn_stratum_server_init_def)
  show "connections (transport_fds (zero_transport r)) s"
    using program_start_server [OF assms] start_connections [OF i(1)] i(1) by metis
  have "pool_accepts s = pool" "solo_accepts s = solo"
    using program_start_server [OF assms] server_start_accepts [of True _ e1 e2 _ ?i] i(2,3) by metis+
  moreover have "clients s = []" using program_start_outcome_aux [OF assms] by simp
  ultimately show "ids_ok s" "server_fds s = mset (closed_fds s) + socket_fds (ls_socket (pool_listener s)) +
      socket_fds (ls_socket (solo_listener s)) + mset (conn_fds pool) + mset (conn_fds solo)"
    by (simp_all add: ids_ok_def server_fds_def client_fds_def)
qed

lemma program_start_tel_fds:
  assumes "program_start log_ok file e1 e2 e3 thread_ok s (stn_telemetry_service_init port accepts tmem) m = (started, s', t, m')"
  shows "all_fds t = mset (tel_closed t) + socket_fds (tel_listen t) + mset (fds_of accepts)"
proof -
  let ?t = "stn_telemetry_service_init port accepts tmem"
  have "t = ?t \<or> (\<exists>ok. stn_telemetry_service_open e3 thread_ok ?t = (ok, t))"
    using assms by (auto simp: program_start_def split: if_splits prod.splits)
  then have "tel_clients t = [] \<and> tel_accepts t = accepts"
    by (auto simp: stn_telemetry_service_open_def stn_telemetry_service_init_def tel_close_fd_def Let_def split: if_splits)
  then show ?thesis by (simp add: all_fds_def tel_fds_def socket_fds_def)
qed

lemma close_at_rest_ok:
  assumes "tel_rest t" "clients s = []" "\<not> fault s" "balance m m' (owns (chain_config s))"
    and "ids_ok s" "connections T s" "lg_handles l = (if lg_file l then 1 else 0)"
  shows "program_ok m (server_fds s) T (all_fds t) (main_close_begin 1 (program_at_rest s t m' l))"
  using assms rest_closed [OF assms(1)]
  by (simp add: main_close_begin_def program_at_rest_def program_ok_def phase_defs fds_ok_def accounts_def Let_def)
    (simp add: tel_rest_def tel_start_def)

abbreviation (input) "run_start sigint_ok sigterm_ok fopen_ok file e1 e2 e3 thread_ok r rmem mem pool solo port accepts tmem m \<equiv>
  main_start sigint_ok sigterm_ok fopen_ok file e1 e2 e3 thread_ok
    (stn_stratum_server_init linux_ops (zero_transport r) rmem mem pool solo)
    (stn_telemetry_service_init port accepts tmem) m log_zero"

text \<open>
  The descriptors that \<^verbatim>\<open>accept\<close> is still to return on the three listeners, and those that \<^verbatim>\<open>socket\<close> returns to the start,
  if it comes to its listeners.
\<close>

definition accept_fds :: "accept_event list \<Rightarrow> accept_event list \<Rightarrow> tel_accept list \<Rightarrow> int multiset" where
  "accept_fds pool solo accepts = mset (conn_fds pool) + mset (conn_fds solo) + mset (fds_of accepts)"

definition listen_fds :: "bool \<Rightarrow> u16 \<Rightarrow> open_env \<Rightarrow> open_env \<Rightarrow> open_env \<Rightarrow> int multiset" where
  "listen_fds reached port e1 e2 e3 = (if reached then start_sockets port e1 e2 e3 else {#})"

lemma main_start_ok:
  "\<exists>A M. program_ok m A (transport_fds (zero_transport r)) M
      (run_start sigint_ok sigterm_ok fopen_ok file e1 e2 e3 thread_ok r rmem mem pool solo port accepts tmem m) \<and>
    (- 1 \<le> oe_socket e1 \<and> - 1 \<le> oe_socket e2 \<longrightarrow>
      A + M = listen_fds (sigint_ok \<and> sigterm_ok \<and> fopen_ok \<and> fst (stn_chain_config_load (Some []) (Some file) m)) port e1 e2 e3 +
        accept_fds pool solo accepts)"
proof -
  let ?i = "stn_stratum_server_init linux_ops (zero_transport r) rmem mem pool solo"
  let ?t = "stn_telemetry_service_init port accepts tmem"
  let ?p = "run_start sigint_ok sigterm_ok fopen_ok file e1 e2 e3 thread_ok r rmem mem pool solo port accepts tmem m"
  have i: "clients ?i = []" "\<not> fault ?i" "balance m m (owns (chain_config ?i))" "ids_ok ?i"
    "connections (transport_fds (zero_transport r)) ?i"
    by (simp_all add: stn_stratum_server_init_def owns_def balance_def ids_ok_def connections_def)
  have fds0: "server_fds ?i + all_fds ?t = accept_fds pool solo accepts"
    by (simp add: server_fds_def stn_stratum_server_init_def stn_mining_listener_init_def client_fds_def socket_fds_def
        all_fds_def tel_fds_def stn_telemetry_service_init_def accept_fds_def)
  obtain log_ok l where log: "log_open fopen_ok log_zero = (log_ok, l)" by fastforce
  then have l: "log_ok = fopen_ok" "lg_handles l = (if lg_file l then 1 else 0)" "lg_handles log_zero = (if lg_file log_zero then 1 else 0)"
    by (auto simp: log_open_def log_zero_def split: if_splits)
  obtain started s t m' where start: "program_start log_ok file e1 e2 e3 thread_ok ?i ?t m = (started, s, t, m')"
    by (metis prod.collapse)
  note outcome = program_start_outcome_aux [OF start]
  have bal: "balance m m' (owns (chain_config s))" "clients s = []" using outcome by (simp_all add: balance_def)
  note parts = program_start_parts [OF start]
  note acc = program_start_accounts [OF start]
  have fds: "server_fds s + all_fds t =
      listen_fds (fopen_ok \<and> fst (stn_chain_config_load (Some []) (Some file) m)) port e1 e2 e3 + accept_fds pool solo accepts"
    if "- 1 \<le> oe_socket e1" "- 1 \<le> oe_socket e2"
    using program_start_fds [OF that start] unfolding acc(3) accept_fds_def listen_fds_def l(1) program_start_tel_fds [OF start]
    by (simp add: ac_simps)
  have handlers: "install_signal_handlers a b = (a \<and> b)" for a b
    by (simp add: install_signal_handlers_def)
  consider "\<not> (sigint_ok \<and> sigterm_ok)" | "sigint_ok \<and> sigterm_ok" "\<not> started" | "sigint_ok \<and> sigterm_ok" started by blast
  then show ?thesis
  proof cases
    case 1
    then have "program_ok m (server_fds ?i) (transport_fds (zero_transport r)) (all_fds ?t) ?p"
      using close_at_rest_ok [OF tel_rest_init i l(3)] by (simp add: main_start_def handlers)
    then show ?thesis using fds0 1 by (intro exI [of _ "server_fds ?i"] exI [of _ "all_fds ?t"]) (auto simp: listen_fds_def)
  next
    case 2
    then have "program_ok m (server_fds s) (transport_fds (zero_transport r)) (all_fds t) ?p"
      using close_at_rest_ok [OF parts(4) bal(2) parts(1) bal(1) acc(2,1) l(2)] start log by (simp add: main_start_def handlers)
    then show ?thesis using fds 2(1) by (intro exI [of _ "server_fds s"] exI [of _ "all_fds t"]) simp
  next
    case 3
    have "tel_started t" using outcome 3(2) by simp
    have sys: "sys_ok (mset (fds_of accepts) + {#oe_socket e3#}) (tel_start t)" by (rule sys_ok_open [OF parts(3) [OF 3(2)]])
    then have "all_fds t = mset (fds_of accepts) + {#oe_socket e3#}" by (simp add: sys_ok_def service_ok_def tel_start_def)
    with sys have "program_ok m (server_fds s) (transport_fds (zero_transport r)) (all_fds t)
        ((program_at_rest s t m' l)\<lparr>pg_tel := tel_start t\<rparr>)"
      using parts(2) [OF 3(2)] bal acc(1,2) l(2) \<open>tel_started t\<close>
      by (simp add: program_ok_def phase_defs fds_ok_def accounts_def program_at_rest_def) (simp add: tel_start_def)
    moreover have "?p = (program_at_rest s t m' l)\<lparr>pg_tel := tel_start t\<rparr>"
      using 3 start log by (simp add: main_start_def handlers)
    ultimately show ?thesis using fds 3(1) by (intro exI [of _ "server_fds s"] exI [of _ "all_fds t"]) simp
  qed
qed

text \<open>The exit code is 0 exactly when the loop was entered.\<close>

definition code_ok :: "bool \<Rightarrow> 'u program \<Rightarrow> bool" where
  "code_ok started p \<longleftrightarrow>
     (case pg_phase p of
        Ph_Join code \<Rightarrow> code = (if started then 0 else 1)
      | Ph_Exit code \<Rightarrow> code = (if started then 0 else 1)
      | _ \<Rightarrow> started)"

lemma code_ok_thread: "thread_step started_at p q \<Longrightarrow> code_ok started p \<Longrightarrow> code_ok started q"
  by (erule thread_stepE)
    (auto simp: code_ok_def loop_serve_def loop_poll_def main_close_begin_def main_close_end_def Let_def
      split: main_phase.splits prod.splits)

lemma code_ok_step: "main_step started_at p q \<Longrightarrow> code_ok started p \<Longrightarrow> code_ok started q"
  by (induction rule: main_step.induct) (auto simp: code_ok_thread, simp add: code_ok_def signalled_def)

lemma code_ok_steps: "(main_step started_at)\<^sup>*\<^sup>* p q \<Longrightarrow> code_ok started p \<Longrightarrow> code_ok started q"
  by (induction rule: rtranclp_induct) (auto intro: code_ok_step)

lemma code_ok_start:
  "code_ok (pg_phase p = Ph_Loop) p" if "p = main_start sigint_ok sigterm_ok fopen_ok file e1 e2 e3 thread_ok s t m l"
  using that
  by (auto simp: main_start_def main_close_begin_def program_at_rest_def code_ok_def Let_def split: prod.splits if_splits)

section \<open>Reaching the exit\<close>

text \<open>The main thread ends a publication without the worker.\<close>

lemma publish_done:
  assumes "ty_main (pg_tel p) = Main_Publish q ws st"
  shows "\<exists>x. (thread_step started_at)\<^sup>*\<^sup>* p (p\<lparr>pg_tel := x\<rparr>) \<and> ty_main x = Main_Loop"
  using assms
proof (induction ws arbitrary: p)
  case Nil
  have "thread_step started_at p (p\<lparr>pg_tel := publish_end q st (pg_tel p)\<rparr>)"
    by (rule Main_Thread [OF Publish_End [OF Nil]]) (simp add: publish_end_def)
  then show ?case by (auto simp: publish_end_def intro!: exI [of _ "publish_end q st (pg_tel p)"])
next
  case (Cons w ws)
  let ?x = "(pg_tel p)\<lparr>ty_service := (ty_service (pg_tel p))\<lparr>tel_snap := w (tel_snap (ty_service (pg_tel p)))\<rparr>,
      ty_main := Main_Publish q ws st\<rparr>"
  have "thread_step started_at p (p\<lparr>pg_tel := ?x\<rparr>)"
    by (rule Main_Thread [OF Publish_Write [OF Cons.prems]]) (simp add: Cons.prems)
  with Cons.IH [of "p\<lparr>pg_tel := ?x\<rparr>"] show ?case by (auto intro: converse_rtranclp_into_rtranclp)
qed

text \<open>Past the loop every step of the threads is one of the main program's.\<close>

lemma threads_lift:
  assumes "tel_step\<^sup>*\<^sup>* x y" "sys_ok M x" "ty_main x \<in> {Main_Join, Main_Closed}" "pg_tel p = x"
  shows "(thread_step started_at)\<^sup>*\<^sup>* p (p\<lparr>pg_tel := y\<rparr>) \<and> ty_main y \<in> {Main_Join, Main_Closed}"
  using assms(1)
proof (induction rule: rtranclp_induct)
  case base
  then show ?case using assms(3,4) by (metis (no_types, lifting) program.surjective program.update_convs(2) rtranclp.rtrancl_refl)
next
  case (step y z)
  have "sys_ok M y" by (rule sys_ok_steps [OF step.hyps(1) assms(2)])
  then have z: "ty_main z \<in> {Main_Join, Main_Closed}"
    using thread_phase [OF step.hyps(2)] step.IH by auto
  have "thread_step started_at (p\<lparr>pg_tel := y\<rparr>) ((p\<lparr>pg_tel := y\<rparr>)\<lparr>pg_tel := z\<rparr>)"
    using step.hyps(2) step.IH by (intro Main_Thread) auto
  then show ?case using step.IH z by (auto intro: rtranclp.rtrancl_into_rtrancl)
qed

text \<open>A worker that is told to end leaves its loop, wherever it is.\<close>

definition told :: "int multiset \<Rightarrow> tel_sys \<Rightarrow> bool" where
  "told M x \<longleftrightarrow> sys_ok M x \<and> ty_main x = Main_Join"

lemma told_facts:
  assumes "told M x"
  shows "\<not> tel_running (ty_service x)" "tel_sequence (ty_service x) AND 1 = 0" "tel_ok (ty_service x)"
proof -
  have "seq_ok x" "service_ok M x" "ty_main x = Main_Join" using assms by (simp_all add: told_def sys_ok_def)
  then show "\<not> tel_running (ty_service x)" "tel_ok (ty_service x)" "tel_sequence (ty_service x) AND 1 = 0"
    using odd_word(2) [of "published_count x"]
    by (simp_all add: service_ok_def threads_ok_simps seq_ok_def publishing_def del: of_nat_mult)
qed

lemma told_step: "told M x \<Longrightarrow> tel_step x y \<Longrightarrow> ty_main y = Main_Join \<Longrightarrow> told M y"
  by (auto simp: told_def intro: sys_ok_step)

definition can_end :: "tel_sys \<Rightarrow> bool" where
  "can_end x \<longleftrightarrow> (\<exists>y. tel_step\<^sup>*\<^sup>* x y \<and> ty_main y = Main_Join \<and> ty_worker y = Work_Exit)"

lemma can_end_step: "tel_step x y \<Longrightarrow> can_end y \<Longrightarrow> can_end x"
  unfolding can_end_def by (meson converse_rtranclp_into_rtranclp)

lemma can_end_head:
  assumes "told M x" "ty_worker x = Work_Head"
  shows "can_end x"
proof (rule can_end_step [OF Worker_Head [OF assms(2)]])
  show "can_end (x\<lparr>ty_worker := if tel_running (ty_service x) then Work_Before else Work_Exit\<rparr>)"
    using assms told_facts(1) [OF assms(1)] by (auto simp: can_end_def told_def)
qed

lemma can_end_have:
  assumes "told M x" "ty_worker x = Work_Have k j l"
  shows "can_end x"
proof (rule can_end_step [OF Worker_Serve [OF assms(2), of 0]], rule can_end_head)
  show "told M (x\<lparr>ty_service := network_tick l 0 (ty_service x), ty_worker := Work_Head\<rparr>)"
    using assms(1) by (rule told_step [OF _ Worker_Serve [OF assms(2)]]) (use assms(1) in \<open>simp add: told_def\<close>)
qed simp

text \<open>A copy leads to \<open>Work_Have\<close> or back to the first load; with the current number, to \<open>Work_Have\<close>.\<close>

lemma can_end_copy:
  assumes "told M x" "ty_worker x = Work_Copy b k cs l"
    and again: "b \<noteq> tel_sequence (ty_service x) \<Longrightarrow> (\<And>y. told M y \<Longrightarrow> ty_worker y = Work_Before \<Longrightarrow> can_end y)"
  shows "can_end x"
  using assms
proof (induction cs arbitrary: x l)
  case Nil
  let ?y = "x\<lparr>ty_worker := read_after b k l x\<rparr>"
  have step: "tel_step x ?y" by (rule Read_After [OF Nil.prems(2)])
  have y: "told M ?y" using Nil.prems(1) by (rule told_step [OF _ step]) (use Nil.prems(1) in \<open>simp add: told_def\<close>)
  have "can_end ?y"
  proof (cases "b = tel_sequence (ty_service x)")
    case True
    then show ?thesis
      using told_facts(2) [OF Nil.prems(1)] by (intro can_end_have [OF y]) (simp add: read_after_def Let_def)
  next
    case False
    show ?thesis by (rule Nil.prems(3) [OF False y]) (use False in \<open>simp add: read_after_def Let_def\<close>)
  qed
  then show ?case by (rule can_end_step [OF step])
next
  case (Cons c cs)
  let ?y = "x\<lparr>ty_worker := Work_Copy b k cs (c (tel_snap (ty_service x)) l)\<rparr>"
  have step: "tel_step x ?y" by (rule Read_Field [OF Cons.prems(2)])
  have y: "told M ?y" using Cons.prems(1) by (rule told_step [OF _ step]) (use Cons.prems(1) in \<open>simp add: told_def\<close>)
  have "can_end ?y"
  proof (rule Cons.IH [OF y])
    show "can_end z" if "b \<noteq> tel_sequence (ty_service ?y)" "told M z" "ty_worker z = Work_Before" for z
      by (rule Cons.prems(3)) (use that in simp_all)
  qed simp
  then show ?case by (rule can_end_step [OF step])
qed

lemma can_end_before:
  assumes "told M x" "ty_worker x = Work_Before"
  shows "can_end x"
proof (rule can_end_step [OF Read_Before [OF assms(2), of snapshot_zero]])
  let ?y = "x\<lparr>ty_worker := read_before snapshot_zero x\<rparr>"
  have "told M ?y"
    using assms(1) by (rule told_step [OF _ Read_Before [OF assms(2)]]) (use assms(1) in \<open>simp add: told_def\<close>)
  then show "can_end ?y"
    by (rule can_end_copy [of M _ "tel_sequence (ty_service x)" "published_count x" snapshot_copies snapshot_zero])
      (use told_facts(2) [OF assms(1)] in \<open>simp_all add: read_before_def Let_def\<close>)
qed

lemma worker_ends: "told M x \<Longrightarrow> can_end x"
proof (cases "ty_worker x")
  case Work_Exit
  then show "told M x \<Longrightarrow> can_end x" by (auto simp: told_def can_end_def)
qed (auto intro: can_end_head can_end_before can_end_copy can_end_have)

lemma join_done:
  assumes "told M x"
  shows "\<exists>y. tel_step\<^sup>*\<^sup>* x y \<and> ty_main y = Main_Closed"
proof -
  obtain y where y: "tel_step\<^sup>*\<^sup>* x y" "ty_main y = Main_Join" "ty_worker y = Work_Exit"
    using worker_ends [OF assms] by (auto simp: can_end_def)
  have "tel_step y (close_end y)" by (rule Close_End [OF y(2,3)])
  then show ?thesis using y(1) by (intro exI [of _ "close_end y"]) (auto simp: close_end_def)
qed

abbreviation (input) "can_exit started_at p \<equiv> \<exists>q code. (thread_step started_at)\<^sup>*\<^sup>* p q \<and> pg_phase q = Ph_Exit code"

lemma can_exit_steps: "(thread_step started_at)\<^sup>*\<^sup>* p r \<Longrightarrow> can_exit started_at r \<Longrightarrow> can_exit started_at p"
  by (meson rtranclp_trans)

lemma closed_exits:
  assumes "pg_phase p = Ph_Join code" "ty_main (pg_tel p) = Main_Closed"
  shows "can_exit started_at p"
  using Main_Finish [OF assms, of started_at]
  by (intro exI [of _ "main_close_end code p"] exI [of _ code]) (auto simp: main_close_end_def Let_def split: prod.split)

lemma join_exits:
  assumes "program_ok m A T M p" "pg_phase p = Ph_Join code"
  shows "can_exit started_at p"
proof (cases "ty_main (pg_tel p) = Main_Closed")
  case True
  then show ?thesis using assms(2) by (rule closed_exits [rotated])
next
  case False
  then have join: "ty_main (pg_tel p) = Main_Join" "sys_ok M (pg_tel p)"
    using assms by (auto simp: program_ok_def tel_phase_ok_def)
  then obtain y where y: "tel_step\<^sup>*\<^sup>* (pg_tel p) y" "ty_main y = Main_Closed"
    using join_done [of M "pg_tel p"] by (auto simp: told_def)
  have "(thread_step started_at)\<^sup>*\<^sup>* p (p\<lparr>pg_tel := y\<rparr>)"
    using threads_lift [OF y(1) join(2) _ refl] join(1) by simp
  then show ?thesis by (rule can_exit_steps, intro closed_exits [where code = code]) (simp_all add: assms(2) y(2))
qed

lemma stopped_exits:
  assumes "program_ok m A T M p" "pg_phase p = Ph_Loop" "\<not> running (pg_server p)"
  shows "can_exit started_at p"
proof -
  have leave: "thread_step started_at p (main_close_begin 0 p)" by (rule Main_Leave [OF assms(2,3)])
  have exit: "can_exit started_at (main_close_begin 0 p)"
    by (rule join_exits [OF thread_step_ok [OF leave assms(1)], where code = 0]) (simp add: main_close_begin_def Let_def)
  have "(thread_step started_at)\<^sup>*\<^sup>* p (main_close_begin 0 p)" using leave by (rule r_into_rtranclp)
  then show ?thesis using exit by (rule can_exit_steps)
qed

text \<open>A program that was told to stop comes to its exit without another signal.\<close>

lemma program_exits:
  assumes "program_ok m A T M p" "\<not> running (pg_server p)"
  shows "can_exit started_at p"
proof (cases "pg_phase p")
  case Ph_Publish
  have "\<exists>x. (thread_step started_at)\<^sup>*\<^sup>* p (p\<lparr>pg_tel := x\<rparr>) \<and> ty_main x = Main_Loop"
  proof (cases "ty_main (pg_tel p)")
    case Main_Loop
    then show ?thesis by (intro exI [of _ "pg_tel p"]) simp
  next
    case (Main_Publish q ws st)
    then show ?thesis by (rule publish_done)
  qed (use assms Ph_Publish in \<open>simp_all add: program_ok_def tel_phase_ok_def\<close>)
  then obtain x where x: "(thread_step started_at)\<^sup>*\<^sup>* p (p\<lparr>pg_tel := x\<rparr>)" "ty_main x = Main_Loop" by blast
  let ?q = "loop_poll (p\<lparr>pg_tel := x\<rparr>)"
  have "thread_step started_at (p\<lparr>pg_tel := x\<rparr>) ?q" by (rule Main_Poll) (simp_all add: Ph_Publish x(2))
  then have steps: "(thread_step started_at)\<^sup>*\<^sup>* p ?q" using x(1) by auto
  have "pg_phase ?q = Ph_Loop" by (simp add: loop_poll_def Let_def)
  moreover have "\<not> running (pg_server ?q)" by (rule poll_stopped) (simp add: assms(2))
  ultimately have "can_exit started_at ?q" by (rule stopped_exits [OF thread_steps_ok [OF steps assms(1)]])
  with steps show ?thesis by (rule can_exit_steps)
qed (use assms stopped_exits join_exits in \<open>blast+\<close>)

section \<open>What the program guarantees\<close>

text \<open>
  C27. The program ends cleanly. In every state that it can reach, however the main thread,
  the telemetry worker and signals interleave and whatever the environment does, no freed miner or HTTP
  client was read. When \<open>main\<close> returns, it returns 0 exactly if the main loop was entered; the worker has ended, every
  block that loading the configuration allocated has been released, no file is open, the log is closed; no miner, no
  HTTP client and no Chain server is connected, and no socket listens. The account of the descriptors says that these
  were closed: of those that \<^verbatim>\<open>socket\<close> and \<^verbatim>\<open>accept\<close> ever returned to the server and to the telemetry service every one has
  been closed, once, and so has every one that connecting to a Chain server created, and descriptor 0.
\<close>

theorem program_exit_clean:
  assumes "p0 = run_start sigint_ok sigterm_ok fopen_ok file e1 e2 e3 thread_ok r rmem mem pool solo port accepts tmem m"
    and "(main_step started_at)\<^sup>*\<^sup>* p0 p"
  shows "\<not> fault (pg_server p) \<and> \<not> tel_fault (ty_service (pg_tel p)) \<and> cm_files (pg_mem p) = cm_files m \<and>
    (\<forall>code. pg_phase p = Ph_Exit code \<longrightarrow>
      (let s = pg_server p; t = ty_service (pg_tel p); u = transport_user (chain_rpc s) in
       code = (if pg_phase p0 = Ph_Loop then 0 else 1) \<and> cm_live (pg_mem p) = cm_live m \<and>
       \<not> lg_file (pg_log p) \<and> lg_handles (pg_log p) = 0 \<and> ty_worker (pg_tel p) = Work_Exit \<and>
       clients s = [] \<and> listening s STN_INVALID_SOCKET STN_INVALID_SOCKET \<and>
       tel_clients t = [] \<and> tel_listen t = STN_INVALID_SOCKET \<and> tp_socket u = STN_INVALID_SOCKET \<and>
       valid_fds (tp_closed u @ resolve_fds (tp_resolve u)) = {#0#} + valid_fds (resolve_fds r) \<and>
       (- 1 \<le> oe_socket e1 \<and> - 1 \<le> oe_socket e2 \<longrightarrow>
         mset (closed_fds s) + mset (tel_closed t) +
           accept_fds (pool_accepts s) (solo_accepts s) (tel_accepts t) =
         listen_fds (sigint_ok \<and> sigterm_ok \<and> fopen_ok \<and> fst (stn_chain_config_load (Some []) (Some file) m)) port e1 e2 e3 +
           accept_fds pool solo accepts)))"
proof -
  let ?total = "listen_fds (sigint_ok \<and> sigterm_ok \<and> fopen_ok \<and> fst (stn_chain_config_load (Some []) (Some file) m)) port e1 e2 e3 +
    accept_fds pool solo accepts"
  have "\<exists>A M. program_ok m A (transport_fds (zero_transport r)) M p0 \<and>
      (- 1 \<le> oe_socket e1 \<and> - 1 \<le> oe_socket e2 \<longrightarrow> A + M = ?total)"
    unfolding assms(1) by (rule main_start_ok)
  then obtain A M where p0: "program_ok m A (transport_fds (zero_transport r)) M p0"
    and total: "- 1 \<le> oe_socket e1 \<and> - 1 \<le> oe_socket e2 \<longrightarrow> A + M = ?total" by blast
  have ok: "program_ok m A (transport_fds (zero_transport r)) M p" by (rule main_steps_ok [OF assms(2) p0])
  have code: "code_ok (pg_phase p0 = Ph_Loop) p" by (rule code_ok_steps [OF assms(2) code_ok_start [OF assms(1)]])
  have server: "\<not> fault (pg_server p)" "cm_files (pg_mem p) = cm_files m"
    using ok by (auto simp: program_ok_def phase_defs srv_ok_def balance_def split: main_phase.splits)
  have tel: "\<not> tel_fault (ty_service (pg_tel p))" "threads_ok (pg_tel p)" "all_fds (ty_service (pg_tel p)) = M"
    using ok by (simp_all add: program_ok_def sys_ok_def service_ok_def tel_ok_def)
  have exit: "code = (if pg_phase p0 = Ph_Loop then 0 else 1)" "cm_live (pg_mem p) = cm_live m"
    "\<not> lg_file (pg_log p)" "lg_handles (pg_log p) = 0" "ty_worker (pg_tel p) = Work_Exit"
    "clients (pg_server p) = []" "listening (pg_server p) STN_INVALID_SOCKET STN_INVALID_SOCKET"
    "tel_clients (ty_service (pg_tel p)) = []" "tel_listen (ty_service (pg_tel p)) = STN_INVALID_SOCKET"
    "tp_socket (transport_user (chain_rpc (pg_server p))) = STN_INVALID_SOCKET" if "pg_phase p = Ph_Exit code" for code
    using that ok code tel(2)
    by (auto simp: program_ok_def phase_defs balance_def code_ok_def threads_ok_def)
  have chain: "transport_fds (transport_user (chain_rpc (pg_server p))) = transport_fds (zero_transport r)"
    and fds: "server_fds (pg_server p) = A"
    using ok by (simp_all add: program_ok_def fds_ok_def connections_def accounts_def)
  have connected: "valid_fds (tp_closed u @ resolve_fds (tp_resolve u)) = {#0#} + valid_fds (resolve_fds r)"
    if "tp_socket u = STN_INVALID_SOCKET" "transport_fds u = transport_fds (zero_transport r)" for u
    using that by (simp add: transport_fds_def valid_fds_def zero_transport_def)
  show ?thesis
    unfolding Let_def
    using server tel(1) exit chain
    by (intro conjI allI impI connected)
      (use total fds tel(3) in \<open>simp_all add: accept_fds_def server_fds_def all_fds_def tel_fds_def client_fds_def socket_fds_def ac_simps\<close>)
qed

text \<open>The sample file, and everything opens.\<close>

abbreviation (input) "sample_start \<equiv>
  run_start True True True sample_env sample_tel_open sample_tel_open sample_tel_open True [] [] [] [] [] 18476 [] [] sample_mem"

lemma sample_start_loop: "pg_phase sample_start = Ph_Loop"
proof -
  have load: "stn_chain_config_load (Some (chain_config (stn_stratum_server_init linux_ops (zero_transport []) [] [] [] [])))
      (Some sample_env) sample_mem = (True, Some [\<lparr>cfg_host = [0x61, 0x22], cfg_port = 80\<rparr>], sample_mem\<lparr>cm_live := 2\<rparr>)"
    using sample_load by (simp add: stn_stratum_server_init_def)
  show ?thesis
    unfolding main_start_def log_open_def program_start_def simp_thms if_True if_False prod.case load
    by (simp add: install_signal_handlers_def program_at_rest_def start_defs sample_tel_open_def
        stn_telemetry_service_open_def stn_telemetry_service_init_def)
qed

theorem program_exit_clean_witness:
  "\<exists>p. (main_step 0)\<^sup>*\<^sup>* sample_start p \<and> pg_phase p = Ph_Exit 0 \<and> cm_live (pg_mem p) = cm_live sample_mem \<and>
     tp_socket (transport_user (chain_rpc (pg_server p))) = STN_INVALID_SOCKET \<and> lg_handles (pg_log p) = 0"
proof -
  obtain A M where "program_ok sample_mem A (transport_fds (zero_transport [])) M sample_start"
    by (rule exE [OF main_start_ok]) (elim exE conjE, rule that)
  then have "program_ok sample_mem A (transport_fds (zero_transport [])) M (signalled sample_start)" by (rule signalled_ok)
  moreover have "\<not> running (pg_server (signalled sample_start))"
    by (simp add: signalled_def signal_control_def stn_stratum_server_stop_def)
  ultimately have "\<exists>q code. (thread_step 0)\<^sup>*\<^sup>* (signalled sample_start) q \<and> pg_phase q = Ph_Exit code"
    by (rule program_exits)
  then obtain p code where p: "(thread_step 0)\<^sup>*\<^sup>* (signalled sample_start) p" "pg_phase p = Ph_Exit code" by blast
  have "main_step 0 sample_start (signalled sample_start)" by (rule Main_Signal) (simp add: sample_start_loop)
  then have run: "(main_step 0)\<^sup>*\<^sup>* sample_start p" using threads_steps [OF p(1)] by (rule converse_rtranclp_into_rtranclp)
  from program_exit_clean [OF refl run] have "code = 0" "cm_live (pg_mem p) = cm_live sample_mem"
    "tp_socket (transport_user (chain_rpc (pg_server p))) = STN_INVALID_SOCKET" "lg_handles (pg_log p) = 0"
    using p(2) sample_start_loop by (simp_all add: Let_def)
  then show ?thesis using p(2) run by blast
qed

text \<open>
  C28. The program cannot hang where nothing could end it: in every state that it can reach one run of the signal
  handler is enough. From the state after it, steps of the two threads alone, with no other signal, lead to the return of
  \<open>main\<close>. In particular a worker that was told to stop leaves its loop from any point, also from the middle of a torn
  read.
\<close>

theorem program_can_exit:
  assumes "(main_step started_at)\<^sup>*\<^sup>*
      (run_start sigint_ok sigterm_ok fopen_ok file e1 e2 e3 thread_ok r rmem mem pool solo port accepts tmem m) p"
  shows "\<exists>q code. (thread_step started_at)\<^sup>*\<^sup>* (p\<lparr>pg_server := signal_control (pg_server p)\<rparr>) q \<and> pg_phase q = Ph_Exit code"
proof -
  obtain A T M where "program_ok m A T M
      (run_start sigint_ok sigterm_ok fopen_ok file e1 e2 e3 thread_ok r rmem mem pool solo port accepts tmem m)"
    by (rule exE [OF main_start_ok]) (elim exE conjE, rule that)
  then have "program_ok m A T M (signalled p)" by (rule signalled_ok [OF main_steps_ok [OF assms]])
  from program_exits [OF this] show ?thesis
    by (simp add: signalled_def signal_control_def stn_stratum_server_stop_def)
qed

theorem program_can_exit_witness:
  "\<exists>q code. (thread_step 0)\<^sup>*\<^sup>* (sample_start\<lparr>pg_server := signal_control (pg_server sample_start)\<rparr>) q \<and>
     pg_phase q = Ph_Exit code"
  by (rule program_can_exit) (rule rtranclp.rtrancl_refl)

section \<open>Standard input\<close>

definition untouched :: "transport \<Rightarrow> bool" where
  "untouched u \<longleftrightarrow> tp_socket u = 0 \<and> tp_closed u = []"

definition closed_once :: "transport \<Rightarrow> bool" where
  "closed_once u \<longleftrightarrow> tp_socket u = STN_INVALID_SOCKET \<and> tp_closed u = [0]"

lemmas transport_defs = untouched_def closed_once_def linux_ops_def zero_transport_def stn_rpc_linux_close_def
  stn_rpc_linux_init_def drop_socket_def stn_rpc_client_init_def

lemma start_transport:
  assumes "server_start True loaded e1 e2 tel (stn_stratum_server_init linux_ops (zero_transport r) rmem mem pool solo) = (ok, s)"
  shows "ops s = linux_ops \<and> (closed_once (transport_user (chain_rpc s)) \<or> \<not> ok \<and> untouched (transport_user (chain_rpc s)))"
  using assms
  by (auto simp: start_defs transport_defs split: option.splits if_splits)

lemma close_transport:
  assumes "ops s = linux_ops" "closed_once (transport_user (chain_rpc s)) \<or> untouched (transport_user (chain_rpc s))"
    "clients s = []"
  shows "tp_closed (transport_user (chain_rpc (pg_server (main_close_end code (main_close_begin 1 (program_at_rest s t m l)))))) = [0]"
proof -
  show ?thesis
    using assms listeners_close_kept(2,3) [of s]
    by (simp add: main_close_end_def main_close_begin_def program_at_rest_def close_rest_def Let_def split: prod.split)
      (auto simp: transport_defs)
qed

text \<open>
  C35. Starting the program closes descriptor 0, its standard input, which it never opened.
  \<open>stn_stratum_server_init\<close> clears the Chain transport with \<^verbatim>\<open>memset\<close>, which leaves its socket 0 and not
  the invalid one; the first selection of a Chain server, or \<open>stn_stratum_server_close\<close> when the start
  fails before it, closes that socket.
\<close>

theorem start_closes_stdin:
  "let p = run_start sigint_ok sigterm_ok fopen_ok file e1 e2 e3 thread_ok r rmem mem pool solo port accepts tmem m
   in case pg_phase p of
        Ph_Join code \<Rightarrow> tp_closed (transport_user (chain_rpc (pg_server (main_close_end code p)))) = [0]
      | _ \<Rightarrow> tp_closed (transport_user (chain_rpc (pg_server p))) = [0]"
proof -
  let ?i = "stn_stratum_server_init linux_ops (zero_transport r) rmem mem pool solo"
  let ?t = "stn_telemetry_service_init port accepts tmem"
  have i: "ops ?i = linux_ops" "untouched (transport_user (chain_rpc ?i))" "clients ?i = []"
    by (simp_all add: stn_stratum_server_init_def untouched_def zero_transport_def)
  obtain log_ok l where log: "log_open fopen_ok log_zero = (log_ok, l)" by fastforce
  obtain started s t m' where start: "program_start log_ok file e1 e2 e3 thread_ok ?i ?t m = (started, s, t, m')"
    by (metis prod.collapse)
  obtain loaded cfg m1 where load: "stn_chain_config_load (Some (chain_config ?i)) (Some file) m = (loaded, cfg, m1)"
    by (rule prod_cases3)
  obtain ok t1 where tel: "stn_telemetry_service_open e3 thread_ok ?t = (ok, t1)" by fastforce
  obtain st s1 where srv: "server_start True cfg e1 e2 ok ?i = (st, s1)" by fastforce
  obtain st0 s0 where srv0: "server_start True cfg e1 e2 True ?i = (st0, s0)" by fastforce
  have "(s = ?i \<and> \<not> started) \<or> (s = s0 \<and> \<not> st0 \<and> \<not> started) \<or> (s = s1 \<and> started = st)"
    using start [unfolded program_start_def load] by (auto simp: tel srv srv0 split: if_splits)
  then have s: "ops s = linux_ops" "closed_once (transport_user (chain_rpc s)) \<or> \<not> started \<and> untouched (transport_user (chain_rpc s))"
    using i start_transport [OF srv] start_transport [OF srv0] by auto
  have "clients s = []" using program_start_outcome_aux [OF start] by simp
  have phase: "pg_phase (main_close_begin code q) = Ph_Join code" for code and q :: "transport program"
    by (simp add: main_close_begin_def Let_def)
  show ?thesis
    using i s start log close_transport [OF i(1) _ i(3)] close_transport [OF s(1) _ \<open>clients s = []\<close>]
    by (auto simp: main_start_def Let_def phase program_at_rest_def closed_once_def)
qed

end
