(* ===== verification/Spec2Isabelle.thy ===== *)
theory Spec2Isabelle
  imports Miner_Job Share_Verify Sha_Eval Rpc_Client Sessions Rpc_Transport Stratum_Core Chain_Adapter
    Server_State Server_Work Server_Miner Server_Inv Server_Safe Server_Sample Server_Life Server_Input
    Server_Props Server_Parts Server_Chain Server_Keeps Server_Clients Miner_Stream Pool_Spec Server_Refines Chain_Requests Chain_Connections Chain_Config Config_Props Config_Text
    Text_Format Telemetry Telemetry_Page Page_Reader Telemetry_Client Telemetry_Service Telemetry_Threads Server_Status
    Server_Log Windows_Server Windows_Props Windows_Main Program_Main
begin

text \<open>
  STN-Stratum, the mining server of STN Chain: miners connect over TCP, get jobs and send nonces;
  the server gets its work from a Chain node over a framed RPC protocol and sends shares and blocks
  back. This development models the program's own logic and proves what makes it correct.

  \<^bold>\<open>Conventions.\<close> Bytes are \<^typ>\<open>8 word\<close>, fixed-width integers are words, sizes are naturals, a
  pointer that the code tests against NULL is an option, and a function that fails returns a result
  code, an option or a bool as in the code. A buffer is a list; \<^const>\<open>blit\<close> and \<^const>\<open>bytes_at\<close> are
  \<^verbatim>\<open>memcpy\<close> into and out of it. The environment is a script: the events that \<^verbatim>\<open>recv\<close>, \<^verbatim>\<open>send\<close>,
  \<^verbatim>\<open>accept\<close> and the resolver will return, and the outcomes of the allocator. A theorem about all
  scripts is about every behaviour of the environment. What a function logs is left out of its model.

  \<^bold>\<open>Theories.\<close>

  \<^item> \<^verbatim>\<open>Stn_Prelude\<close>, \<^verbatim>\<open>Byte_Codec\<close>: buffers, big-endian numbers, the accessors of \<^verbatim>\<open>stn_rpc_client.c\<close>,
    \<^verbatim>\<open>stn_chain_rpc_adapter.c\<close> and \<^verbatim>\<open>stn_stratum_server.c\<close> behind one interface (locale \<open>be_field\<close>).
  \<^item> \<^verbatim>\<open>Miner_Job\<close>: \<^verbatim>\<open>stn_miner_job.c\<close> and \<^verbatim>\<open>stn_miner_protocol.h\<close>, the share target and the JOB header; the
    server's second copy of the share target, with its own multiply loop, is proved equal to the first.
  \<^item> \<^verbatim>\<open>Share_Verify\<close>, \<^verbatim>\<open>Sha_Eval\<close>: \<^verbatim>\<open>stn_share_verify.c\<close>, streaming SHA-256 and the classification of a
    nonce, against a one-shot SHA-256; evaluations on concrete blocks.
  \<^item> \<^verbatim>\<open>Rpc_Client\<close>: \<^verbatim>\<open>stn_rpc_client.c\<close>, requests, the checks on replies, the calls, over an abstract
    exchange function, as in the code.
  \<^item> \<^verbatim>\<open>Sessions\<close>: service modes, client modes, the session object, the listening sockets and the
    acceptor (\<^verbatim>\<open>stn_service_mode.c\<close>, \<^verbatim>\<open>stn_client_mode.c\<close>, \<^verbatim>\<open>stn_client_session.c\<close>,
    \<^verbatim>\<open>stn_mining_listener.c\<close>, \<^verbatim>\<open>stn_session_acceptor.c\<close>).
  \<^item> \<^verbatim>\<open>Rpc_Transport\<close>: \<^verbatim>\<open>stn_rpc_linux.c\<close> and \<^verbatim>\<open>stn_rpc_win32.c\<close>, both interpretations of the contract
    \<open>rpc_transport\<close>; the ghost field \<open>tp_wire\<close> records what was sent. A reply is what the connection
    delivered next after the whole request.
  \<^item> \<^verbatim>\<open>Stratum_Core\<close>, \<^verbatim>\<open>Chain_Adapter\<close>: \<^verbatim>\<open>stn_stratum.c\<close> over an abstract provider (locale
    \<open>chain_provider\<close>), and \<^verbatim>\<open>stn_chain_rpc_adapter.c\<close>, which interprets it.
  \<^item> \<^verbatim>\<open>Chain_Config\<close>, \<^verbatim>\<open>Config_Props\<close>, \<^verbatim>\<open>Config_Text\<close>: \<^verbatim>\<open>stn_chain_config.c\<close>, the configuration file, its
    parser with every allocation, loading and releasing; no path leaks, what loads is usable, and a
    text is read back as what it was written for. \<^verbatim>\<open>Text_Format\<close>: decimal numbers and literals.
  \<^item> \<^verbatim>\<open>Server_State\<close>, \<^verbatim>\<open>Server_Work\<close>, \<^verbatim>\<open>Server_Miner\<close>: \<^verbatim>\<open>stn_stratum_server.c\<close>, the branch for Linux: the
    client list and sending; work, failover and polling; the frame handlers, the receive loop, start,
    main loop and close. A client is named by an identity that is never used again; looking up a
    client that is gone sets the flag \<open>fault\<close>, so \<open>\<not> fault\<close> means that no freed memory was read. A
    loop over the clients that saves the next pointer is \<^const>\<open>for_clients\<close>.
  \<^item> \<^verbatim>\<open>Server_Inv\<close>, \<^verbatim>\<open>Server_Safe\<close>: the invariant \<^const>\<open>srv_ok\<close>, kept by every handler, by the loops
    (locale \<open>client_loop\<close>, interpreted for serving and for offering jobs) and by the main loop.
  \<^item> \<^verbatim>\<open>Server_Sample\<close>: concrete states for the witnesses.
  \<^item> \<^verbatim>\<open>Server_Life\<close>: offering jobs, the outcomes of a poll, failover. \<^verbatim>\<open>Server_Input\<close>: the frame loop
    ends, TCP segmentation does not matter, the hash rate, addresses. \<^verbatim>\<open>Server_Props\<close>,
    \<^verbatim>\<open>Server_Chain\<close>: the verdict on a submission, what goes to the Chain, what ACCEPTED means.
  \<^item> \<^verbatim>\<open>Server_Parts\<close>: the loop and the signal handler as sequences of small changes (\<^const>\<open>server_part\<close>). The
    locale \<open>part_property\<close> carries a property from the updates of the client list to all of them; its
    instances are the configuration, the stop flag and the account of the server's descriptors
    (\<^const>\<open>server_fds\<close>).
  \<^item> \<^verbatim>\<open>Server_Keeps\<close>: the locale \<open>server_property\<close> names the few updates of the state that a property can
    see and carries the property through the whole server. \<^verbatim>\<open>Server_Clients\<close>: properties of single clients
    (locale \<open>client_property\<close>, a sublocale of it). \<^verbatim>\<open>Miner_Stream\<close>, its instance: a reader of the miner
    protocol finds complete and consistent frames in what any connected miner was ever sent, the last JOB
    being the one the server counts on.
  \<^item> \<^verbatim>\<open>Pool_Spec\<close>, \<^verbatim>\<open>Server_Refines\<close>: the contract of the server with its miners as an abstract machine
    \<^const>\<open>pool_step\<close>, with no bytes, sockets or buffers, and the proof that the server refines it along the
    abstraction \<^const>\<open>pool_of\<close> (the second instance of \<open>server_property\<close>).
  \<^item> \<^verbatim>\<open>Chain_Requests\<close>: the server over the transport for Linux (the third instance of \<open>server_property\<close>):
    everything sent to a Chain server is a request with its proof of work. \<^verbatim>\<open>Chain_Connections\<close>, the fourth
    instance: every descriptor made for a connection to the Chain is closed once or is the open one.
  \<^item> \<^verbatim>\<open>Telemetry\<close>: \<^verbatim>\<open>stn_telemetry.c\<close>, the status page, the HTTP clients, the snapshot, the service.
    \<^verbatim>\<open>Telemetry_Page\<close>, \<^verbatim>\<open>Telemetry_Client\<close>: the page fits and is well formed, a client gets one answer.
    \<^verbatim>\<open>Page_Reader\<close>: a reader of the answer and of its JSON text, which the theorem about the page uses.
    \<^verbatim>\<open>Telemetry_Service\<close>, \<^verbatim>\<open>Telemetry_Threads\<close>: a pass over the clients, the descriptors, and the
    interleaving of the publishing main thread and the reading worker as the step relation
    \<^const>\<open>tel_step\<close>, with the invariant of the sequence number.
  \<^item> \<^verbatim>\<open>Server_Status\<close>: what the mining server publishes, and the start of the whole program from the
    configuration file to the telemetry worker. \<^verbatim>\<open>Program_Main\<close>: \<^verbatim>\<open>main.c\<close> on Linux, the whole program as
    the step relation \<^const>\<open>main_step\<close>: the steps of its threads (\<^const>\<open>thread_step\<close>), the main
    one from start to exit code and the telemetry worker, and signals; it ends cleanly, with every
    descriptor closed, and one signal ends it from everywhere.
  \<^item> \<^verbatim>\<open>Server_Log\<close>: the log file, time stamps and sleeping, of which the program theory takes opening and closing the log: whole lines in order, no
    descriptor left open, sleeps that last however often they are interrupted.
  \<^item> \<^verbatim>\<open>Windows_Server\<close>, \<^verbatim>\<open>Windows_Props\<close>: the branch for Windows of \<^verbatim>\<open>stn_stratum_server.c\<close> and of the
    sockets, as far as its text differs: it is safe but serves no miner, because it handles a frame when
    only its header has been read; its handlers agree with those for Linux but for keeping the work
    after a block. \<^verbatim>\<open>Windows_Main\<close>: \<^verbatim>\<open>main.c\<close> on Windows, which ends with everything closed
    (\<open>windows_exit_clean\<close>); the telemetry worker is not part of that model.

  \<^bold>\<open>Bounds and fuel.\<close> \<^const>\<open>service_loop\<close> runs on fuel, two more than what the socket holds; a pass
  after the first takes at least 48 bytes, so this is enough, and more fuel changes nothing
  (\<open>service_terminates\<close>). \<^const>\<open>walk_clients\<close> and \<^const>\<open>remove_all\<close> run on the length of the list. Running
  out of fuel sets \<open>fault\<close>, which the invariant excludes. Counters that C keeps in \<^verbatim>\<open>size_t\<close> and that
  count objects in memory are naturals.

  \<^const>\<open>tel_walk\<close> and \<^const>\<open>tel_remove_all\<close> are alike, with \<open>tel_fault\<close>.

  \<^bold>\<open>Not modelled.\<close> The telemetry worker beside the main loop on Windows, the stubs for other platforms, the
  texts that functions log, and memory orders weaker than program order between the two threads. In
  the theories of the server alone, the loaded configuration and the outcome of opening the telemetry
  listener are arguments of \<^const>\<open>server_start\<close>; \<^const>\<open>program_start\<close> supplies them.
\<close>

end
